(* ===== verification/Prelude.thy ===== *)
theory Prelude
  imports Main "HOL-Library.Word"
begin

unbundle bit_operations_syntax

text \<open>
  Shared vocabulary of the development.

  \<^item> C integer types as words of their width; the program is built for x86-64, so multi-byte
    loads and stores are little endian.
  \<^item> Undefined behaviour, failed assertions and thrown exceptions as values: an operation that can
    fail this way returns \<open>c_fault + 'a\<close> and is sequenced with \<open>bindR\<close>.
  \<^item> Flat memory as a byte list, an address being an index; every access checks its range.
  \<^item> The C library's byte order, string and memory functions as far as the sources use them.
\<close>

section \<open>Types\<close>

type_synonym u8 = "8 word"
type_synonym u16 = "16 word"
type_synonym u32 = "32 word"
type_synonym u64 = "64 word"
type_synonym bytes = "8 word list"
type_synonym addr = nat

datatype c_fault =
    OutOfBounds      \<comment> \<open>a load, store or index outside its object\<close>
  | NullDeref        \<comment> \<open>use of a null pointer\<close>
  | UseAfterFree     \<comment> \<open>use of a pointer to an erased node\<close>
  | Uninitialised    \<comment> \<open>use of storage in which no object lives\<close>
  | AssertFailed     \<comment> \<open>\<open>assert\<close> aborted the program\<close>
  | LengthError      \<comment> \<open>\<open>std::length_error\<close>\<close>
  | BadAlloc         \<comment> \<open>\<open>std::bad_alloc\<close>\<close>
  | SelfDeadlock     \<comment> \<open>a thread locked a non-recursive mutex it already holds\<close>
  | NotJoinable      \<comment> \<open>\<open>join\<close> of a thread object without a thread\<close>
  | BadConversion    \<comment> \<open>conversion of a floating point value outside the range of the integer type\<close>

type_synonym 'a cres = "c_fault + 'a"

named_theorems cres_simps "evaluation of operations that may fault"
named_theorems layout_simps "byte order and field layout"

section \<open>Sequencing operations that may fault\<close>

fun bindR :: "'e + 'a \<Rightarrow> ('a \<Rightarrow> 'e + 'b) \<Rightarrow> 'e + 'b" where
  "bindR (Inl e) f = Inl e"
| "bindR (Inr x) f = f x"

definition assertR :: "bool \<Rightarrow> unit cres" where
  "assertR b = (if b then Inr () else Inl AssertFailed)"

lemma bindR_eq_Inr: "bindR m f = Inr y \<longleftrightarrow> (\<exists>x. m = Inr x \<and> f x = Inr y)"
  by (cases m) auto

lemma bindR_eq_Inl:
  "bindR m f = Inl e \<longleftrightarrow> m = Inl e \<or> (\<exists>x. m = Inr x \<and> f x = Inl e)"
  by (cases m) auto

lemma bindR_split:
  "P (bindR m f) \<longleftrightarrow> (\<forall>e. m = Inl e \<longrightarrow> P (Inl e)) \<and> (\<forall>x. m = Inr x \<longrightarrow> P (f x))"
  by (cases m) auto

lemma bindR_assoc: "bindR (bindR m f) g = bindR m (\<lambda>x. bindR (f x) g)"
  by (cases m) auto

lemma bindR_cong [fundef_cong]:
  "m = m' \<Longrightarrow> (\<And>x. m' = Inr x \<Longrightarrow> f x = f' x) \<Longrightarrow> bindR m f = bindR m' f'"
  by (cases m') auto

lemma assertR_simps [simp]: "assertR True = Inr ()" "assertR False = Inl AssertFailed"
  by (simp_all add: assertR_def)

lemma assertR_eq_Inr [simp]: "assertR b = Inr u \<longleftrightarrow> b"
  by (simp add: assertR_def)

section \<open>Byte order\<close>

text \<open>\<open>ntohs\<close>, \<open>htons\<close>, \<open>ntohl\<close> and \<open>htonl\<close> reverse the bytes on a little-endian host.\<close>

definition lo8 :: "u16 \<Rightarrow> u8" where "lo8 w = ucast w"
definition hi8 :: "u16 \<Rightarrow> u8" where "hi8 w = ucast (drop_bit 8 w)"
definition mk16 :: "u8 \<Rightarrow> u8 \<Rightarrow> u16" where "mk16 h l = word_cat h l"

definition lo16 :: "u32 \<Rightarrow> u16" where "lo16 w = ucast w"
definition hi16 :: "u32 \<Rightarrow> u16" where "hi16 w = ucast (drop_bit 16 w)"
definition mk32 :: "u16 \<Rightarrow> u16 \<Rightarrow> u32" where "mk32 h l = word_cat h l"

definition ntohs :: "u16 \<Rightarrow> u16" where "ntohs w = mk16 (lo8 w) (hi8 w)"
definition htons :: "u16 \<Rightarrow> u16" where "htons w = ntohs w"
definition ntohl :: "u32 \<Rightarrow> u32" where "ntohl w = mk32 (ntohs (lo16 w)) (ntohs (hi16 w))"
definition htonl :: "u32 \<Rightarrow> u32" where "htonl w = ntohl w"

lemma lo8_mk16 [simp, layout_simps]: "lo8 (mk16 h l) = l"
  unfolding lo8_def mk16_def by (rule bit_word_eqI) (simp add: bit_simps)

lemma hi8_mk16 [simp, layout_simps]: "hi8 (mk16 h l) = h"
  unfolding hi8_def mk16_def by (rule bit_word_eqI) (simp add: bit_simps)

lemma mk16_hi8_lo8 [simp, layout_simps]: "mk16 (hi8 w) (lo8 w) = w"
  unfolding hi8_def lo8_def mk16_def by (rule bit_word_eqI) (auto simp: bit_simps)

lemma lo16_mk32 [simp, layout_simps]: "lo16 (mk32 h l) = l"
  unfolding lo16_def mk32_def by (rule bit_word_eqI) (simp add: bit_simps)

lemma hi16_mk32 [simp, layout_simps]: "hi16 (mk32 h l) = h"
  unfolding hi16_def mk32_def by (rule bit_word_eqI) (simp add: bit_simps)

lemma mk32_hi16_lo16 [simp, layout_simps]: "mk32 (hi16 w) (lo16 w) = w"
  unfolding hi16_def lo16_def mk32_def by (rule bit_word_eqI) (auto simp: bit_simps)

lemma ntohs_mk16 [simp, layout_simps]: "ntohs (mk16 h l) = mk16 l h"
  by (simp add: ntohs_def)

lemma ntohs_ntohs [simp, layout_simps]: "ntohs (ntohs w) = w"
  by (simp add: ntohs_def)

lemma ntohl_ntohl [simp, layout_simps]: "ntohl (ntohl w) = w"
  by (simp add: ntohl_def)

lemma htons_inverse [simp, layout_simps]: "ntohs (htons w) = w" "htons (ntohs w) = w"
  by (simp_all add: htons_def)

lemma htonl_inverse [simp, layout_simps]: "ntohl (htonl w) = w" "htonl (ntohl w) = w"
  by (simp_all add: htonl_def)

lemma ntohs_inject [simp]: "ntohs a = ntohs b \<longleftrightarrow> a = b"
  by (metis ntohs_ntohs)

section \<open>Bounds and sign of machine integers\<close>

lemma unat_u8_less: "unat (x :: u8) < 256"
  using unsigned_less [of x] by simp

lemma unat_u16_less: "unat (x :: u16) < 65536"
  using unsigned_less [of x] by simp

lemma unat_u32_less: "unat (x :: u32) < 4294967296"
  using unsigned_less [of x] by simp

lemma uint_less_of_unat:
  fixes x :: "'a::len word"
  shows "uint x < 2 ^ n \<longleftrightarrow> unat x < 2 ^ n"
proof -
  have "uint x < 2 ^ n \<longleftrightarrow> int (unat x) < int (2 ^ n)" by simp
  then show ?thesis by (simp only: of_nat_less_iff)
qed
lemma sint_nonneg_u32:
  fixes x :: "32 word"
  assumes "unat x < 2^31"
  shows "sint x = uint x"
proof -
  have "uint x < 2 ^ 31" using assms uint_less_of_unat by blast
  moreover have "- (2 ^ 31) \<le> uint x" by (rule order_trans [OF _ uint_ge_0]) simp
  ultimately have "signed_take_bit 31 (uint x) = uint x"
    by (intro signed_take_bit_int_eq_self)
  then show ?thesis by (simp add: sint_uint)
qed
lemma sint_neg_u32:
  fixes x :: "32 word"
  assumes "2^31 \<le> unat x"
  shows "sint x < 0"
proof -
  have "\<not> uint x < 2 ^ 31" using assms uint_less_of_unat [of x 31] by linarith
  moreover have "uint x < 2 ^ 32" using uint_lt2p [of x] by simp
  ultimately have "uint x div 2 ^ 31 = 1" by simp
  then have "bit (uint x) 31" by (simp add: bit_iff_odd)
  then show ?thesis by (simp add: sint_uint signed_take_bit_negative_iff)
qed

lemma unat_ucast_u32_u64:
  fixes x :: "32 word"
  shows "unat (ucast x :: 64 word) = unat x"
  using unat_u32_less [of x] by (simp add: unsigned_ucast_eq take_bit_nat_eq_self_iff) 
lemma unat_scast_u32:
  fixes x :: "32 word"
  assumes "unat x < 2^31"
  shows "unat (scast x :: 64 word) = unat x"
proof -
  have "(scast x :: 64 word) = ucast x"
    using sint_nonneg_u32 [OF assms]  by (metis of_int_sint of_int_uint)
  then show ?thesis by (simp add: unat_ucast_u32_u64)
qed

section \<open>Memory\<close>

definition rd8 :: "bytes \<Rightarrow> addr \<Rightarrow> u8 cres" where
  "rd8 m a = (if a < length m then Inr (m ! a) else Inl OutOfBounds)"

definition ld16 :: "bytes \<Rightarrow> addr \<Rightarrow> u16 cres" where
  "ld16 m a = (if a + 2 \<le> length m then Inr (mk16 (m ! (a + 1)) (m ! a)) else Inl OutOfBounds)"

definition ld32 :: "bytes \<Rightarrow> addr \<Rightarrow> u32 cres" where
  "ld32 m a = (if a + 4 \<le> length m
     then Inr (mk32 (mk16 (m ! (a + 3)) (m ! (a + 2))) (mk16 (m ! (a + 1)) (m ! a)))
     else Inl OutOfBounds)"

definition rdn :: "bytes \<Rightarrow> addr \<Rightarrow> nat \<Rightarrow> bytes cres" where
  "rdn m a n = (if a + n \<le> length m then Inr (take n (drop a m)) else Inl OutOfBounds)"

definition put :: "bytes \<Rightarrow> addr \<Rightarrow> bytes \<Rightarrow> bytes" where
  "put m a bs = take a m @ bs @ drop (a + length bs) m"

definition wrn :: "bytes \<Rightarrow> addr \<Rightarrow> bytes \<Rightarrow> bytes cres" where
  "wrn m a bs = (if a + length bs \<le> length m then Inr (put m a bs) else Inl OutOfBounds)"

definition st16 :: "bytes \<Rightarrow> addr \<Rightarrow> u16 \<Rightarrow> bytes cres" where
  "st16 m a w = wrn m a [lo8 w, hi8 w]"

definition memcpy :: "bytes \<Rightarrow> addr \<Rightarrow> addr \<Rightarrow> nat \<Rightarrow> bytes cres" where
  "memcpy m dst src n = bindR (rdn m src n) (wrn m dst)"

lemma length_put [simp]: "a + length bs \<le> length m \<Longrightarrow> length (put m a bs) = length m"
  by (simp add: put_def)

lemma nth_put:
  "a + length bs \<le> length m \<Longrightarrow> i < length m \<Longrightarrow>
   put m a bs ! i = (if a \<le> i \<and> i < a + length bs then bs ! (i - a) else m ! i)"
  by (auto simp: put_def nth_append min_def)

lemma rd8_Inr [cres_simps]: "rd8 m a = Inr b \<longleftrightarrow> a < length m \<and> b = m ! a"
  by (auto simp: rd8_def)

lemma ld16_Inr [cres_simps]:
  "ld16 m a = Inr w \<longleftrightarrow> a + 2 \<le> length m \<and> w = mk16 (m ! (a + 1)) (m ! a)"
  by (auto simp: ld16_def)

lemma wrn_Inr [cres_simps]:
  "wrn m a bs = Inr m' \<longleftrightarrow> a + length bs \<le> length m \<and> m' = put m a bs"
  by (auto simp: wrn_def)

lemma rdn_Inr [cres_simps]:
  "rdn m a n = Inr bs \<longleftrightarrow> a + n \<le> length m \<and> bs = take n (drop a m)"
  by (auto simp: rdn_def)

lemma memcpy_Inr [cres_simps]:
  "memcpy m dst src n = Inr m' \<longleftrightarrow>
     src + n \<le> length m \<and> dst + n \<le> length m \<and> m' = put m dst (take n (drop src m))"
  by (auto simp: memcpy_def bindR_eq_Inr rdn_Inr wrn_Inr)

lemma ld16_put_same [simp]:
  "a + 2 \<le> length m \<Longrightarrow> ld16 (put m a [l, h]) a = Inr (mk16 h l)"
  by (simp add: ld16_def nth_put)

lemma ld16_put_other [simp]:
  "a + 2 \<le> length m \<Longrightarrow> b + 2 \<le> a \<or> a + 2 \<le> b \<Longrightarrow> ld16 (put m a [l, h]) b = ld16 m b"
  by (auto simp: ld16_def nth_put)

section \<open>C strings\<close>

text \<open>
  A character array is its byte list; past the end of the list a NUL is assumed, which the sources
  never reach because every bound they pass is the size of an array involved.
\<close>

definition strlen :: "bytes \<Rightarrow> nat" where
  "strlen s = length (takeWhile (\<lambda>c. c \<noteq> 0) s)"

fun strncmp_eq :: "bytes \<Rightarrow> bytes \<Rightarrow> nat \<Rightarrow> bool" where
  "strncmp_eq s t 0 = True"
| "strncmp_eq s t (Suc n) =
     (let a = (case s of [] \<Rightarrow> 0 | x # _ \<Rightarrow> x); b = (case t of [] \<Rightarrow> 0 | y # _ \<Rightarrow> y)
      in a = b \<and> (a = 0 \<or> strncmp_eq (tl s) (tl t) n))"

fun strncpy :: "bytes \<Rightarrow> nat \<Rightarrow> bytes" where
  "strncpy s 0 = []"
| "strncpy s (Suc n) =
     (case s of [] \<Rightarrow> replicate (Suc n) 0
      | c # cs \<Rightarrow> (if c = 0 then replicate (Suc n) 0 else c # strncpy cs n))"

definition toupper :: "u8 \<Rightarrow> u8" where
  "toupper c = (if 97 \<le> c \<and> c \<le> 122 then c - 32 else c)"

lemma strncmp_eq_refl [simp]: "strncmp_eq s s n"
  by (induction n arbitrary: s) (auto simp: Let_def)

lemma strncmp_eq_sym: "strncmp_eq s t n \<Longrightarrow> strncmp_eq t s n"
  by (induction s t n rule: strncmp_eq.induct) (auto simp: Let_def split: list.splits)

lemma strncmp_eq_trans: "strncmp_eq s t n \<Longrightarrow> strncmp_eq t u n \<Longrightarrow> strncmp_eq s u n"
proof (induction n arbitrary: s t u)
  case (Suc n)
  then show ?case by (fastforce simp: Let_def)
qed simp

lemma length_strncpy [simp]: "length (strncpy s n) = n"
  by (induction s n rule: strncpy.induct) (auto split: list.splits)

lemma strncmp_eq_strncpy: "n \<le> k \<Longrightarrow> strncmp_eq (strncpy s k) s n"
proof (induction n arbitrary: s k)
  case (Suc n)
  then obtain j where "k = Suc j" and "n \<le> j" by (cases k) auto
  with Suc.IH [of j] show ?case by (cases s) (auto simp: Let_def)
qed simp

section \<open>Lists\<close>

lemma take_drop_take_append:
  "take n (drop i xs) @ take k (drop (i + n) xs) = take (n + k) (drop i xs)"
proof -
  have "drop (i + n) xs = drop n (drop i xs)" by (simp add: add.commute)
  then show ?thesis by (simp only: take_add)
qed

lemma in_concat_update_snoc:
  assumes "i < length qs"
  shows "y \<in> set (concat (qs[i := qs ! i @ [x]])) \<longleftrightarrow> y = x \<or> y \<in> set (concat qs)"
proof -
  have "qs[i := qs ! i @ [x]] = take i qs @ (qs ! i @ [x]) # drop (Suc i) qs"
    using assms by (rule upd_conv_take_nth_drop)
  moreover have "concat qs = concat (take i qs) @ qs ! i @ concat (drop (Suc i) qs)"
    using assms by (metis append_take_drop_id concat.simps(2) concat_append Cons_nth_drop_Suc)
  ultimately show ?thesis by auto
qed

lemma find_Some_iff_unique:
  assumes "\<And>x y. x \<in> set xs \<Longrightarrow> y \<in> set xs \<Longrightarrow> P x \<Longrightarrow> P y \<Longrightarrow> x = y"
  shows "find P xs = Some x \<longleftrightarrow> x \<in> set xs \<and> P x"
  using assms by (induction xs) auto

lemma find_map_update:
  assumes "\<And>x. P (g x) = P x"
  shows "find P (map g xs) = map_option g (find P xs)"
  using assms by (induction xs) auto

lemma find_SomeD: "find P xs = Some x \<Longrightarrow> x \<in> set xs \<and> P x"
  by (induction xs) (auto split: if_splits)

lemma find_append: "find P (xs @ ys) = (case find P xs of None \<Rightarrow> find P ys | Some x \<Rightarrow> Some x)"
  by (induction xs) auto

end
