(* ===== verification/PC_Queue.thy ===== *)
theory PC_Queue
  imports Prelude
begin

text \<open>
  The ring buffer of \<open>include/ProducerConsumerQueue.h\<close>, one definition per member function, and
  its refinement to a bounded first-in first-out list.  A slot of the malloc'ed array is \<open>None\<close>
  while no object lives in it (never constructed, or destroyed by a read).  The interleaved
  execution of one producer and one consumer is in \<open>PCQ_Concurrent\<close>.
\<close>

section \<open>The queue\<close>

record 'a pcq =
  qsize :: u32
  records :: "'a option list"
  readIndex :: u32
  writeIndex :: u32

definition ProducerConsumerQueue :: "bool \<Rightarrow> u32 \<Rightarrow> 'a pcq cres" where
  "ProducerConsumerQueue malloc_ok sz =
     bindR (assertR (2 \<le> sz)) (\<lambda>_.
       if malloc_ok
       then Inr \<lparr>qsize = sz, records = replicate (unat sz) None,
                 readIndex = 0, writeIndex = 0\<rparr>
       else Inl BadAlloc)"

definition next_index :: "'a pcq \<Rightarrow> u32 \<Rightarrow> u32" where
  "next_index q i = (let nextRecord = i + 1 in if nextRecord = qsize q then 0 else nextRecord)"

definition slot :: "'a pcq \<Rightarrow> nat \<Rightarrow> 'a cres" where
  "slot q k = (if k < length (records q)
     then (case records q ! k of None \<Rightarrow> Inl Uninitialised | Some v \<Rightarrow> Inr v)
     else Inl OutOfBounds)"

definition pcq_write :: "'a pcq \<Rightarrow> 'a \<Rightarrow> (bool \<times> 'a pcq) cres" where
  "pcq_write q x =
     (let currentWrite = writeIndex q; nextRecord = next_index q currentWrite
      in if nextRecord \<noteq> readIndex q
         then if unat currentWrite < length (records q)
              then Inr (True, q\<lparr>records := (records q)[unat currentWrite := Some x],
                                writeIndex := nextRecord\<rparr>)
              else Inl OutOfBounds
         else Inr (False, q))"

definition pcq_read :: "'a pcq \<Rightarrow> ('a option \<times> 'a pcq) cres" where
  "pcq_read q =
     (let currentRead = readIndex q
      in if currentRead = writeIndex q then Inr (None, q)
         else bindR (slot q (unat currentRead)) (\<lambda>record.
           Inr (Some record, q\<lparr>records := (records q)[unat currentRead := None],
                               readIndex := next_index q currentRead\<rparr>)))"

definition frontPtr :: "'a pcq \<Rightarrow> 'a option cres" where
  "frontPtr q =
     (if readIndex q = writeIndex q then Inr None
      else bindR (slot q (unat (readIndex q))) (\<lambda>v. Inr (Some v)))"

definition popFront :: "'a pcq \<Rightarrow> 'a pcq cres" where
  "popFront q =
     (let currentRead = readIndex q
      in bindR (assertR (currentRead \<noteq> writeIndex q)) (\<lambda>_.
         bindR (slot q (unat currentRead)) (\<lambda>_.
           Inr (q\<lparr>records := (records q)[unat currentRead := None],
                  readIndex := next_index q currentRead\<rparr>))))"

definition isEmpty :: "'a pcq \<Rightarrow> bool" where
  "isEmpty q \<longleftrightarrow> readIndex q = writeIndex q"

definition isFull :: "'a pcq \<Rightarrow> bool" where
  "isFull q \<longleftrightarrow> \<not> next_index q (writeIndex q) \<noteq> readIndex q"

text \<open>
  \<open>sizeGuess\<close>: the difference is stored in an \<open>int\<close>, \<open>ret += qsize\<close> is computed in unsigned
  arithmetic and stored back, and the \<open>int\<close> is sign-extended to \<open>size_t\<close> on return.
\<close>

definition sizeGuess :: "'a pcq \<Rightarrow> u64" where
  "sizeGuess q =
     (let ret = writeIndex q - readIndex q;
          ret' = (if sint ret < 0 then ret + qsize q else ret)
      in scast ret')"

text \<open>
  The destructor's loop from \<open>readIndex\<close> to \<open>writeIndex\<close>: the values destroyed, \<open>None\<close>
  when the fuel runs out.
\<close>

fun destroy_loop :: "nat \<Rightarrow> 'a pcq \<Rightarrow> nat \<Rightarrow> nat \<Rightarrow> 'a list cres option" where
  "destroy_loop 0 q rd fin = None"
| "destroy_loop (Suc fuel) q rd fin =
     (if rd = fin then Some (Inr [])
      else (case slot q rd of
              Inl e \<Rightarrow> Some (Inl e)
            | Inr v \<Rightarrow> map_option (map_sum id ((#) v))
                (destroy_loop fuel q (if rd + 1 = unat (qsize q) then 0 else rd + 1) fin)))"

definition pcq_destroy :: "nat \<Rightarrow> 'a pcq \<Rightarrow> 'a list cres option" where
  "pcq_destroy fuel q = destroy_loop fuel q (unat (readIndex q)) (unat (writeIndex q))"

section \<open>Abstraction and invariant\<close>

text \<open>The slots from the read index up to the write index, wrapping at the size.\<close>

definition live_slots :: "nat \<Rightarrow> nat \<Rightarrow> nat \<Rightarrow> nat list" where
  "live_slots n r w = (if r \<le> w then [r..<w] else [r..<n] @ [0..<w])"

definition pcq_slots :: "'a pcq \<Rightarrow> nat list" where
  "pcq_slots q = live_slots (unat (qsize q)) (unat (readIndex q)) (unat (writeIndex q))"

definition pcq_list :: "'a pcq \<Rightarrow> 'a list" where
  "pcq_list q = map (\<lambda>k. the (records q ! k)) (pcq_slots q)"

definition pcq_inv :: "'a pcq \<Rightarrow> bool" where
  "pcq_inv q \<longleftrightarrow> 2 \<le> unat (qsize q) \<and> length (records q) = unat (qsize q) \<and>
     unat (readIndex q) < unat (qsize q) \<and> unat (writeIndex q) < unat (qsize q) \<and>
     (\<forall>k < unat (qsize q). records q ! k \<noteq> None \<longleftrightarrow> k \<in> set (pcq_slots q))"

definition pcq_cap :: "'a pcq \<Rightarrow> nat" where
  "pcq_cap q = unat (qsize q) - 1"

definition succ_mod :: "nat \<Rightarrow> nat \<Rightarrow> nat" where
  "succ_mod n k = (if k + 1 = n then 0 else k + 1)"

lemma live_slots_distinct [simp]: "distinct (live_slots n r w)"
  by (auto simp: live_slots_def)

lemma live_slots_bound: "r < n \<Longrightarrow> w < n \<Longrightarrow> k \<in> set (live_slots n r w) \<Longrightarrow> k < n"
  by (auto simp: live_slots_def split: if_splits)

lemma live_slots_snoc:
  "r < n \<Longrightarrow> w < n \<Longrightarrow> succ_mod n w \<noteq> r \<Longrightarrow>
   live_slots n r (succ_mod n w) = live_slots n r w @ [w]"
  by (auto simp: live_slots_def succ_mod_def split: if_splits)

lemma live_slots_Cons:
  "r < n \<Longrightarrow> w < n \<Longrightarrow> r \<noteq> w \<Longrightarrow>
   live_slots n r w = r # live_slots n (succ_mod n r) w"
  by (auto simp: live_slots_def succ_mod_def upt_conv_Cons)

lemma live_slots_Nil: "r < n \<Longrightarrow> w < n \<Longrightarrow> live_slots n r w = [] \<longleftrightarrow> r = w"
  by (auto simp: live_slots_def)

lemma length_live_slots:
  "length (live_slots n r w) = (if r \<le> w then w - r else (n - r) + w)"
  by (simp add: live_slots_def)

lemma live_slots_full:
  "r < n \<Longrightarrow> w < n \<Longrightarrow> length (live_slots n r w) < n - 1 \<longleftrightarrow> succ_mod n w \<noteq> r"
  by (auto simp: length_live_slots succ_mod_def)

lemma write_slot_not_live: "r < n \<Longrightarrow> w < n \<Longrightarrow> w \<notin> set (live_slots n r w)"
  by (auto simp: live_slots_def)

lemma succ_mod_less: "k < n \<Longrightarrow> succ_mod n k < n"
  by (auto simp: succ_mod_def)

lemma unat_next_index:
  assumes "unat i < unat (qsize q)"
  shows "unat (next_index q i) = succ_mod (unat (qsize q)) (unat i)"
proof -
  have "unat (qsize q) < 2 ^ 32" using unsigned_less [of "qsize q"] by simp
  with assms have "unat (i + 1) = unat i + 1"
    by (simp add: unat_word_ariths)
  then show ?thesis
    by (auto simp: next_index_def Let_def succ_mod_def word_unat_eq_iff [symmetric])
qed

lemma next_index_eq:
  "unat i < unat (qsize q) \<Longrightarrow> next_index q i = j \<longleftrightarrow> succ_mod (unat (qsize q)) (unat i) = unat j"
  by (simp add: word_unat_eq_iff unat_next_index)

lemmas pcq_defs = pcq_inv_def pcq_list_def pcq_slots_def

section \<open>Each operation against the abstract list\<close>

lemma pcq_list_Nil: "pcq_inv q \<Longrightarrow> pcq_list q = [] \<longleftrightarrow> readIndex q = writeIndex q"
  by (simp add: pcq_defs live_slots_Nil word_unat_eq_iff)

lemma length_pcq_list_full:
  "pcq_inv q \<Longrightarrow> length (pcq_list q) < pcq_cap q \<longleftrightarrow>
     next_index q (writeIndex q) \<noteq> readIndex q"
  by (simp add: pcq_defs pcq_cap_def live_slots_full [simplified] next_index_eq)

lemma length_pcq_list_cap: "pcq_inv q \<Longrightarrow> length (pcq_list q) \<le> pcq_cap q"
  by (auto simp: pcq_defs pcq_cap_def length_live_slots)

lemma pcq_new_ok:
  assumes "2 \<le> sz"
  shows "\<exists>q. ProducerConsumerQueue True sz = Inr q \<and> pcq_inv q \<and> pcq_list q = [] \<and>
           pcq_cap q = unat sz - 1"
proof -
  from assms have "2 \<le> unat sz" by (simp add: word_le_nat_alt)
  with assms show ?thesis
    by (simp add: ProducerConsumerQueue_def pcq_defs pcq_cap_def live_slots_def)
qed

lemma pcq_slots_write:
  assumes "pcq_inv q" and "next_index q (writeIndex q) \<noteq> readIndex q"
  shows "live_slots (unat (qsize q)) (unat (readIndex q)) (unat (next_index q (writeIndex q)))
         = pcq_slots q @ [unat (writeIndex q)]"
  using assms by (simp add: pcq_defs unat_next_index next_index_eq live_slots_snoc)

lemma write_room:
  assumes inv: "pcq_inv q" and room: "length (pcq_list q) < pcq_cap q"
  shows "\<exists>q'. pcq_write q x = Inr (True, q') \<and> pcq_inv q' \<and> pcq_list q' = pcq_list q @ [x] \<and>
           pcq_cap q' = pcq_cap q"
proof -
  let ?n = "unat (qsize q)" and ?w = "unat (writeIndex q)"
  let ?q' = "q\<lparr>records := (records q)[?w := Some x], writeIndex := next_index q (writeIndex q)\<rparr>"
  from inv room have nf: "next_index q (writeIndex q) \<noteq> readIndex q"
    by (simp add: length_pcq_list_full)
  have slots: "pcq_slots ?q' = pcq_slots q @ [?w]"
    using pcq_slots_write [OF inv nf] by (simp add: pcq_slots_def)
  have w: "?w < ?n" "?w \<notin> set (pcq_slots q)" and len: "length (records q) = ?n"
    using inv by (auto simp: pcq_defs write_slot_not_live)
  have bound: "\<And>k. k \<in> set (pcq_slots q) \<Longrightarrow> k < ?n"
    using inv by (auto simp: pcq_defs dest: live_slots_bound)
  have "pcq_list ?q' = pcq_list q @ [x]"
    using w len bound by (auto simp: pcq_list_def slots nth_list_update)
  moreover have "pcq_inv ?q'"
    using inv w slots
    by (auto simp: pcq_inv_def nth_list_update unat_next_index succ_mod_less)
  moreover have "pcq_write q x = Inr (True, ?q')"
    using nf w len by (simp add: pcq_write_def Let_def)
  ultimately show ?thesis by (simp add: pcq_cap_def)
qed

lemma write_full:
  "pcq_inv q \<Longrightarrow> \<not> length (pcq_list q) < pcq_cap q \<Longrightarrow> pcq_write q x = Inr (False, q)"
  by (simp add: length_pcq_list_full pcq_write_def Let_def)

lemma pcq_slots_read:
  assumes "pcq_inv q" and "readIndex q \<noteq> writeIndex q"
  shows "pcq_slots q = unat (readIndex q) #
         live_slots (unat (qsize q)) (unat (next_index q (readIndex q))) (unat (writeIndex q))"
  using assms by (simp add: pcq_defs unat_next_index live_slots_Cons word_unat_eq_iff)

lemma pop_slot:
  assumes inv: "pcq_inv q" and ne: "pcq_list q = v # vs"
  defines "q' \<equiv> q\<lparr>records := (records q)[unat (readIndex q) := None],
                  readIndex := next_index q (readIndex q)\<rparr>"
  shows "readIndex q \<noteq> writeIndex q" "slot q (unat (readIndex q)) = Inr v"
    "pcq_inv q'" "pcq_list q' = vs"
proof -
  let ?n = "unat (qsize q)" and ?r = "unat (readIndex q)"
  from inv ne show rw: "readIndex q \<noteq> writeIndex q" by (auto simp: pcq_list_Nil [symmetric])
  have slots: "pcq_slots q = ?r # pcq_slots q'"
    using pcq_slots_read [OF inv rw] by (simp add: pcq_slots_def q'_def)
  have dist: "distinct (?r # pcq_slots q')" and r: "?r < ?n" and len: "length (records q) = ?n"
    using inv slots by (metis live_slots_distinct pcq_slots_def) (use inv in \<open>auto simp: pcq_inv_def\<close>)
  have bound: "\<And>k. k \<in> set (pcq_slots q) \<Longrightarrow> k < ?n"
    using inv by (auto simp: pcq_defs dest: live_slots_bound)
  have live: "records q ! ?r \<noteq> None" using inv r slots by (auto simp: pcq_inv_def)
  with slots ne have "records q ! ?r = Some v" by (auto simp: pcq_list_def)
  with r len show "slot q ?r = Inr v" by (simp add: slot_def)
  have other: "\<And>k. k \<in> set (pcq_slots q') \<Longrightarrow> k \<noteq> ?r" using dist by auto
  have keep: "\<And>k. k \<noteq> ?r \<Longrightarrow> records q' ! k = records q ! k" by (simp add: q'_def)
  have "pcq_list q' = map (\<lambda>k. the (records q ! k)) (pcq_slots q')"
    unfolding pcq_list_def using other by (intro map_cong refl) (simp add: keep)
  with ne slots show "pcq_list q' = vs" by (simp add: pcq_list_def)
  have eq: "\<And>k. k < ?n \<Longrightarrow> records q' ! k \<noteq> None \<longleftrightarrow> k \<in> set (pcq_slots q')"
  proof -
    fix k assume k: "k < ?n"
    show "records q' ! k \<noteq> None \<longleftrightarrow> k \<in> set (pcq_slots q')"
    proof (cases "k = ?r")
      case True
      with r len other show ?thesis by (auto simp: q'_def)
    next
      case False
      with inv slots k keep show ?thesis by (simp add: pcq_inv_def)
    qed
  qed
  have "qsize q' = qsize q" "length (records q') = length (records q)"
    "writeIndex q' = writeIndex q" "readIndex q' = next_index q (readIndex q)"
    by (simp_all add: q'_def)
  with inv eq show "pcq_inv q'" by (simp add: pcq_inv_def unat_next_index succ_mod_less)
qed

lemma read_Cons:
  assumes "pcq_inv q" and "pcq_list q = v # vs"
  shows "\<exists>q'. pcq_read q = Inr (Some v, q') \<and> pcq_inv q' \<and> pcq_list q' = vs \<and>
           pcq_cap q' = pcq_cap q"
  using pop_slot [OF assms] by (simp add: pcq_read_def Let_def pcq_cap_def)

lemma read_Nil: "pcq_inv q \<Longrightarrow> pcq_list q = [] \<Longrightarrow> pcq_read q = Inr (None, q)"
  by (simp add: pcq_list_Nil pcq_read_def)

section \<open>The interface promised to the packet handler\<close>

text \<open>
  A bounded first-in first-out container: the operations the packet handler calls and what it
  relies on.  Any sequence of writes and reads is then answered as the abstract list answers it.
\<close>

datatype 'a qop = Enq 'a | Deq

datatype 'a qout = Wrote bool | Got "'a option"

fun run_queue ::
  "('q \<Rightarrow> 'a \<Rightarrow> (bool \<times> 'q) cres) \<Rightarrow> ('q \<Rightarrow> ('a option \<times> 'q) cres) \<Rightarrow>
   'q \<Rightarrow> 'a qop list \<Rightarrow> ('a qout list \<times> 'q) cres" where
  "run_queue enq deq q [] = Inr ([], q)"
| "run_queue enq deq q (Enq x # ops) =
     bindR (enq q x) (\<lambda>(b, q'). bindR (run_queue enq deq q' ops) (\<lambda>(outs, q'').
       Inr (Wrote b # outs, q'')))"
| "run_queue enq deq q (Deq # ops) =
     bindR (deq q) (\<lambda>(v, q'). bindR (run_queue enq deq q' ops) (\<lambda>(outs, q'').
       Inr (Got v # outs, q'')))"

fun run_fifo :: "nat \<Rightarrow> 'a list \<Rightarrow> 'a qop list \<Rightarrow> 'a qout list \<times> 'a list" where
  "run_fifo c xs [] = ([], xs)"
| "run_fifo c xs (Enq x # ops) =
     (let ok = length xs < c; (outs, ys) = run_fifo c (if ok then xs @ [x] else xs) ops
      in (Wrote ok # outs, ys))"
| "run_fifo c [] (Deq # ops) =
     (let (outs, ys) = run_fifo c [] ops in (Got None # outs, ys))"
| "run_fifo c (x # xs) (Deq # ops) =
     (let (outs, ys) = run_fifo c xs ops in (Got (Some x) # outs, ys))"

locale bounded_fifo =
  fixes inv :: "'q \<Rightarrow> bool"
    and elems :: "'q \<Rightarrow> 'a list"
    and cap :: "'q \<Rightarrow> nat"
    and enq :: "'q \<Rightarrow> 'a \<Rightarrow> (bool \<times> 'q) cres"
    and deq :: "'q \<Rightarrow> ('a option \<times> 'q) cres"
    and empty :: "'q \<Rightarrow> bool"
  assumes enq_room: "inv q \<Longrightarrow> length (elems q) < cap q \<Longrightarrow>
      \<exists>q'. enq q x = Inr (True, q') \<and> inv q' \<and> elems q' = elems q @ [x] \<and> cap q' = cap q"
    and enq_full: "inv q \<Longrightarrow> \<not> length (elems q) < cap q \<Longrightarrow> enq q x = Inr (False, q)"
    and deq_Cons: "inv q \<Longrightarrow> elems q = x # xs \<Longrightarrow>
      \<exists>q'. deq q = Inr (Some x, q') \<and> inv q' \<and> elems q' = xs \<and> cap q' = cap q"
    and deq_Nil: "inv q \<Longrightarrow> elems q = [] \<Longrightarrow> deq q = Inr (None, q)"
    and empty_iff: "inv q \<Longrightarrow> empty q \<longleftrightarrow> elems q = []"
begin

lemma run_refines:
  "inv q \<Longrightarrow> \<exists>q'. run_queue enq deq q ops = Inr (fst (run_fifo (cap q) (elems q) ops), q') \<and>
     inv q' \<and> elems q' = snd (run_fifo (cap q) (elems q) ops) \<and> cap q' = cap q"
proof (induction ops arbitrary: q)
  case (Cons op ops)
  show ?case
  proof (cases op)
    case (Enq x)
    show ?thesis
    proof (cases "length (elems q) < cap q")
      case True
      with Cons.prems obtain q1 where "enq q x = Inr (True, q1)" "inv q1"
        "elems q1 = elems q @ [x]" "cap q1 = cap q" using enq_room by blast
      with Cons.IH [of q1] True Enq show ?thesis by (auto simp: split_beta)
    next
      case False
      with Cons.prems Cons.IH [of q] Enq enq_full show ?thesis by (auto simp: split_beta)
    qed
  next
    case Deq
    show ?thesis
    proof (cases "elems q")
      case Nil
      with Cons.prems Cons.IH [of q] Deq deq_Nil show ?thesis by (auto simp: split_beta)
    next
      case (Cons x xs)
      with Cons.prems obtain q1 where "deq q = Inr (Some x, q1)" "inv q1"
        "elems q1 = xs" "cap q1 = cap q" using deq_Cons by blast
      with Cons.IH [of q1] Cons Deq show ?thesis by (auto simp: split_beta)
    qed
  qed
qed simp

lemma deq_nonempty:
  "inv q \<Longrightarrow> \<not> empty q \<Longrightarrow>
   \<exists>q'. deq q = Inr (Some (hd (elems q)), q') \<and> inv q' \<and> elems q' = tl (elems q)"
  using deq_Cons [of q "hd (elems q)" "tl (elems q)"] empty_iff [of q] by auto

end

interpretation pcq: bounded_fifo pcq_inv pcq_list pcq_cap pcq_write pcq_read isEmpty
  by unfold_locales
    (simp_all add: write_room write_full read_Cons read_Nil pcq_list_Nil isEmpty_def)

section \<open>Observers and the destructor\<close>

lemma isFull_iff: "pcq_inv q \<Longrightarrow> isFull q \<longleftrightarrow> length (pcq_list q) = pcq_cap q"
  using length_pcq_list_full [of q] length_pcq_list_cap [of q] by (auto simp: isFull_def)

lemma front_pop_Cons:
  assumes "pcq_inv q" and "pcq_list q = v # vs"
  shows "frontPtr q = Inr (Some v)"
    and "\<exists>q'. popFront q = Inr q' \<and> pcq_read q = Inr (Some v, q')"
  using pop_slot [OF assms] by (simp_all add: frontPtr_def popFront_def pcq_read_def Let_def)

lemma front_pop_Nil:
  assumes "pcq_inv q" and "pcq_list q = []"
  shows "frontPtr q = Inr None" and "popFront q = Inl AssertFailed"
  using assms by (simp_all add: frontPtr_def popFront_def pcq_list_Nil)

lemma unat_diff_u32:
  fixes a b :: u32
  shows "unat (a - b) = (if unat b \<le> unat a then unat a - unat b
                         else unat a + 4294967296 - unat b)"
  by (simp add: unat_sub_if_size word_size)

lemma slot_live:
  assumes "pcq_inv q" and "k \<in> set (pcq_slots q)"
  shows "slot q k = Inr (the (records q ! k))"
proof -
  have "k < unat (qsize q)" using assms by (auto simp: pcq_defs dest: live_slots_bound)
  with assms show ?thesis by (auto simp: slot_def pcq_inv_def)
qed

lemma destroy_loop_slots:
  assumes "pcq_inv q" and "rd < unat (qsize q)"
    and "set (live_slots (unat (qsize q)) rd (unat (writeIndex q))) \<subseteq> set (pcq_slots q)"
  shows "destroy_loop (Suc (length (live_slots (unat (qsize q)) rd (unat (writeIndex q)))))
           q rd (unat (writeIndex q))
       = Some (Inr (map (\<lambda>k. the (records q ! k))
                        (live_slots (unat (qsize q)) rd (unat (writeIndex q)))))"
  using assms(2,3)
proof (induction "length (live_slots (unat (qsize q)) rd (unat (writeIndex q)))" arbitrary: rd)
  case 0
  from assms(1) have w: "unat (writeIndex q) < unat (qsize q)" by (simp add: pcq_inv_def)
  from 0 w have "rd = unat (writeIndex q)" using live_slots_Nil by auto
  then show ?case by (simp add: live_slots_def)
next
  case (Suc l)
  let ?n = "unat (qsize q)" and ?w = "unat (writeIndex q)"
  from assms(1) have w: "?w < ?n" by (simp add: pcq_inv_def)
  from Suc.hyps(2) have ne: "rd \<noteq> ?w" by (auto simp: live_slots_def)
  note split = live_slots_Cons [OF Suc.prems(1) w ne]
  from split Suc.prems(2) have sl: "slot q rd = Inr (the (records q ! rd))"
    using slot_live [OF assms(1)] by auto
  have "destroy_loop (Suc (length (live_slots ?n (succ_mod ?n rd) ?w))) q (succ_mod ?n rd) ?w
      = Some (Inr (map (\<lambda>k. the (records q ! k)) (live_slots ?n (succ_mod ?n rd) ?w)))"
    using Suc.hyps(2) split Suc.prems by (intro Suc.hyps(1)) (auto simp: succ_mod_less)
  with ne sl split show ?case by (simp add: succ_mod_def)
qed

section \<open>Properties\<close>

text \<open>C1 Any sequence of writes and reads on a well-formed ring buffer gives, without a fault,
  exactly the answers of a first-in first-out list that holds at most \<open>size - 1\<close> elements.\<close>

theorem pcq_refines_fifo:
  assumes "pcq_inv q"
  shows "\<exists>q'. run_queue pcq_write pcq_read q ops
                = Inr (fst (run_fifo (pcq_cap q) (pcq_list q) ops), q') \<and>
              pcq_inv q' \<and> pcq_list q' = snd (run_fifo (pcq_cap q) (pcq_list q) ops) \<and>
              pcq_cap q' = pcq_cap q"
  by (rule pcq.run_refines [OF assms])

definition pcq_sample :: "nat pcq" where
  "pcq_sample = \<lparr>qsize = 3, records = [None, None, Some 7], readIndex = 2, writeIndex = 0\<rparr>"

lemma pcq_sample_facts: "pcq_inv pcq_sample" "pcq_list pcq_sample = [7]" "pcq_cap pcq_sample = 2"
proof -
  have upt: "[0..<3] = [0, 1, 2::nat]" "[2..<3] = [2::nat]" by (simp_all add: upt_rec)
  have less3: "k < 3 \<longleftrightarrow> k = 0 \<or> k = 1 \<or> k = 2" for k :: nat by auto
  show "pcq_list pcq_sample = [7]" "pcq_cap pcq_sample = 2"
    by (simp_all add: pcq_sample_def pcq_list_def pcq_slots_def live_slots_def pcq_cap_def upt)
  show "pcq_inv pcq_sample"
    by (auto simp: pcq_sample_def pcq_defs live_slots_def upt less3)
qed

theorem pcq_refines_fifo_witness:
  "pcq_inv pcq_sample \<and>
   (\<exists>q'. run_queue pcq_write pcq_read pcq_sample [Enq 8, Enq 9, Deq, Deq, Deq]
           = Inr ([Wrote True, Wrote False, Got (Some 7), Got (Some 8), Got None], q') \<and>
         pcq_list q' = [])"
  using pcq_refines_fifo [OF pcq_sample_facts(1), of "[Enq 8, Enq 9, Deq, Deq, Deq]"]
  by (simp add: pcq_sample_facts) blast

text \<open>For a queue of at most \<open>2^31\<close> slots \<open>sizeGuess\<close> is the exact number of queued
  elements: neither the unsigned subtraction nor the signed correction loses information.\<close>

lemma sizeGuess_exact:
  assumes inv: "pcq_inv q" and small: "unat (qsize q) \<le> 2 ^ 31"
  shows "unat (sizeGuess q) = length (pcq_list q)"
proof -
  let ?r = "unat (readIndex q)" and ?w = "unat (writeIndex q)" and ?n = "unat (qsize q)"
  let ?d = "writeIndex q - readIndex q"
  from inv have b: "?r < ?n" "?w < ?n" by (auto simp: pcq_inv_def)
  have len: "length (pcq_list q) = (if ?r \<le> ?w then ?w - ?r else (?n - ?r) + ?w)"
    by (simp add: pcq_defs length_live_slots)
  show ?thesis
  proof (cases "?r \<le> ?w")
    case True
    then have d: "unat ?d = ?w - ?r" by (simp add: unat_diff_u32)
    with b small have lt: "unat ?d < 2 ^ 31" by simp
    then have "\<not> sint ?d < 0" using sint_nonneg_u32 [OF lt] uint_ge_0 [of ?d] by simp
    with lt d len True show ?thesis by (simp add: sizeGuess_def Let_def unat_scast_u32)
  next
    case False
    then have d: "unat ?d = ?w + 4294967296 - ?r" by (simp add: unat_diff_u32)
    with b small have "2 ^ 31 \<le> unat ?d" by simp
    then have neg: "sint ?d < 0" by (rule sint_neg_u32)
    have "unat ?d + ?n = ((?n - ?r) + ?w) + 4294967296"
      using d b False unat_u32_less [of "readIndex q"] by linarith
    moreover have "(?n - ?r) + ?w < 4294967296" using b False small by simp
    ultimately have s: "unat (?d + qsize q) = (?n - ?r) + ?w" by (simp add: unat_word_ariths)
    with b False small have "unat (?d + qsize q) < 2 ^ 31" by simp
    from unat_scast_u32 [OF this] s neg len False show ?thesis by (simp add: sizeGuess_def Let_def)
  qed
qed

lemma sizeGuess_exact_witness: "pcq_inv pcq_sample \<and> unat (sizeGuess pcq_sample) = 1"
proof -
  have "unat (qsize pcq_sample) \<le> 2 ^ 31" by (simp add: pcq_sample_def)
  from sizeGuess_exact [OF pcq_sample_facts(1) this] show ?thesis by (simp add: pcq_sample_facts)
qed

text \<open>The destructor's loop ends after at most \<open>size\<close> rounds and destroys exactly the queued
  elements, each once and in order.\<close>

lemma pcq_destroy_exact:
  assumes "pcq_inv q"
  shows "pcq_destroy (Suc (length (pcq_list q))) q = Some (Inr (pcq_list q)) \<and>
         Suc (length (pcq_list q)) \<le> unat (qsize q)"
proof -
  have "unat (readIndex q) < unat (qsize q)" using assms by (simp add: pcq_inv_def)
  from destroy_loop_slots [OF assms this] have
    "pcq_destroy (Suc (length (pcq_list q))) q = Some (Inr (pcq_list q))"
    by (simp add: pcq_destroy_def pcq_list_def pcq_slots_def)
  moreover have "Suc (length (pcq_list q)) \<le> unat (qsize q)"
    using length_pcq_list_cap [OF assms] assms by (auto simp: pcq_cap_def pcq_inv_def)
  ultimately show ?thesis ..
qed

lemma pcq_destroy_exact_witness:
  "pcq_inv pcq_sample \<and> pcq_destroy 2 pcq_sample = Some (Inr [7])"
  using pcq_destroy_exact [OF pcq_sample_facts(1)]
  by (simp add: pcq_sample_facts numeral_2_eq_2)

end
