(* ===== verification/PCQ_Concurrent.thy ===== *)
theory PCQ_Concurrent
  imports PC_Queue "HOL-Library.Sublist"
begin

text \<open>
  One producer thread inside \<open>write\<close> and one consumer thread inside \<open>read\<close> of
  \<open>include/ProducerConsumerQueue.h\<close>, interleaved at every access to the shared state: each load
  or store of an index, the construction of a record, its move and its destruction is a step of
  its own.  The indices are acquire/release atomics and every other shared location is written by
  one side only while the other cannot reach it (which is what \<open>spsc_race_free\<close> shows), so
  interleavings of these steps are all the executions.  \<open>sent\<close> and \<open>received\<close> are history
  variables: the values published by \<open>write\<close> and returned by \<open>read\<close>.
\<close>

section \<open>The interleaved system\<close>

datatype 'a producer_pc =
    PIdle
  | PLoaded 'a u32         \<comment> \<open>\<open>currentWrite\<close> loaded\<close>
  | PRoom 'a u32 u32       \<comment> \<open>\<open>nextRecord\<close> differs from the read index\<close>
  | PBuilt 'a u32 u32      \<comment> \<open>record constructed, write index not yet stored\<close>

datatype 'a consumer_pc =
    CIdle
  | CLoaded u32            \<comment> \<open>\<open>currentRead\<close> loaded\<close>
  | CReady u32             \<comment> \<open>write index differs\<close>
  | CMoved u32 'a          \<comment> \<open>record moved out\<close>
  | CDestroyed u32 'a      \<comment> \<open>record destroyed, read index not yet stored\<close>

record 'a spsc =
  ring :: "'a pcq"
  prodpc :: "'a producer_pc"
  conspc :: "'a consumer_pc"
  sent :: "'a list"
  received :: "'a list"

definition spsc_init :: "'a pcq \<Rightarrow> 'a spsc" where
  "spsc_init q = \<lparr>ring = q, prodpc = PIdle, conspc = CIdle, sent = pcq_list q, received = []\<rparr>"

inductive spsc_step :: "'a spsc \<Rightarrow> 'a spsc \<Rightarrow> bool" where
  p_load: "prodpc s = PIdle \<Longrightarrow> spsc_step s (s\<lparr>prodpc := PLoaded x (writeIndex (ring s))\<rparr>)"
| p_full: "prodpc s = PLoaded x cw \<Longrightarrow> next_index (ring s) cw = readIndex (ring s) \<Longrightarrow>
     spsc_step s (s\<lparr>prodpc := PIdle\<rparr>)"
| p_room: "prodpc s = PLoaded x cw \<Longrightarrow> next_index (ring s) cw \<noteq> readIndex (ring s) \<Longrightarrow>
     spsc_step s (s\<lparr>prodpc := PRoom x cw (next_index (ring s) cw)\<rparr>)"
| p_build: "prodpc s = PRoom x cw nx \<Longrightarrow>
     spsc_step s (s\<lparr>ring := (ring s)\<lparr>records := (records (ring s))[unat cw := Some x]\<rparr>,
                    prodpc := PBuilt x cw nx\<rparr>)"
| p_publish: "prodpc s = PBuilt x cw nx \<Longrightarrow>
     spsc_step s (s\<lparr>ring := (ring s)\<lparr>writeIndex := nx\<rparr>, prodpc := PIdle, sent := sent s @ [x]\<rparr>)"
| c_load: "conspc s = CIdle \<Longrightarrow> spsc_step s (s\<lparr>conspc := CLoaded (readIndex (ring s))\<rparr>)"
| c_empty: "conspc s = CLoaded cr \<Longrightarrow> cr = writeIndex (ring s) \<Longrightarrow>
     spsc_step s (s\<lparr>conspc := CIdle\<rparr>)"
| c_ready: "conspc s = CLoaded cr \<Longrightarrow> cr \<noteq> writeIndex (ring s) \<Longrightarrow>
     spsc_step s (s\<lparr>conspc := CReady cr\<rparr>)"
| c_move: "conspc s = CReady cr \<Longrightarrow> slot (ring s) (unat cr) = Inr v \<Longrightarrow>
     spsc_step s (s\<lparr>conspc := CMoved cr v\<rparr>)"
| c_destroy: "conspc s = CMoved cr v \<Longrightarrow>
     spsc_step s (s\<lparr>ring := (ring s)\<lparr>records := (records (ring s))[unat cr := None]\<rparr>,
                    conspc := CDestroyed cr v\<rparr>)"
| c_publish: "conspc s = CDestroyed cr v \<Longrightarrow>
     spsc_step s (s\<lparr>ring := (ring s)\<lparr>readIndex := next_index (ring s) cr\<rparr>, conspc := CIdle,
                    received := received s @ [v]\<rparr>)"

inductive spsc_reachable :: "'a pcq \<Rightarrow> 'a spsc \<Rightarrow> bool" for q0 :: "'a pcq" where
  start: "spsc_reachable q0 (spsc_init q0)"
| step: "spsc_reachable q0 s \<Longrightarrow> spsc_step s t \<Longrightarrow> spsc_reachable q0 t"

section \<open>The invariant\<close>

text \<open>The value a live slot holds or, once the consumer destroyed it, held.\<close>

definition held :: "'a spsc \<Rightarrow> nat \<Rightarrow> 'a option" where
  "held s k = (case conspc s of CDestroyed cr v \<Rightarrow> if k = unat cr then Some v else records (ring s) ! k
                            | _ \<Rightarrow> records (ring s) ! k)"

definition in_flight :: "'a spsc \<Rightarrow> 'a list" where
  "in_flight s = map (\<lambda>k. the (held s k)) (pcq_slots (ring s))"

definition shape_inv :: "'a spsc \<Rightarrow> bool" where
  "shape_inv s \<longleftrightarrow> 2 \<le> unat (qsize (ring s)) \<and>
     length (records (ring s)) = unat (qsize (ring s)) \<and>
     unat (readIndex (ring s)) < unat (qsize (ring s)) \<and>
     unat (writeIndex (ring s)) < unat (qsize (ring s)) \<and>
     (\<forall>k \<in> set (pcq_slots (ring s)). held s k \<noteq> None)"

definition prod_inv :: "'a spsc \<Rightarrow> bool" where
  "prod_inv s = (case prodpc s of
       PIdle \<Rightarrow> True
     | PLoaded x cw \<Rightarrow> cw = writeIndex (ring s)
     | PRoom x cw nx \<Rightarrow> cw = writeIndex (ring s) \<and> nx = next_index (ring s) cw \<and>
         nx \<noteq> readIndex (ring s)
     | PBuilt x cw nx \<Rightarrow> cw = writeIndex (ring s) \<and> nx = next_index (ring s) cw \<and>
         nx \<noteq> readIndex (ring s) \<and> records (ring s) ! unat cw = Some x)"

definition cons_inv :: "'a spsc \<Rightarrow> bool" where
  "cons_inv s = (case conspc s of
       CIdle \<Rightarrow> True
     | CLoaded cr \<Rightarrow> cr = readIndex (ring s)
     | CReady cr \<Rightarrow> cr = readIndex (ring s) \<and> cr \<noteq> writeIndex (ring s)
     | CMoved cr v \<Rightarrow> cr = readIndex (ring s) \<and> cr \<noteq> writeIndex (ring s) \<and>
         records (ring s) ! unat cr = Some v
     | CDestroyed cr v \<Rightarrow> cr = readIndex (ring s) \<and> cr \<noteq> writeIndex (ring s))"

definition spsc_inv :: "'a spsc \<Rightarrow> bool" where
  "spsc_inv s \<longleftrightarrow> shape_inv s \<and> prod_inv s \<and> cons_inv s \<and> sent s = received s @ in_flight s"

lemmas spsc_inv_defs = spsc_inv_def shape_inv_def prod_inv_def cons_inv_def

lemma pcq_slots_records [simp]: "pcq_slots (q\<lparr>records := rs\<rparr>) = pcq_slots q"
  by (simp add: pcq_slots_def)

lemma next_index_frame [simp]:
  "next_index (q\<lparr>records := rs\<rparr>) i = next_index q i"
  "next_index (q\<lparr>readIndex := r\<rparr>) i = next_index q i"
  "next_index (q\<lparr>writeIndex := w\<rparr>) i = next_index q i"
  by (simp_all add: next_index_def)

lemma spsc_init_inv:
  assumes "pcq_inv q"
  shows "spsc_inv (spsc_init q)"
proof -
  have "held (spsc_init q) k = records q ! k" for k by (simp add: held_def spsc_init_def)
  moreover have "k \<in> set (pcq_slots q) \<Longrightarrow> k < unat (qsize q)" for k
    using assms by (auto simp: pcq_inv_def pcq_slots_def dest: live_slots_bound)
  ultimately show ?thesis
    using assms by (simp add: spsc_inv_defs spsc_init_def in_flight_def pcq_list_def pcq_inv_def)
qed

lemma shape_bounds:
  assumes "shape_inv s"
  shows "unat (writeIndex (ring s)) \<notin> set (pcq_slots (ring s))"
    and "k \<in> set (pcq_slots (ring s)) \<Longrightarrow> k < unat (qsize (ring s))"
  using assms by (auto simp: shape_inv_def pcq_slots_def write_slot_not_live dest: live_slots_bound)

lemma read_slot_live:
  assumes "shape_inv s" and "readIndex (ring s) \<noteq> writeIndex (ring s)"
  shows "unat (readIndex (ring s)) \<in> set (pcq_slots (ring s))"
  using assms by (auto simp: shape_inv_def pcq_slots_def live_slots_Cons word_unat_eq_iff)

lemma build_keeps:
  assumes inv: "spsc_inv s" and pc: "prodpc s = PRoom x cw nx"
  shows "spsc_inv (s\<lparr>ring := (ring s)\<lparr>records := (records (ring s))[unat cw := Some x]\<rparr>,
                    prodpc := PBuilt x cw nx\<rparr>)" (is "spsc_inv ?t")
proof -
  from inv have sh: "shape_inv s" by (simp add: spsc_inv_def)
  from inv pc have cw: "cw = writeIndex (ring s)" by (simp add: spsc_inv_def prod_inv_def)
  have "\<And>k. k \<in> set (pcq_slots (ring s)) \<Longrightarrow> unat cw \<noteq> k"
    using shape_bounds(1) [OF sh] cw by auto
  then have held: "\<And>k. k \<in> set (pcq_slots (ring s)) \<Longrightarrow> held ?t k = held s k"
    by (simp add: held_def split: consumer_pc.split)
  have "in_flight ?t = in_flight s" by (simp add: in_flight_def held)
  moreover have "shape_inv ?t" using sh held by (simp add: shape_inv_def)
  moreover have "prod_inv ?t"
    using inv pc sh by (auto simp: spsc_inv_def prod_inv_def shape_inv_def)
  moreover have "cons_inv ?t"
    using inv cw by (auto simp: spsc_inv_def cons_inv_def nth_list_update word_unat_eq_iff
        split: consumer_pc.splits)
  ultimately show ?thesis using inv by (simp add: spsc_inv_def)
qed

lemma publish_write_keeps:
  assumes inv: "spsc_inv s" and pc: "prodpc s = PBuilt x cw nx"
  shows "spsc_inv (s\<lparr>ring := (ring s)\<lparr>writeIndex := nx\<rparr>, prodpc := PIdle, sent := sent s @ [x]\<rparr>)"
    (is "spsc_inv ?t")
proof -
  let ?n = "unat (qsize (ring s))"
  from inv have sh: "shape_inv s" by (simp add: spsc_inv_def)
  from inv pc have cw: "cw = writeIndex (ring s)" "nx = next_index (ring s) cw"
    "nx \<noteq> readIndex (ring s)" "records (ring s) ! unat cw = Some x"
    by (auto simp: spsc_inv_def prod_inv_def)
  from sh have b: "unat (readIndex (ring s)) < ?n" "unat cw < ?n" by (auto simp: shape_inv_def cw)
  have slots: "pcq_slots ((ring s)\<lparr>writeIndex := nx\<rparr>) = pcq_slots (ring s) @ [unat cw]"
    using b cw by (simp add: pcq_slots_def unat_next_index next_index_eq live_slots_snoc)
  have held: "held ?t k = held s k" for k by (simp add: held_def split: consumer_pc.split)
  have "held s (unat cw) = Some x"
    using inv cw by (auto simp: held_def spsc_inv_def cons_inv_def word_unat_eq_iff
        split: consumer_pc.splits)
  then have "in_flight ?t = in_flight s @ [x]" by (simp add: in_flight_def slots held)
  moreover have "shape_inv ?t"
  proof -
    have "unat nx < unat (qsize (ring s))" using b cw(2) by (simp add: unat_next_index succ_mod_less)
    with sh \<open>held s (unat cw) = Some x\<close> show ?thesis by (simp add: shape_inv_def slots held)
  qed
  moreover have "cons_inv ?t" and "prod_inv ?t"
    using inv cw by (auto simp: spsc_inv_def cons_inv_def prod_inv_def split: consumer_pc.splits)
  ultimately show ?thesis using inv by (simp add: spsc_inv_def)
qed

lemma destroy_keeps:
  assumes inv: "spsc_inv s" and pc: "conspc s = CMoved cr v"
  shows "spsc_inv (s\<lparr>ring := (ring s)\<lparr>records := (records (ring s))[unat cr := None]\<rparr>,
                    conspc := CDestroyed cr v\<rparr>)" (is "spsc_inv ?t")
proof -
  from inv have sh: "shape_inv s" by (simp add: spsc_inv_def)
  from inv pc have cr: "cr = readIndex (ring s)" "cr \<noteq> writeIndex (ring s)"
    "records (ring s) ! unat cr = Some v" by (auto simp: spsc_inv_def cons_inv_def)
  have held: "held ?t k = held s k" for k
    using pc cr by (simp add: held_def nth_list_update)
  have "in_flight ?t = in_flight s" and "shape_inv ?t"
    using sh by (simp_all add: in_flight_def held shape_inv_def)
  moreover have "prod_inv ?t"
  proof -
    have "unat cr \<noteq> unat (writeIndex (ring s))" using cr by (simp add: word_unat_eq_iff)
    with inv show ?thesis by (auto simp: spsc_inv_def prod_inv_def split: producer_pc.splits)
  qed
  ultimately show ?thesis using inv cr by (simp add: spsc_inv_def cons_inv_def)
qed

lemma publish_read_keeps:
  assumes inv: "spsc_inv s" and pc: "conspc s = CDestroyed cr v"
  shows "spsc_inv (s\<lparr>ring := (ring s)\<lparr>readIndex := next_index (ring s) cr\<rparr>, conspc := CIdle,
                    received := received s @ [v]\<rparr>)" (is "spsc_inv ?t")
proof -
  let ?n = "unat (qsize (ring s))"
  from inv have sh: "shape_inv s" by (simp add: spsc_inv_def)
  from inv pc have cr: "cr = readIndex (ring s)" "cr \<noteq> writeIndex (ring s)"
    by (auto simp: spsc_inv_def cons_inv_def)
  from sh have b: "unat cr < ?n" "unat (writeIndex (ring s)) < ?n"
    by (auto simp: shape_inv_def cr)
  have slots: "pcq_slots (ring s) = unat cr # pcq_slots (ring ?t)"
    using b cr by (simp add: pcq_slots_def unat_next_index live_slots_Cons word_unat_eq_iff)
  then have "unat cr \<notin> set (pcq_slots (ring ?t))"
    by (metis distinct.simps(2) live_slots_distinct pcq_slots_def)
  then have held: "\<And>k. k \<in> set (pcq_slots (ring ?t)) \<Longrightarrow> held ?t k = held s k"
    using pc by (auto simp: held_def)
  have "in_flight s = v # in_flight ?t"
    unfolding in_flight_def slots using pc by (auto simp: held) (simp add: held_def)
  moreover have "shape_inv ?t"
    using sh held slots b by (auto simp: shape_inv_def unat_next_index succ_mod_less)
  moreover have "prod_inv ?t"
  proof -
    have "next_index (ring s) (writeIndex (ring s)) \<noteq> next_index (ring s) cr"
      using b cr by (auto simp: word_unat_eq_iff unat_next_index succ_mod_def split: if_splits)
    then show ?thesis
      using inv by (auto simp: spsc_inv_def prod_inv_def split: producer_pc.splits)
  qed
  ultimately show ?thesis using inv by (simp add: spsc_inv_def cons_inv_def)
qed

lemma local_step_keeps:
  assumes "spsc_inv s" and "ring t = ring s" and "sent t = sent s" and "received t = received s"
    and "held t = held s" and "prod_inv t" and "cons_inv t"
  shows "spsc_inv t"
  using assms by (simp add: spsc_inv_def shape_inv_def in_flight_def)

lemma spsc_step_inv: "spsc_step s t \<Longrightarrow> spsc_inv s \<Longrightarrow> spsc_inv t"
proof (induction rule: spsc_step.induct)
  case (p_build s x cw nx) then show ?case by (simp add: build_keeps)
next
  case (p_publish s x cw nx) then show ?case by (simp add: publish_write_keeps)
next
  case (c_destroy s cr v) then show ?case by (simp add: destroy_keeps)
next
  case (c_publish s cr v) then show ?case by (simp add: publish_read_keeps)
next
  case (c_move s cr v)
  from c_move(2) have "records (ring s) ! unat cr = Some v"
    by (auto simp: slot_def split: if_splits option.splits)
  with c_move(1) show ?case
    by (intro local_step_keeps [OF c_move(3)])
      (use c_move(3) in \<open>auto simp: held_def fun_eq_iff spsc_inv_def prod_inv_def cons_inv_def
        split: producer_pc.splits\<close>)
qed (rule local_step_keeps, assumption;
     auto simp: held_def fun_eq_iff spsc_inv_def prod_inv_def cons_inv_def
          split: producer_pc.splits consumer_pc.splits)+

lemma spsc_reachable_inv: "spsc_reachable q0 s \<Longrightarrow> pcq_inv q0 \<Longrightarrow> spsc_inv s"
  by (induction rule: spsc_reachable.induct) (auto intro: spsc_init_inv spsc_step_inv)


section \<open>A run used by the witnesses\<close>

text \<open>From a queue of three slots that holds 7, the producer has found room for 8 and the consumer
  has found the queue non-empty.\<close>

definition spsc_sample :: "nat spsc" where
  "spsc_sample = (spsc_init pcq_sample)\<lparr>prodpc := PRoom 8 0 1, conspc := CReady 2\<rparr>"

lemma spsc_sample_reachable: "spsc_reachable pcq_sample spsc_sample"
proof -
  let ?s0 = "spsc_init pcq_sample"
  let ?s1 = "?s0\<lparr>prodpc := PLoaded 8 0\<rparr>" and ?s2 = "?s0\<lparr>prodpc := PRoom 8 0 1\<rparr>"
  let ?s3 = "?s2\<lparr>conspc := CLoaded 2\<rparr>"
  note defs = spsc_init_def pcq_sample_def next_index_def
  have "spsc_step ?s0 ?s1" using p_load [of ?s0 8] by (simp add: defs)
  moreover have "spsc_step ?s1 ?s2" using p_room [of ?s1 8 0] by (simp add: defs)
  moreover have "spsc_step ?s2 ?s3" using c_load [of ?s2] by (simp add: defs)
  moreover have "spsc_step ?s3 spsc_sample"
    using c_ready [of ?s3 2] by (simp add: defs spsc_sample_def)
  ultimately show ?thesis by (meson spsc_reachable.intros)
qed

section \<open>Properties\<close>

text \<open>C2 In every interleaving of one producer and one consumer the values returned by \<open>read\<close> are,
  in order and without loss or duplication, a prefix of the values published by \<open>write\<close>; the
  rest is what the ring still holds, at most \<open>size - 1\<close> values.\<close>

theorem spsc_fifo:
  assumes "spsc_reachable q0 s" and "pcq_inv q0"
  shows "sent s = received s @ in_flight s \<and> prefix (received s) (sent s) \<and>
         length (in_flight s) \<le> unat (qsize (ring s)) - 1"
proof -
  from assms have inv: "spsc_inv s" by (rule spsc_reachable_inv)
  then have "length (in_flight s) \<le> unat (qsize (ring s)) - 1"
    by (auto simp: spsc_inv_def shape_inv_def in_flight_def pcq_slots_def length_live_slots)
  with inv show ?thesis by (simp add: spsc_inv_def prefix_def)
qed

theorem spsc_fifo_witness:
  "spsc_reachable pcq_sample spsc_sample \<and> sent spsc_sample = [] @ in_flight spsc_sample"
  using spsc_fifo [OF spsc_sample_reachable pcq_sample_facts(1)] spsc_sample_reachable
  by (simp add: spsc_sample_def spsc_init_def)

text \<open>C17 The producer and the consumer never touch the same slot at the same time: when the producer
  is about to construct a record and the consumer is moving or destroying one, the slots differ; the
  producer never constructs over a slot that still holds a queued value, and the slot the consumer
  moves from always holds one.\<close>

theorem spsc_race_free:
  assumes "spsc_reachable q0 s" and "pcq_inv q0"
    and "prodpc s = PRoom x cw nx"
    and "conspc s = CReady cr \<or> conspc s = CMoved cr v"
  shows "unat cw \<noteq> unat cr \<and> unat cw \<notin> set (pcq_slots (ring s)) \<and>
         (\<exists>y. slot (ring s) (unat cr) = Inr y)"
proof -
  from assms have inv: "spsc_inv s" by (blast intro: spsc_reachable_inv)
  then have sh: "shape_inv s" by (simp add: spsc_inv_def)
  from inv assms(3,4) have eq: "cw = writeIndex (ring s)" "cr = readIndex (ring s)" "cr \<noteq> cw"
    by (auto simp: spsc_inv_def prod_inv_def cons_inv_def)
  from sh eq have live: "unat cr \<in> set (pcq_slots (ring s))" using read_slot_live by auto
  with sh have "unat cr < length (records (ring s))" "held s (unat cr) \<noteq> None"
    using shape_bounds by (auto simp: shape_inv_def)
  with assms(4) have "\<exists>y. slot (ring s) (unat cr) = Inr y"
    by (auto simp: slot_def held_def split: option.splits)
  with eq live shape_bounds(1) [OF sh] show ?thesis by auto
qed

theorem spsc_race_free_witness:
  "spsc_reachable pcq_sample spsc_sample \<and> unat (0 :: u32) \<noteq> unat (2 :: u32) \<and>
   unat (0 :: u32) \<notin> set (pcq_slots (ring spsc_sample)) \<and>
   (\<exists>y. slot (ring spsc_sample) (unat (2 :: u32)) = Inr y)"
proof -
  have "prodpc spsc_sample = PRoom 8 0 1" "conspc spsc_sample = CReady 2"
    by (simp_all add: spsc_sample_def)
  then show ?thesis
    using spsc_race_free [OF spsc_sample_reachable pcq_sample_facts(1), of 8 0 1 2 undefined]
      spsc_sample_reachable by auto
qed

text \<open>Neither side can get stuck inside the queue: in every reachable state both the producer and
  the consumer have an enabled step, so \<open>write\<close> and \<open>read\<close> return without waiting for the
  other thread.\<close>

lemma spsc_never_stuck:
  assumes "spsc_reachable q0 s" and "pcq_inv q0"
  shows "(\<exists>t. spsc_step s t \<and> prodpc t \<noteq> prodpc s) \<and> (\<exists>t. spsc_step s t \<and> conspc t \<noteq> conspc s)"
proof
  show "\<exists>t. spsc_step s t \<and> prodpc t \<noteq> prodpc s"
  proof (cases "prodpc s")
    case PIdle
    from p_load [OF this, of undefined] PIdle show ?thesis by fastforce
  next
    case (PLoaded x cw)
    show ?thesis
    proof (cases "next_index (ring s) cw = readIndex (ring s)")
      case True
      from p_full [OF PLoaded True] PLoaded show ?thesis by fastforce
    next
      case False
      from p_room [OF PLoaded False] PLoaded show ?thesis by fastforce
    qed
  next
    case (PRoom x cw nx)
    from p_build [OF this] PRoom show ?thesis by fastforce
  next
    case (PBuilt x cw nx)
    from p_publish [OF this] PBuilt show ?thesis by fastforce
  qed
next
  from assms have inv: "spsc_inv s" by (rule spsc_reachable_inv)
  show "\<exists>t. spsc_step s t \<and> conspc t \<noteq> conspc s"
  proof (cases "conspc s")
    case CIdle
    from c_load [OF this] CIdle show ?thesis by fastforce
  next
    case (CLoaded cr)
    show ?thesis
    proof (cases "cr = writeIndex (ring s)")
      case True
      from c_empty [OF CLoaded True] CLoaded show ?thesis by fastforce
    next
      case False
      from c_ready [OF CLoaded False] CLoaded show ?thesis by fastforce
    qed
  next
    case (CReady cr)
    with inv have "unat cr \<in> set (pcq_slots (ring s))"
      by (auto simp: spsc_inv_def cons_inv_def intro: read_slot_live)
    with inv have "held s (unat cr) \<noteq> None" "unat cr < length (records (ring s))"
      using shape_bounds by (auto simp: spsc_inv_def shape_inv_def)
    with CReady obtain v where "slot (ring s) (unat cr) = Inr v"
      by (auto simp: slot_def held_def)
    from c_move [OF CReady this] CReady show ?thesis by fastforce
  next
    case (CMoved cr v)
    from c_destroy [OF this] CMoved show ?thesis by fastforce
  next
    case (CDestroyed cr v)
    from c_publish [OF this] CDestroyed show ?thesis by fastforce
  qed
qed

lemma spsc_never_stuck_witness:
  "spsc_reachable pcq_sample spsc_sample \<and>
   (\<exists>t. spsc_step spsc_sample t \<and> conspc t \<noteq> conspc spsc_sample)"
  using spsc_never_stuck [OF spsc_sample_reachable pcq_sample_facts(1)] spsc_sample_reachable
  by blast

end
