(* ===== verification/Net_Protos.thy ===== *)
theory Net_Protos
  imports Prelude
begin

text \<open>
  \<open>include/net-protos.h\<close>: the Ethernet, IP, UDP and TCP headers and the functions that find the
  layer 3 protocol of a frame.  A header pointer is an address in the byte memory; the structs are
  records, read from memory with the layout the compiler gives them on a little-endian machine
  (bit fields from the least significant bit), and \<open>enc\<close> functions write the same layout.
\<close>

unbundle bit_operations_syntax

section \<open>Constants\<close>

datatype Eth_HdrType =
    ETH_HEADER_TYPE_DIX | ETH_HEADER_TYPE_802_1PQ | ETH_HEADER_TYPE_802_3
  | ETH_HEADER_TYPE_802_1PQ_802_3

definition ETH_TYPE_802_1PQ :: u16 where "ETH_TYPE_802_1PQ = 0x8100"

definition ETH_TYPE_IPV4_NBO :: u16 where "ETH_TYPE_IPV4_NBO = 0x0008"
definition ETH_TYPE_IPV6_NBO :: u16 where "ETH_TYPE_IPV6_NBO = 0xDD86"
definition ETH_TYPE_ARP_NBO :: u16 where "ETH_TYPE_ARP_NBO = 0x0608"

definition ETH_ADDR_LENGTH :: nat where "ETH_ADDR_LENGTH = 6"
definition sizeof_Eth_DIX :: nat where "sizeof_Eth_DIX = 2"
definition sizeof_Eth_LLC :: nat where "sizeof_Eth_LLC = 1 + 1 + 1 + 3 + sizeof_Eth_DIX"
definition sizeof_Eth_802_3 :: nat where "sizeof_Eth_802_3 = 2 + sizeof_Eth_LLC"
definition sizeof_Eth_802_1pq_Tag :: nat where "sizeof_Eth_802_1pq_Tag = 2 + 2"
definition sizeof_Eth_802_1pq :: nat where
  "sizeof_Eth_802_1pq = sizeof_Eth_802_1pq_Tag + max sizeof_Eth_DIX sizeof_Eth_802_3"
definition sizeof_Eth_Header :: nat where
  "sizeof_Eth_Header = ETH_ADDR_LENGTH + ETH_ADDR_LENGTH +
     max sizeof_Eth_DIX (max sizeof_Eth_802_3 sizeof_Eth_802_1pq)"

definition ETH_HEADER_LEN_DIX :: nat where
  "ETH_HEADER_LEN_DIX = ETH_ADDR_LENGTH + ETH_ADDR_LENGTH + sizeof_Eth_DIX"
definition ETH_HEADER_LEN_802_1PQ :: nat where
  "ETH_HEADER_LEN_802_1PQ = ETH_ADDR_LENGTH + ETH_ADDR_LENGTH + sizeof_Eth_802_1pq_Tag + sizeof_Eth_DIX"
definition ETH_HEADER_LEN_802_3 :: nat where
  "ETH_HEADER_LEN_802_3 = ETH_ADDR_LENGTH + ETH_ADDR_LENGTH + sizeof_Eth_802_3"
definition ETH_HEADER_LEN_802_1PQ_802_3 :: nat where
  "ETH_HEADER_LEN_802_1PQ_802_3 =
     ETH_ADDR_LENGTH + ETH_ADDR_LENGTH + sizeof_Eth_802_1pq_Tag + sizeof_Eth_802_3"

lemmas eth_sizes [layout_simps] =
  ETH_ADDR_LENGTH_def sizeof_Eth_DIX_def sizeof_Eth_LLC_def sizeof_Eth_802_3_def
  sizeof_Eth_802_1pq_Tag_def sizeof_Eth_802_1pq_def sizeof_Eth_Header_def ETH_HEADER_LEN_DIX_def
  ETH_HEADER_LEN_802_1PQ_def ETH_HEADER_LEN_802_3_def ETH_HEADER_LEN_802_1PQ_802_3_def

section \<open>Ethernet\<close>

text \<open>The places of the type fields: \<open>dix\<close>, \<open>e802_1pq.dix\<close>, \<open>e802_3.llc.snapType\<close> and
  \<open>e802_1pq.e802_3.llc.snapType\<close>.\<close>

definition dix_off :: nat where "dix_off = 2 * ETH_ADDR_LENGTH"
definition vlan_dix_off :: nat where "vlan_dix_off = dix_off + sizeof_Eth_802_1pq_Tag"
definition snap_off :: nat where "snap_off = dix_off + 2 + 6"
definition vlan_snap_off :: nat where "vlan_snap_off = vlan_dix_off + 2 + 6"

lemmas eth_offsets [layout_simps] = dix_off_def vlan_dix_off_def snap_off_def vlan_snap_off_def

definition EthHeaderType :: "bytes \<Rightarrow> addr \<Rightarrow> Eth_HdrType cres" where
  "EthHeaderType m eh = bindR (ld16 m (eh + dix_off)) (\<lambda>t.
     if ntohs t > 1500
     then if ntohs t \<noteq> ETH_TYPE_802_1PQ then Inr ETH_HEADER_TYPE_DIX
          else bindR (ld16 m (eh + vlan_dix_off)) (\<lambda>t2.
                 if ntohs t2 > 1500 then Inr ETH_HEADER_TYPE_802_1PQ
                 else Inr ETH_HEADER_TYPE_802_1PQ_802_3)
     else Inr ETH_HEADER_TYPE_802_3)"

definition EthEncapsulatedPktType :: "bytes \<Rightarrow> addr \<Rightarrow> (u16 \<times> u32) cres" where
  "EthEncapsulatedPktType m eh = bindR (EthHeaderType m eh) (\<lambda>type. case type of
       ETH_HEADER_TYPE_DIX \<Rightarrow>
         bindR (ld16 m (eh + dix_off)) (\<lambda>t. Inr (t, of_nat ETH_HEADER_LEN_DIX))
     | ETH_HEADER_TYPE_802_1PQ \<Rightarrow>
         bindR (ld16 m (eh + vlan_dix_off)) (\<lambda>t. Inr (t, of_nat ETH_HEADER_LEN_802_1PQ))
     | ETH_HEADER_TYPE_802_3 \<Rightarrow>
         bindR (ld16 m (eh + snap_off)) (\<lambda>t. Inr (t, of_nat ETH_HEADER_LEN_802_3))
     | ETH_HEADER_TYPE_802_1PQ_802_3 \<Rightarrow>
         bindR (ld16 m (eh + vlan_snap_off)) (\<lambda>t. Inr (t, of_nat ETH_HEADER_LEN_802_1PQ_802_3)))"

record Eth_802_1pq_Tag =
  tag_typeNBO :: u16
  vidHi :: "4 word"
  canonical :: bool
  priority :: "3 word"
  vidLo :: u8

definition load_tag :: "bytes \<Rightarrow> addr \<Rightarrow> Eth_802_1pq_Tag cres" where
  "load_tag m a = bindR (ld16 m a) (\<lambda>t. bindR (ld16 m (a + 2)) (\<lambda>w.
     Inr \<lparr>tag_typeNBO = t, vidHi = ucast w, canonical = bit w 4,
          priority = ucast (drop_bit 5 w), vidLo = ucast (drop_bit 8 w)\<rparr>))"

definition EthVlanTagGetVlanID :: "Eth_802_1pq_Tag \<Rightarrow> u16" where
  "EthVlanTagGetVlanID tag = push_bit 8 (ucast (vidHi tag)) OR ucast (vidLo tag)"

section \<open>Internet headers\<close>

record IPHdr =
  ihl :: "4 word"
  ip_version :: "4 word"
  tos :: u8
  tot_len :: u16
  ip_id :: u16
  frag_off :: u16
  ttl :: u8
  protocol :: u8
  ip_check :: u16
  saddr :: u32
  daddr :: u32

definition sizeof_IPHdr :: nat where "sizeof_IPHdr = 20"

definition load_IPHdr :: "bytes \<Rightarrow> addr \<Rightarrow> IPHdr cres" where
  "load_IPHdr m a =
     bindR (rd8 m a) (\<lambda>b0. bindR (rd8 m (a + 1)) (\<lambda>b1. bindR (ld16 m (a + 2)) (\<lambda>w2.
     bindR (ld16 m (a + 4)) (\<lambda>w4. bindR (ld16 m (a + 6)) (\<lambda>w6. bindR (rd8 m (a + 8)) (\<lambda>b8.
     bindR (rd8 m (a + 9)) (\<lambda>b9. bindR (ld16 m (a + 10)) (\<lambda>w10. bindR (ld32 m (a + 12)) (\<lambda>d12.
     bindR (ld32 m (a + 16)) (\<lambda>d16.
     Inr \<lparr>ihl = ucast b0, ip_version = ucast (drop_bit 4 b0), tos = b1, tot_len = w2, ip_id = w4,
          frag_off = w6, ttl = b8, protocol = b9, ip_check = w10, saddr = d12, daddr = d16\<rparr>))))))))))"

record IPv6Hdr =
  trafficClass_0 :: "4 word"
  v6_version :: "4 word"
  flowLabel_0 :: "4 word"
  trafficClass_1 :: "4 word"
  flowLabel_1 :: u16
  payloadLen :: u16
  nextHeader :: u8
  hopLimit :: u8
  v6_saddr :: bytes
  v6_daddr :: bytes

definition sizeof_IPv6Hdr :: nat where "sizeof_IPv6Hdr = 40"

definition load_IPv6Hdr :: "bytes \<Rightarrow> addr \<Rightarrow> IPv6Hdr cres" where
  "load_IPv6Hdr m a =
     bindR (rd8 m a) (\<lambda>b0. bindR (rd8 m (a + 1)) (\<lambda>b1. bindR (ld16 m (a + 2)) (\<lambda>w2.
     bindR (ld16 m (a + 4)) (\<lambda>w4. bindR (rd8 m (a + 6)) (\<lambda>b6. bindR (rd8 m (a + 7)) (\<lambda>b7.
     bindR (rdn m (a + 8) 16) (\<lambda>s. bindR (rdn m (a + 24) 16) (\<lambda>d.
     Inr \<lparr>trafficClass_0 = ucast b0, v6_version = ucast (drop_bit 4 b0), flowLabel_0 = ucast b1,
          trafficClass_1 = ucast (drop_bit 4 b1), flowLabel_1 = w2, payloadLen = w4,
          nextHeader = b6, hopLimit = b7, v6_saddr = s, v6_daddr = d\<rparr>))))))))"

record UDPHdr =
  udp_source :: u16
  udp_dest :: u16
  udp_len :: u16
  udp_check :: u16

definition sizeof_UDPHdr :: nat where "sizeof_UDPHdr = 8"

definition load_UDPHdr :: "bytes \<Rightarrow> addr \<Rightarrow> UDPHdr cres" where
  "load_UDPHdr m a = bindR (ld16 m a) (\<lambda>s. bindR (ld16 m (a + 2)) (\<lambda>d.
     bindR (ld16 m (a + 4)) (\<lambda>l. bindR (ld16 m (a + 6)) (\<lambda>c.
     Inr \<lparr>udp_source = s, udp_dest = d, udp_len = l, udp_check = c\<rparr>))))"

text \<open>The eight one-bit fields \<open>fin\<close> to \<open>cwr\<close> are the bits 0 to 7 of \<open>tcp_flags\<close>.\<close>

record TCPHdr =
  tcp_source :: u16
  tcp_dest :: u16
  seq :: u32
  ack_seq :: u32
  res1 :: "4 word"
  doff :: "4 word"
  tcp_flags :: u8
  window :: u16
  tcp_check :: u16
  urg_ptr :: u16

definition sizeof_TCPHdr :: nat where "sizeof_TCPHdr = 20"

definition load_TCPHdr :: "bytes \<Rightarrow> addr \<Rightarrow> TCPHdr cres" where
  "load_TCPHdr m a = bindR (ld16 m a) (\<lambda>s. bindR (ld16 m (a + 2)) (\<lambda>d.
     bindR (ld32 m (a + 4)) (\<lambda>q. bindR (ld32 m (a + 8)) (\<lambda>k. bindR (rd8 m (a + 12)) (\<lambda>b12.
     bindR (rd8 m (a + 13)) (\<lambda>b13. bindR (ld16 m (a + 14)) (\<lambda>w. bindR (ld16 m (a + 16)) (\<lambda>c.
     bindR (ld16 m (a + 18)) (\<lambda>u.
     Inr \<lparr>tcp_source = s, tcp_dest = d, seq = q, ack_seq = k, res1 = ucast b12,
          doff = ucast (drop_bit 4 b12), tcp_flags = b13, window = w, tcp_check = c,
          urg_ptr = u\<rparr>)))))))))"

section \<open>Reading what was laid out\<close>

lemma rd8_app [simp]: "rd8 (xs @ b # ys) (length xs) = Inr b"
  by (simp add: rd8_def)

lemma ld16_app [simp]: "ld16 (xs @ l # h # ys) (length xs) = Inr (mk16 h l)"
  by (simp add: ld16_def nth_append)

lemma ld32_app [simp]:
  "ld32 (xs @ b0 # b1 # b2 # b3 # ys) (length xs) = Inr (mk32 (mk16 b3 b2) (mk16 b1 b0))"
  by (simp add: ld32_def nth_append)

lemma rd8_at: "a = length xs \<Longrightarrow> rd8 (xs @ b # ys) a = Inr b"
  by simp

lemma ld16_at: "a = length xs \<Longrightarrow> ld16 (xs @ l # h # ys) a = Inr (mk16 h l)"
  by simp

lemma ld32_at:
  "a = length xs \<Longrightarrow> ld32 (xs @ b0 # b1 # b2 # b3 # ys) a = Inr (mk32 (mk16 b3 b2) (mk16 b1 b0))"
  by simp

lemma rdn_at: "a = length xs \<Longrightarrow> n = length bs \<Longrightarrow> rdn (xs @ bs @ ys) a n = Inr bs"
  by (simp add: rdn_def)

text \<open>Little-endian bytes of a word and big-endian bytes of a 16-bit word.\<close>

definition le16 :: "u16 \<Rightarrow> bytes" where "le16 w = [lo8 w, hi8 w]"
definition le32 :: "u32 \<Rightarrow> bytes" where
  "le32 w = [lo8 (lo16 w), hi8 (lo16 w), lo8 (hi16 w), hi8 (hi16 w)]"
definition be16 :: "u16 \<Rightarrow> bytes" where "be16 w = [hi8 w, lo8 w]"
definition join4 :: "4 word \<Rightarrow> 4 word \<Rightarrow> u8" where "join4 h l = word_cat h l"

lemma join4_parts [simp]: "ucast (join4 h l) = l" "ucast (drop_bit 4 (join4 h l)) = h"
  unfolding join4_def by (rule bit_word_eqI, simp add: bit_simps)+

lemmas le_defs = le16_def le32_def be16_def

section \<open>Framings\<close>

datatype framing =
    Dix
  | Tagged u16
  | Dot3 u16 bytes
  | TaggedDot3 u16 u16 bytes

fun enc_header :: "framing \<Rightarrow> bytes \<Rightarrow> u16 \<Rightarrow> bytes" where
  "enc_header Dix macs type = macs @ be16 type"
| "enc_header (Tagged tci) macs type = macs @ be16 0x8100 @ be16 tci @ be16 type"
| "enc_header (Dot3 len llc) macs type = macs @ be16 len @ llc @ be16 type"
| "enc_header (TaggedDot3 tci len llc) macs type =
     macs @ be16 0x8100 @ be16 tci @ be16 len @ llc @ be16 type"

fun framing_ok :: "framing \<Rightarrow> u16 \<Rightarrow> bool" where
  "framing_ok Dix type \<longleftrightarrow> type > 1500 \<and> type \<noteq> 0x8100"
| "framing_ok (Tagged tci) type \<longleftrightarrow> type > 1500"
| "framing_ok (Dot3 len llc) type \<longleftrightarrow> len \<le> 1500 \<and> length llc = 6"
| "framing_ok (TaggedDot3 tci len llc) type \<longleftrightarrow> len \<le> 1500 \<and> length llc = 6"

lemma mk16_be [simp]: "mk16 (lo8 w) (hi8 w) = ntohs w"
  by (simp add: ntohs_def)

lemma ntohs_8100: "ntohs (mk16 0 0x81) = 0x8100" "hi8 0x8100 = 0x81" "lo8 0x8100 = 0"
proof -
  show "hi8 0x8100 = 0x81" "lo8 0x8100 = 0" by (simp_all add: hi8_def lo8_def)
  then have "mk16 0x81 0 = 0x8100" using mk16_hi8_lo8 [of "0x8100"] by simp
  then show "ntohs (mk16 0 0x81) = 0x8100" by simp
qed

lemma htons_ntohs_eq: "htons w = ntohs w"
  by (simp add: htons_def)

lemma EthEncapsulated_dix:
  assumes "length macs = 12" and "type > 1500" and "type \<noteq> 0x8100"
  shows "EthEncapsulatedPktType (pre @ macs @ be16 type @ rest) (length pre) = Inr (htons type, 14)"
proof -
  have t: "ld16 (pre @ macs @ be16 type @ rest) (length pre + dix_off) = Inr (ntohs type)"
    using assms(1) ld16_at [of _ "pre @ macs" "hi8 type" "lo8 type" rest]
    by (simp add: be16_def layout_simps)
  with assms(2,3) show ?thesis
    by (simp add: EthEncapsulatedPktType_def EthHeaderType_def ETH_TYPE_802_1PQ_def layout_simps
        htons_ntohs_eq)
qed

lemma EthEncapsulated_tagged:
  assumes "length macs = 12" and "type > 1500"
  shows "EthEncapsulatedPktType (pre @ macs @ be16 0x8100 @ be16 tci @ be16 type @ rest) (length pre) =
         Inr (htons type, 18)"
proof -
  let ?m = "pre @ macs @ be16 0x8100 @ be16 tci @ be16 type @ rest"
  have "ld16 ?m (length pre + dix_off) = Inr (ntohs 0x8100)"
    using assms(1) ld16_at [of _ "pre @ macs" "hi8 0x8100" "lo8 0x8100" "be16 tci @ be16 type @ rest"]
    by (simp add: be16_def dix_off_def ETH_ADDR_LENGTH_def)
  moreover have "ld16 ?m (length pre + vlan_dix_off) = Inr (ntohs type)"
    using assms(1)
      ld16_at [of _ "pre @ macs @ be16 0x8100 @ be16 tci" "hi8 type" "lo8 type" rest]
    by (simp add: be16_def eth_offsets eth_sizes)
  ultimately show ?thesis
    using assms(2)
    by (simp add: EthEncapsulatedPktType_def EthHeaderType_def ETH_TYPE_802_1PQ_def eth_sizes
        htons_ntohs_eq)
qed

lemma EthEncapsulated_dot3:
  assumes "length macs = 12" and "len \<le> 1500" and "length llc = 6"
  shows "EthEncapsulatedPktType (pre @ macs @ be16 len @ llc @ be16 type @ rest) (length pre) =
         Inr (htons type, 22)"
proof -
  let ?m = "pre @ macs @ be16 len @ llc @ be16 type @ rest"
  have "ld16 ?m (length pre + dix_off) = Inr (ntohs len)"
    using assms(1) ld16_at [of _ "pre @ macs" "hi8 len" "lo8 len" "llc @ be16 type @ rest"]
    by (simp add: be16_def dix_off_def ETH_ADDR_LENGTH_def)
  moreover have "ld16 ?m (length pre + snap_off) = Inr (ntohs type)"
    using assms ld16_at [of _ "pre @ macs @ be16 len @ llc" "hi8 type" "lo8 type" rest]
    by (simp add: be16_def eth_offsets eth_sizes)
  moreover have "\<not> 1500 < len" using assms(2) by simp
  ultimately show ?thesis
    by (simp add: EthEncapsulatedPktType_def EthHeaderType_def eth_sizes htons_ntohs_eq)
qed

lemma EthEncapsulated_tagged_dot3:
  assumes "length macs = 12" and "len \<le> 1500" and "length llc = 6"
  shows "EthEncapsulatedPktType
           (pre @ macs @ be16 0x8100 @ be16 tci @ be16 len @ llc @ be16 type @ rest) (length pre) =
         Inr (htons type, 26)"
proof -
  let ?m = "pre @ macs @ be16 0x8100 @ be16 tci @ be16 len @ llc @ be16 type @ rest"
  have "ld16 ?m (length pre + dix_off) = Inr (ntohs 0x8100)"
    using assms(1)
      ld16_at [of _ "pre @ macs" "hi8 0x8100" "lo8 0x8100" "be16 tci @ be16 len @ llc @ be16 type @ rest"]
    by (simp add: be16_def dix_off_def ETH_ADDR_LENGTH_def)
  moreover have "ld16 ?m (length pre + vlan_dix_off) = Inr (ntohs len)"
    using assms(1)
      ld16_at [of _ "pre @ macs @ be16 0x8100 @ be16 tci" "hi8 len" "lo8 len" "llc @ be16 type @ rest"]
    by (simp add: be16_def eth_offsets eth_sizes)
  moreover have "ld16 ?m (length pre + vlan_snap_off) = Inr (ntohs type)"
    using assms
      ld16_at [of _ "pre @ macs @ be16 0x8100 @ be16 tci @ be16 len @ llc" "hi8 type" "lo8 type" rest]
    by (simp add: be16_def eth_offsets eth_sizes)
  ultimately show ?thesis
    using assms(2)
    by (simp add: EthEncapsulatedPktType_def EthHeaderType_def ETH_TYPE_802_1PQ_def eth_sizes
        htons_ntohs_eq not_less)
qed

lemma EthEncapsulated_framing:
  assumes "length macs = 12" and "framing_ok fr type"
  shows "EthEncapsulatedPktType (pre @ enc_header fr macs type @ rest) (length pre) =
         Inr (htons type, of_nat (length (enc_header fr macs type)))"
  using assms EthEncapsulated_dix EthEncapsulated_tagged EthEncapsulated_dot3
    EthEncapsulated_tagged_dot3
  by (cases fr) (simp_all add: be16_def)

lemma load_tag_enc:
  "\<exists>tag. load_tag (pre @ be16 0x8100 @ be16 tci @ rest) (length pre) = Inr tag \<and>
     EthVlanTagGetVlanID tag = tci AND 0xFFF \<and> priority tag = ucast (drop_bit 13 tci)"
proof -
  have t: "load_tag (pre @ be16 0x8100 @ be16 tci @ rest) (length pre) =
    Inr \<lparr>tag_typeNBO = ntohs 0x8100, vidHi = ucast (ntohs tci), canonical = bit (ntohs tci) 4,
         priority = ucast (drop_bit 5 (ntohs tci)), vidLo = ucast (drop_bit 8 (ntohs tci))\<rparr>"
    using ld16_at [of _ "pre @ be16 0x8100" "hi8 tci" "lo8 tci" rest]
      ld16_at [of _ pre "hi8 0x8100" "lo8 0x8100" "be16 tci @ rest"]
    by (simp add: load_tag_def be16_def)
  have mask: "(0xFFF :: u16) = mask 12" by (simp add: mask_eq_exp_minus_1)
  have i: "push_bit 8 (ucast (ucast (ntohs tci) :: 4 word)) OR ucast (ucast (drop_bit 8 (ntohs tci)) :: u8)
        = tci AND 0xFFF"
    unfolding ntohs_def mk16_def lo8_def hi8_def mask
    by (rule bit_word_eqI) (auto simp: bit_simps)
  have p: "(ucast (drop_bit 5 (ntohs tci)) :: 3 word) = ucast (drop_bit 13 tci)"
    unfolding ntohs_def mk16_def lo8_def hi8_def by (rule bit_word_eqI) (auto simp: bit_simps)
  show ?thesis using t i p by (simp add: EthVlanTagGetVlanID_def)
qed

lemma EthHeaderType_of_len:
  assumes "EthEncapsulatedPktType m eh = Inr (t, off)"
  shows "EthHeaderType m eh = Inr (if off = 14 then ETH_HEADER_TYPE_DIX
     else if off = 18 then ETH_HEADER_TYPE_802_1PQ else if off = 22 then ETH_HEADER_TYPE_802_3
     else ETH_HEADER_TYPE_802_1PQ_802_3)"
proof -
  from assms obtain ht where ht: "EthHeaderType m eh = Inr ht"
    by (auto simp: EthEncapsulatedPktType_def bindR_eq_Inr)
  with assms show ?thesis
    by (cases ht) (auto simp: EthEncapsulatedPktType_def bindR_eq_Inr eth_sizes)
qed

text \<open>For each of the four framings (DIX, VLAN tagged DIX, 802.3 with SNAP, VLAN tagged 802.3)
  the layer 3 protocol found is the one the frame carries, in network byte order, and the offset
  returned is the length of the Ethernet header.\<close>

lemma eth_type_found:
  assumes "length macs = 12" and "framing_ok fr type"
  shows "EthEncapsulatedPktType (pre @ enc_header fr macs type @ rest) (length pre) =
         Inr (htons type, of_nat (length (enc_header fr macs type)))"
  using assms by (rule EthEncapsulated_framing)

lemma eth_type_found_witness:
  "EthEncapsulatedPktType
     ([9] @ enc_header (Tagged 0x6005) (replicate 12 0) 0x0800 @ [0x45]) 1 = Inr (htons 0x0800, 18)"
  using eth_type_found [of "replicate 12 0" "Tagged 0x6005" "0x0800" "[9]" "[0x45]"]
  by (simp add: be16_def)

text \<open>The bit fields of a VLAN tag are read at the right places: from a tag in a frame the VLAN
  identifier is the lower twelve bits of the tag control information in host byte order and the
  priority its upper three.\<close>

lemma vlan_tag_fields:
  "\<exists>tag. load_tag (pre @ be16 0x8100 @ be16 tci @ rest) (length pre) = Inr tag \<and>
     EthVlanTagGetVlanID tag = tci AND 0xFFF \<and> priority tag = ucast (drop_bit 13 tci)"
  by (rule load_tag_enc)

section \<open>Header layouts\<close>

definition enc_IPHdr :: "IPHdr \<Rightarrow> bytes" where
  "enc_IPHdr h = [join4 (ip_version h) (ihl h), tos h] @ le16 (tot_len h) @ le16 (ip_id h) @
     le16 (frag_off h) @ [ttl h, protocol h] @ le16 (ip_check h) @ le32 (saddr h) @ le32 (daddr h)"

definition enc_IPv6Hdr :: "IPv6Hdr \<Rightarrow> bytes" where
  "enc_IPv6Hdr h = [join4 (v6_version h) (trafficClass_0 h), join4 (trafficClass_1 h) (flowLabel_0 h)] @
     le16 (flowLabel_1 h) @ le16 (payloadLen h) @ [nextHeader h, hopLimit h] @ v6_saddr h @ v6_daddr h"

definition enc_UDPHdr :: "UDPHdr \<Rightarrow> bytes" where
  "enc_UDPHdr h = le16 (udp_source h) @ le16 (udp_dest h) @ le16 (udp_len h) @ le16 (udp_check h)"

definition enc_TCPHdr :: "TCPHdr \<Rightarrow> bytes" where
  "enc_TCPHdr h = le16 (tcp_source h) @ le16 (tcp_dest h) @ le32 (seq h) @ le32 (ack_seq h) @
     [join4 (doff h) (res1 h), tcp_flags h] @ le16 (window h) @ le16 (tcp_check h) @ le16 (urg_ptr h)"

lemmas rd_defs = rd8_def ld16_def ld32_def

lemma load_enc_IPHdr: "load_IPHdr (pre @ enc_IPHdr h @ rest) (length pre) = Inr h"
  by (simp add: load_IPHdr_def enc_IPHdr_def le_defs rd_defs nth_append)

lemma load_enc_UDPHdr: "load_UDPHdr (pre @ enc_UDPHdr h @ rest) (length pre) = Inr h"
  by (simp add: load_UDPHdr_def enc_UDPHdr_def le_defs rd_defs nth_append)

lemma load_enc_TCPHdr: "load_TCPHdr (pre @ enc_TCPHdr h @ rest) (length pre) = Inr h"
  by (simp add: load_TCPHdr_def enc_TCPHdr_def le_defs rd_defs nth_append)

lemma load_enc_IPv6Hdr:
  assumes "length (v6_saddr h) = 16" and "length (v6_daddr h) = 16"
  shows "load_IPv6Hdr (pre @ enc_IPv6Hdr h @ rest) (length pre) = Inr h"
  using assms
  by (simp add: load_IPv6Hdr_def enc_IPv6Hdr_def le_defs rd_defs rdn_def nth_append)

text \<open>The header structs overlay the packet bytes field by field: reading a header from memory
  returns exactly the fields whose bytes are laid out there, bit fields included, for IPv4, IPv6,
  UDP and TCP, and each header takes its \<open>sizeof\<close> bytes.\<close>

lemma header_roundtrip:
  "load_IPHdr (pre @ enc_IPHdr i @ rest) (length pre) = Inr i \<and> length (enc_IPHdr i) = sizeof_IPHdr \<and>
   load_UDPHdr (pre @ enc_UDPHdr u @ rest) (length pre) = Inr u \<and> length (enc_UDPHdr u) = sizeof_UDPHdr \<and>
   load_TCPHdr (pre @ enc_TCPHdr t @ rest) (length pre) = Inr t \<and> length (enc_TCPHdr t) = sizeof_TCPHdr \<and>
   (length (v6_saddr h) = 16 \<and> length (v6_daddr h) = 16 \<longrightarrow>
      load_IPv6Hdr (pre @ enc_IPv6Hdr h @ rest) (length pre) = Inr h \<and>
      length (enc_IPv6Hdr h) = sizeof_IPv6Hdr)"
  using load_enc_IPHdr load_enc_UDPHdr load_enc_TCPHdr load_enc_IPv6Hdr
  by (auto simp: enc_IPHdr_def enc_UDPHdr_def enc_TCPHdr_def enc_IPv6Hdr_def le_defs
      sizeof_IPHdr_def sizeof_UDPHdr_def sizeof_TCPHdr_def sizeof_IPv6Hdr_def)

definition v6_sample :: IPv6Hdr where
  "v6_sample = \<lparr>trafficClass_0 = 1, v6_version = 6, flowLabel_0 = 2, trafficClass_1 = 3,
     flowLabel_1 = 0x1234, payloadLen = 0x2000, nextHeader = 6, hopLimit = 64,
     v6_saddr = replicate 16 1, v6_daddr = replicate 16 2\<rparr>"

lemma header_roundtrip_witness:
  "load_IPv6Hdr (enc_IPv6Hdr v6_sample) 0 = Inr v6_sample"
  using header_roundtrip [of "[]" undefined "[]" undefined undefined v6_sample]
  by (simp add: v6_sample_def)

end
