(* ===== verification/Connection_DS.thy ===== *)
theory Connection_DS
  imports Prelude
begin

text \<open>
  The data of \<open>include/ConnectionDS.h\<close> and the classification state of \<open>include/navl.h\<close>, and the
  hashing and comparison of connection keys from \<open>include/FlowTable.h\<close>.  Pointers are optional
  addresses, \<open>None\<close> being the null pointer.
\<close>

section \<open>Data\<close>

type_synonym ptr = "addr option"

datatype navl_state_t =
    NAVL_STATE_TERMINATED | NAVL_STATE_INSPECTING | NAVL_STATE_MONITORING | NAVL_STATE_CLASSIFIED

record ConnKey =
  srcaddr :: u32
  dstaddr :: u32
  srcport :: u16
  dstport :: u16
  ipproto :: u8

definition ConnKey_default :: ConnKey where
  "ConnKey_default = \<lparr>srcaddr = 0, dstaddr = 0, srcport = 0, dstport = 0, ipproto = 0\<rparr>"

text \<open>\<open>lastpacket_timestamp\<close> is the one field neither constructor sets: \<open>None\<close> is its
  indeterminate value.\<close>

record ConnInfo =
  ci_key :: ConnKey
  ci_queue :: int
  connid :: u64
  packetnum :: u32
  classified_num :: u32
  class_state :: navl_state_t
  ci_conn :: ptr
  dpi_state :: ptr
  dpi_result :: u32
  dpi_confidence :: int
  ci_error :: int
  classified_timestamp :: int
  lastpacket_timestamp :: "int option"
  ci_handle :: int
  ci_dir :: int
  ci_filter :: ptr
  pkt_ref_cnt :: int

definition ConnInfo_new :: "ConnKey \<Rightarrow> ConnInfo" where
  "ConnInfo_new key =
     \<lparr>ci_key = key, ci_queue = 0, connid = 0, packetnum = 0, classified_num = 0,
      class_state = NAVL_STATE_INSPECTING, ci_conn = None, dpi_state = None, dpi_result = 0,
      dpi_confidence = 0, ci_error = 0, classified_timestamp = 0, lastpacket_timestamp = None,
      ci_handle = 0, ci_dir = 0, ci_filter = None, pkt_ref_cnt = 0\<rparr>"

definition ConnInfo_copy :: "ConnInfo \<Rightarrow> ConnInfo" where
  "ConnInfo_copy other =
     \<lparr>ci_key = ci_key other, ci_queue = ci_queue other, connid = connid other,
      packetnum = packetnum other, classified_num = classified_num other,
      class_state = class_state other, ci_conn = ci_conn other, dpi_state = dpi_state other,
      dpi_result = dpi_result other, dpi_confidence = dpi_confidence other,
      ci_error = ci_error other, classified_timestamp = classified_timestamp other,
      lastpacket_timestamp = None,
      ci_handle = ci_handle other, ci_dir = ci_dir other, ci_filter = ci_filter other,
      pkt_ref_cnt = pkt_ref_cnt other\<rparr>"

record ConnMetadata =
  md_key :: ptr
  md_info :: ptr
  md_pktnum :: u32
  md_dir :: u32
  md_data :: bytes
  md_exit_flag :: u8

record DPIFlowData =
  fd_key :: ConnKey
  fd_exit_flag :: bool
  fd_dir :: int
  fd_filter :: ptr
  fd_len :: int
  fd_dpiresult :: string

section \<open>Hash and equality of keys\<close>

text \<open>\<open>std::hash<uint32_t>\<close> of libstdc++ is the identity.\<close>

definition std_hash_u32 :: "u32 \<Rightarrow> u64" where
  "std_hash_u32 w = ucast w"

definition ConnKeyHasher :: "ConnKey \<Rightarrow> u64" where
  "ConnKeyHasher key = std_hash_u32 (srcaddr key + dstaddr key + ucast (srcport key) +
                                     ucast (dstport key) + ucast (ipproto key))"

definition forward_lookup :: "ConnKey \<Rightarrow> ConnKey \<Rightarrow> bool" where
  "forward_lookup k1 k2 \<longleftrightarrow> srcaddr k1 = srcaddr k2 \<and> dstaddr k1 = dstaddr k2 \<and>
     srcport k1 = srcport k2 \<and> dstport k1 = dstport k2"

definition reverse_lookup :: "ConnKey \<Rightarrow> ConnKey \<Rightarrow> bool" where
  "reverse_lookup k1 k2 \<longleftrightarrow> srcaddr k1 = dstaddr k2 \<and> dstaddr k1 = srcaddr k2 \<and>
     srcport k1 = dstport k2 \<and> dstport k1 = srcport k2"

definition ConnKeyEqual :: "ConnKey \<Rightarrow> ConnKey \<Rightarrow> bool" where
  "ConnKeyEqual k1 k2 \<longleftrightarrow>
     ipproto k1 = ipproto k2 \<and> (forward_lookup k1 k2 \<or> reverse_lookup k1 k2)"

text \<open>The key of a packet that travels the other way.\<close>

definition reverse_key :: "ConnKey \<Rightarrow> ConnKey" where
  "reverse_key k = \<lparr>srcaddr = dstaddr k, dstaddr = srcaddr k, srcport = dstport k,
                    dstport = srcport k, ipproto = ipproto k\<rparr>"

lemmas key_defs = ConnKeyEqual_def forward_lookup_def reverse_lookup_def

lemma ConnKeyEqual_alt: "ConnKeyEqual k1 k2 \<longleftrightarrow> k1 = k2 \<or> k1 = reverse_key k2"
  by (cases k1; cases k2) (auto simp: key_defs reverse_key_def)

lemma reverse_key_twice [simp]: "reverse_key (reverse_key k) = k"
  by (simp add: reverse_key_def)

lemma ConnKeyHasher_reverse [simp]: "ConnKeyHasher (reverse_key k) = ConnKeyHasher k"
  by (simp add: ConnKeyHasher_def reverse_key_def algebra_simps)

lemma ConnKeyEqual_refl [simp]: "ConnKeyEqual k k"
  by (simp add: ConnKeyEqual_alt)

lemma ConnKeyEqual_sym: "ConnKeyEqual k1 k2 \<Longrightarrow> ConnKeyEqual k2 k1"
  by (auto simp: ConnKeyEqual_alt)

lemma ConnKeyEqual_trans: "ConnKeyEqual k1 k2 \<Longrightarrow> ConnKeyEqual k2 k3 \<Longrightarrow> ConnKeyEqual k1 k3"
  by (auto simp: ConnKeyEqual_alt)

lemma ConnKeyEqual_hash: "ConnKeyEqual k1 k2 \<Longrightarrow> ConnKeyHasher k1 = ConnKeyHasher k2"
  by (auto simp: ConnKeyEqual_alt)

section \<open>The requirement of \<open>std::unordered_map\<close> on its key functions\<close>

text \<open>
  The container requires an equivalence relation and a hash that is constant on its classes;
  otherwise a lookup may miss an equal key.
\<close>

locale hashed_key =
  fixes hash :: "'k \<Rightarrow> 'h" and eq :: "'k \<Rightarrow> 'k \<Rightarrow> bool"
  assumes eq_refl: "eq k k"
    and eq_sym: "eq k1 k2 \<Longrightarrow> eq k2 k1"
    and eq_trans: "eq k1 k2 \<Longrightarrow> eq k2 k3 \<Longrightarrow> eq k1 k3"
    and eq_hash: "eq k1 k2 \<Longrightarrow> hash k1 = hash k2"
begin

lemma eq_cong: "eq k1 k2 \<Longrightarrow> eq k1 k = eq k2 k"
  using eq_sym eq_trans by blast

lemma bucket_search:
  "find (\<lambda>n. hash (f n) = hash k \<and> eq k (f n)) ns = find (\<lambda>n. eq k (f n)) ns"
  using eq_hash by (intro find_cong) auto

lemma search_respects_eq:
  "eq k1 k2 \<Longrightarrow> find (\<lambda>n. eq k1 (f n)) ns = find (\<lambda>n. eq k2 (f n)) ns"
  using eq_cong by (metis (no_types))

end

interpretation connkey: hashed_key ConnKeyHasher ConnKeyEqual
  by unfold_locales
    (auto intro: ConnKeyEqual_sym ConnKeyEqual_trans dest: ConnKeyEqual_hash)

section \<open>Properties\<close>

text \<open>C26 The key functions meet what the hash table requires of them: the comparison that ignores
  direction is an equivalence, its classes are a key and its reversal, and the wrapping sum used
  as hash is the same for all keys of a class.\<close>

theorem ConnKey_hash_contract:
  "ConnKeyEqual k k \<and> (ConnKeyEqual k1 k2 \<longleftrightarrow> ConnKeyEqual k2 k1) \<and>
   (ConnKeyEqual k1 k2 \<and> ConnKeyEqual k2 k3 \<longrightarrow> ConnKeyEqual k1 k3) \<and>
   (ConnKeyEqual k1 k2 \<longleftrightarrow> k1 = k2 \<or> k1 = reverse_key k2) \<and>
   (ConnKeyEqual k1 k2 \<longrightarrow> ConnKeyHasher k1 = ConnKeyHasher k2)"
  using connkey.eq_refl connkey.eq_sym connkey.eq_trans connkey.eq_hash ConnKeyEqual_alt by blast

definition key_sample :: ConnKey where
  "key_sample = \<lparr>srcaddr = 0x0A000001, dstaddr = 0xC0A80102, srcport = 40000, dstport = 443,
                 ipproto = 6\<rparr>"

theorem ConnKey_hash_contract_witness:
  "ConnKeyEqual key_sample (reverse_key key_sample) \<and> key_sample \<noteq> reverse_key key_sample \<and>
   ConnKeyHasher key_sample = ConnKeyHasher (reverse_key key_sample)"
proof -
  have "ConnKeyEqual key_sample (reverse_key key_sample)" by (simp add: ConnKeyEqual_alt)
  moreover have "key_sample \<noteq> reverse_key key_sample" by (simp add: key_sample_def reverse_key_def)
  ultimately show ?thesis
    using ConnKey_hash_contract [of undefined key_sample "reverse_key key_sample"] by blast
qed

end
