(* ===== verification/Dvf_Types.thy ===== *)
theory Dvf_Types
  imports Net_Protos Connection_DS
begin

text \<open>
  The types \<open>netx_sample_service.c\<close> works with: those of \<open>include/dvfilterlib.h\<close> and its own.  The
  DVFilter library itself is not part of the sources; the functions the service calls on packets
  are the fields of \<open>dvlib\<close>, over a library state \<open>'s\<close> and packet handles \<open>'p\<close>.  Packet data lives in
  the byte memory, so the calls that may allocate or copy a packet take and return the memory.
\<close>

section \<open>DVFilter library\<close>

datatype DVFilterStatus =
    DVFILTER_STATUS_OK | DVFILTER_STATUS_TIMEDOUT | DVFILTER_STATUS_BADPARAM
  | DVFILTER_STATUS_NOT_FOUND | DVFILTER_STATUS_BUF_TOO_SMALL | DVFILTER_STATUS_PROTOCOL_ERR
  | DVFILTER_STATUS_ALREADY_INIT | DVFILTER_STATUS_DISCONNECT | DVFILTER_STATUS_NOT_INITIALIZED
  | DVFILTER_STATUS_NOT_SUPPORTED | DVFILTER_STATUS_ERROR

datatype DVFilterDirection =
    DVFILTER_FROM_SWITCH | DVFILTER_TO_SWITCH | DVFILTER_BIDIRECTIONAL

fun direction_code :: "DVFilterDirection \<Rightarrow> u8" where
  "direction_code DVFILTER_FROM_SWITCH = 1"
| "direction_code DVFILTER_TO_SWITCH = 2"
| "direction_code DVFILTER_BIDIRECTIONAL = 3"

datatype DVFilterEndPointType =
    DVFILTER_ENDPOINT_VNIC | DVFILTER_ENDPOINT_VMKNIC | DVFILTER_ENDPOINT_VSWIF
  | DVFILTER_ENDPOINT_UPLINK

definition DVFILTER_INVALID_IOCTL_REQUEST_ID :: u32 where
  "DVFILTER_INVALID_IOCTL_REQUEST_ID = 0"

definition DVFILTER_MAX_PARAMS :: nat where "DVFILTER_MAX_PARAMS = 16"
definition DVFILTER_MAX_CONFIGPARAM_LEN :: nat where "DVFILTER_MAX_CONFIGPARAM_LEN = 256"
definition DVFILTER_MAX_VC_UUID_LEN :: nat where "DVFILTER_MAX_VC_UUID_LEN = 128"

record ('s, 'p) dvlib =
  DVFilter_GetPktLen :: "'s \<Rightarrow> 'p \<Rightarrow> u32"
  DVFilter_GetPktFragDirectRange :: "'s \<Rightarrow> 'p \<Rightarrow> u32 \<Rightarrow> u32 \<Rightarrow> (addr \<times> u32) option"
  DVFilter_GetPktFragAddressAndLength :: "'s \<Rightarrow> 'p \<Rightarrow> u32 \<Rightarrow> DVFilterStatus \<times> addr option \<times> u32"
  DVFilter_IsMustCsum :: "'s \<Rightarrow> 'p \<Rightarrow> bool"
  DVFilter_IsMustTso :: "'s \<Rightarrow> 'p \<Rightarrow> bool"
  DVFilter_GetTsoMss :: "'s \<Rightarrow> 'p \<Rightarrow> u32"
  DVFilter_AllocPkt :: "'s \<Rightarrow> bytes \<Rightarrow> u32 \<Rightarrow> 'p option \<times> 's \<times> bytes"
  DVFilter_SetPktLen :: "'s \<Rightarrow> bytes \<Rightarrow> 'p \<Rightarrow> u32 \<Rightarrow> 'p \<times> 's \<times> bytes"
  DVFilter_SetPktMetadataLen :: "'s \<Rightarrow> bytes \<Rightarrow> 'p \<Rightarrow> u32 \<Rightarrow> 'p \<times> 's \<times> bytes"
  DVFilter_SetMustTso :: "'s \<Rightarrow> 'p \<Rightarrow> u32 \<Rightarrow> 's"
  DVFilter_SetMustCsum :: "'s \<Rightarrow> 'p \<Rightarrow> 's"

section \<open>Types of the service\<close>

definition FILTERNAME_MAXLEN :: nat where "FILTERNAME_MAXLEN = 100"

definition FILTER_MAGIC :: u32 where "FILTER_MAGIC = 0x57465644"

record filter_kern_config =
  filterToSwitch :: u8
  filterFromSwitch :: u8
  filterICMP :: u8
  filterUDPPortNBO :: u16
  filterTCPPortNBO :: u16
  copyPackets :: u8
  delayPacketsMs :: u32
  reorderPackets :: u8
  dnaptPortNBO :: u16
  fakeProcessingUsecs :: u16

type_synonym filterState = filter_kern_config

definition filterState_zero :: filterState where
  "filterState_zero = \<lparr>filterToSwitch = 0, filterFromSwitch = 0, filterICMP = 0, filterUDPPortNBO = 0,
     filterTCPPortNBO = 0, copyPackets = 0, delayPacketsMs = 0, reorderPackets = 0,
     dnaptPortNBO = 0, fakeProcessingUsecs = 0\<rparr>"

record filter =
  magic :: u32
  f_handle :: ptr
  f_state :: filterState
  filterName :: bytes
  vcUUID :: bytes
  endPointType :: DVFilterEndPointType
  vNicIndex :: u32

datatype filterAction = NO_MATCH | MATCH

record filterPktInfo =
  pi_ethtype :: u16
  pi_protocol :: u8
  pi_srcPort :: u16
  pi_dstPort :: u16
  pi_vlanID :: u16
  pi_priority :: u16

definition pktInfo_zero :: filterPktInfo where
  "pktInfo_zero = \<lparr>pi_ethtype = 0, pi_protocol = 0, pi_srcPort = 0, pi_dstPort = 0, pi_vlanID = 0,
                   pi_priority = 0\<rparr>"

datatype sAction = ACTION_PUNT | ACTION_COPY

record PktMetadata =
  pm_filterPtr :: ptr
  pm_pktPtr :: ptr
  pm_dir :: u8

definition IPPROTO_ICMP :: u8 where "IPPROTO_ICMP = 1"
definition IPPROTO_TCP :: u8 where "IPPROTO_TCP = 6"
definition IPPROTO_UDP :: u8 where "IPPROTO_UDP = 17"
definition IPPROTO_ICMPV6 :: u8 where "IPPROTO_ICMPV6 = 58"

section \<open>Fragmented packets\<close>

text \<open>
  What \<open>dvfilterlib.h\<close> documents of a packet's data: it is a list of fragments, each an address and a
  length; \<open>DVFilter_GetPktFragDirectRange\<close> returns the place of an offset and the bytes left in its
  fragment when the whole range lies in that fragment, and NULL otherwise.
\<close>

type_synonym frags = "(addr \<times> nat) list"

fun frag_range :: "frags \<Rightarrow> nat \<Rightarrow> nat \<Rightarrow> (addr \<times> nat) option" where
  "frag_range [] off len = None"
| "frag_range ((a, n) # fs) off len =
     (if off < n then if off + len \<le> n then Some (a + off, n - off) else None
      else frag_range fs (off - n) len)"

definition frags_len :: "frags \<Rightarrow> nat" where
  "frags_len fs = sum_list (map snd fs)"

definition frags_data :: "bytes \<Rightarrow> frags \<Rightarrow> bytes" where
  "frags_data m fs = concat (map (\<lambda>(a, n). take n (drop a m)) fs)"

definition frags_in :: "bytes \<Rightarrow> frags \<Rightarrow> bool" where
  "frags_in m fs \<longleftrightarrow> (\<forall>(a, n) \<in> set fs. 0 < n \<and> a + n \<le> length m)"

definition frags_avoid :: "frags \<Rightarrow> addr \<Rightarrow> nat \<Rightarrow> bool" where
  "frags_avoid fs d k \<longleftrightarrow> (\<forall>(a, n) \<in> set fs. a + n \<le> d \<or> d + k \<le> a)"

text \<open>\<open>lib_frags\<close>: the library describes packet \<open>p\<close> as the fragments \<open>fs\<close>.\<close>

definition lib_frags :: "('s, 'p) dvlib \<Rightarrow> 's \<Rightarrow> 'p \<Rightarrow> frags \<Rightarrow> bool" where
  "lib_frags lib s p fs \<longleftrightarrow>
     unat (DVFilter_GetPktLen lib s p) = frags_len fs \<and>
     (\<forall>off len. DVFilter_GetPktFragDirectRange lib s p off len =
        map_option (\<lambda>(a, n). (a, of_nat n)) (frag_range fs (unat off) (unat len))) \<and>
     (\<forall>i. DVFilter_GetPktFragAddressAndLength lib s p i =
        (if unat i < length fs
         then (DVFILTER_STATUS_OK, Some (fst (fs ! unat i)), of_nat (snd (fs ! unat i)))
         else (DVFILTER_STATUS_ERROR, None, 0)))"

lemma frag_range_ok:
  assumes "frags_in m fs" and "frag_range fs off len = Some (a, n)"
  shows "len \<le> n \<and> 0 < n \<and> off + n \<le> frags_len fs \<and> a + n \<le> length m \<and>
    take n (drop a m) = take n (drop off (frags_data m fs))"
  using assms
proof (induction fs off len rule: frag_range.induct)
  case (2 b k fs off len)
  then have k: "b + k \<le> length m" "frags_in m fs" by (auto simp: frags_in_def)
  show ?case
  proof (cases "off < k")
    case True
    then have "a = b + off" "n = k - off" "len \<le> n"
      using 2 by (auto split: if_splits)
    moreover have "take n (drop off (take k (drop b m) @ frags_data m fs)) = take n (drop (b + off) m)"
      using True \<open>n = k - off\<close> k(1) by (simp add: drop_take add.commute)
    ultimately show ?thesis
      using True k(1) by (auto simp: frags_len_def frags_data_def)
  next
    case False
    with 2 k have "len \<le> n \<and> 0 < n \<and> off - k + n \<le> frags_len fs \<and> a + n \<le> length m \<and>
      take n (drop a m) = take n (drop (off - k) (frags_data m fs))" by simp
    with False k(1) show ?thesis by (auto simp: frags_len_def frags_data_def)
  qed
qed simp

lemma frag_range_found:
  assumes "frags_in m fs" and "off < frags_len fs"
  shows "frag_range fs off 0 \<noteq> None"
  using assms
  by (induction fs off "0 :: nat" rule: frag_range.induct) (auto simp: frags_len_def frags_in_def)

lemma length_frags_data: "frags_in m fs \<Longrightarrow> length (frags_data m fs) = frags_len fs"
  by (induction fs) (auto simp: frags_in_def frags_data_def frags_len_def)

lemma take_drop_put_avoid:
  assumes "a + n \<le> d \<or> d + length bs \<le> a" and "d + length bs \<le> length m"
  shows "take n (drop a (put m d bs)) = take n (drop a m)"
proof (rule nth_equalityI)
  show "length (take n (drop a (put m d bs))) = length (take n (drop a m))" using assms(2) by simp
next
  fix i
  assume "i < length (take n (drop a (put m d bs)))"
  then have "i < n" "a + i < length m" using assms(2) by auto
  then show "take n (drop a (put m d bs)) ! i = take n (drop a m) ! i"
    using assms by (auto simp: nth_put)
qed

lemma frags_data_put:
  assumes "frags_avoid fs d (length bs)" and "d + length bs \<le> length m"
  shows "frags_data (put m d bs) fs = frags_data m fs"
  using assms take_drop_put_avoid
  unfolding frags_data_def frags_avoid_def
  by (intro arg_cong [where f = concat] map_cong) (auto simp: Ball_def)

end
