(* ===== verification/Dvf_Packet.thy ===== *)
theory Dvf_Packet
  imports Dvf_Types
begin

text \<open>
  The packet functions of \<open>netx_sample_service.c\<close>: copying packet data, the direct context that gives
  access to a header, parsing, matching, port translation and the packet callback.  Local buffers
  (\<open>smallBuffer\<close>, \<open>lclBuf\<close>) are a place in the byte memory given as an argument.
\<close>

section \<open>Copying\<close>

function CopyPacketData_loop ::
  "('s, 'p) dvlib \<Rightarrow> 's \<Rightarrow> 'p \<Rightarrow> bytes \<Rightarrow> addr \<Rightarrow> u32 \<Rightarrow> u32 \<Rightarrow> (DVFilterStatus \<times> bytes) cres" where
  "CopyPacketData_loop lib s src m dst offset copyLen =
     (if copyLen = 0 then Inr (DVFILTER_STATUS_OK, m)
      else case DVFilter_GetPktFragDirectRange lib s src offset 0 of
             None \<Rightarrow> Inr (DVFILTER_STATUS_ERROR, m)
           | Some (srcData, n) \<Rightarrow>
               let moveLen = (if n > copyLen then copyLen else n)
               in if moveLen = 0 then Inl AssertFailed
                  else bindR (memcpy m dst srcData (unat moveLen)) (\<lambda>m'.
                         CopyPacketData_loop lib s src m' (dst + unat moveLen)
                           (offset + moveLen) (copyLen - moveLen)))"
  by pat_completeness auto
termination
proof (relation "measure (\<lambda>(_, _, _, _, _, _, k). unat k)", goal_cases)
  case (2 lib s src m dst offset copyLen x2 x y moveLen m')
  then have "moveLen \<le> copyLen" "moveLen \<noteq> 0" by (auto simp: not_less)
  then have "unat (copyLen - moveLen) = unat copyLen - unat moveLen" "0 < unat moveLen"
    "unat moveLen \<le> unat copyLen"
    by (simp_all add: unat_sub unat_gt_0 word_le_nat_alt)
  then show ?case by simp
qed simp

declare CopyPacketData_loop.simps [simp del]

definition CopyPacketData ::
  "('s, 'p) dvlib \<Rightarrow> 's \<Rightarrow> bytes \<Rightarrow> addr \<Rightarrow> 'p \<Rightarrow> u32 \<Rightarrow> u32 \<Rightarrow> (DVFilterStatus \<times> bytes) cres" where
  "CopyPacketData lib s m dst src offset copyLen =
     CopyPacketData_loop lib s src m dst offset
       (if copyLen = 0 then DVFilter_GetPktLen lib s src - offset else copyLen)"

text \<open>\<open>CopyPacket\<close>.  The loop's local state: next fragment index, data pointer and bytes left of the
  current fragment, for source and destination.  The number of rounds is bounded by \<open>fuel\<close>;
  \<open>None\<close> means the bound was not enough.\<close>

record copy_side =
  cs_ndx :: u32
  cs_data :: ptr
  cs_len :: u32

definition next_frag :: "('s, 'p) dvlib \<Rightarrow> 's \<Rightarrow> 'p \<Rightarrow> copy_side \<Rightarrow> DVFilterStatus + copy_side" where
  "next_frag lib s p c =
     (if cs_len c = 0
      then let (status, d, n) = DVFilter_GetPktFragAddressAndLength lib s p (cs_ndx c)
           in if status \<noteq> DVFILTER_STATUS_OK then Inl status
              else Inr \<lparr>cs_ndx = cs_ndx c + 1, cs_data = d, cs_len = n\<rparr>
      else Inr c)"

definition advance :: "u32 \<Rightarrow> copy_side \<Rightarrow> copy_side" where
  "advance k c = c\<lparr>cs_data := map_option (\<lambda>a. a + unat k) (cs_data c), cs_len := cs_len c - k\<rparr>"

fun CopyPacket_loop ::
  "nat \<Rightarrow> ('s, 'p) dvlib \<Rightarrow> 's \<Rightarrow> 'p \<Rightarrow> 'p \<Rightarrow> bytes \<Rightarrow> copy_side \<Rightarrow> copy_side \<Rightarrow> u32 \<Rightarrow>
   (DVFilterStatus \<times> bytes) cres option" where
  "CopyPacket_loop 0 lib s dst src m sc dc copyLen = None"
| "CopyPacket_loop (Suc fuel) lib s dst src m sc dc copyLen =
     (if copyLen = 0 then Some (Inr (DVFILTER_STATUS_OK, m))
      else case next_frag lib s src sc of
        Inl status \<Rightarrow> Some (Inr (status, m))
      | Inr sc1 \<Rightarrow>
        (case next_frag lib s dst dc of
           Inl status \<Rightarrow> Some (Inr (status, m))
         | Inr dc1 \<Rightarrow>
             let moveLen = (if cs_len sc1 > cs_len dc1 then cs_len dc1 else cs_len sc1)
             in (case (cs_data sc1, cs_data dc1) of
                   (Some sData, Some dData) \<Rightarrow>
                     if moveLen = 0 then Some (Inl AssertFailed)
                     else (case memcpy m dData sData (unat moveLen) of
                             Inl e \<Rightarrow> Some (Inl e)
                           | Inr m' \<Rightarrow> CopyPacket_loop fuel lib s dst src m'
                                        (advance moveLen sc1) (advance moveLen dc1) (copyLen - moveLen))
                 | _ \<Rightarrow> Some (Inl AssertFailed))))"

definition CopyPacket ::
  "nat \<Rightarrow> ('s, 'p) dvlib \<Rightarrow> 's \<Rightarrow> bytes \<Rightarrow> 'p \<Rightarrow> 'p \<Rightarrow> u32 \<Rightarrow> (DVFilterStatus \<times> bytes) cres option" where
  "CopyPacket fuel lib s m dst src copyLen =
     (let srcLen = DVFilter_GetPktLen lib s src; dstLen = DVFilter_GetPktLen lib s dst;
          side = \<lparr>cs_ndx = 0, cs_data = None, cs_len = 0\<rparr>
      in if copyLen \<noteq> 0 \<and> copyLen < srcLen then Some (Inr (DVFILTER_STATUS_ERROR, m))
         else if dstLen < srcLen then Some (Inr (DVFILTER_STATUS_ERROR, m))
         else CopyPacket_loop fuel lib s dst src m side side (if copyLen = 0 then srcLen else copyLen))"

section \<open>Access to headers\<close>

record filterDirectContext =
  direct :: ptr
  dirOffset :: u32
  dirLen :: u32
  backingBuffer :: addr
  bbLen :: u32
  bbAvailable :: u32
  bbOffset :: u32

definition DirectContextInit :: "addr \<Rightarrow> u32 \<Rightarrow> filterDirectContext" where
  "DirectContextInit buffer len =
     \<lparr>direct = None, dirOffset = 0, dirLen = 0, backingBuffer = buffer, bbLen = len,
      bbAvailable = 0, bbOffset = 0\<rparr>"

definition PktDirectRef ::
  "('s, 'p) dvlib \<Rightarrow> 's \<Rightarrow> bytes \<Rightarrow> 'p \<Rightarrow> u32 \<Rightarrow> u32 \<Rightarrow> filterDirectContext \<Rightarrow>
   (ptr \<times> filterDirectContext \<times> bytes) cres" where
  "PktDirectRef lib s m pkt offset len dc =
     (case (direct dc, offset \<ge> dirOffset dc \<and> offset + len < dirOffset dc + dirLen dc) of
        (Some d, True) \<Rightarrow> Inr (Some (d + unat offset), dc, m)
      | _ \<Rightarrow>
        (case DVFilter_GetPktFragDirectRange lib s pkt offset len of
           Some (result, fragLen) \<Rightarrow>
             Inr (Some result, dc\<lparr>direct := Some result, dirOffset := offset, dirLen := fragLen\<rparr>, m)
         | None \<Rightarrow>
             if offset \<ge> bbOffset dc \<and> offset + len < bbAvailable dc + bbOffset dc
             then Inr (Some (backingBuffer dc + unat offset), dc, m)
             else if bbLen dc \<le> len
             then
               let copyLen = 4; short = copyLen + offset > DVFilter_GetPktLen lib s pkt;
                   copyLen' = (if short then DVFilter_GetPktLen lib s pkt - offset else copyLen)
               in if short \<and> copyLen' < len then Inr (None, dc, m)
                  else bindR (CopyPacketData lib s m (backingBuffer dc) pkt offset copyLen') (\<lambda>(status, m').
                         if status = DVFILTER_STATUS_OK
                         then Inr (Some (backingBuffer dc),
                                   dc\<lparr>bbOffset := offset, bbAvailable := copyLen'\<rparr>, m')
                         else Inr (None, dc, m'))
             else Inr (None, dc, m)))"

section \<open>Parsing and matching\<close>

text \<open>The transport header: where both branches of \<open>ParsePacket\<close> read the ports.\<close>

definition parse_ports ::
  "('s, 'p) dvlib \<Rightarrow> 's \<Rightarrow> bytes \<Rightarrow> 'p \<Rightarrow> u32 \<Rightarrow> nat \<Rightarrow> filterDirectContext \<Rightarrow> filterPktInfo \<Rightarrow>
   (filterPktInfo \<times> bytes) cres" where
  "parse_ports lib s m pkt off sz dc info =
     bindR (PktDirectRef lib s m pkt off (of_nat sz) dc) (\<lambda>(r, dc1, m1).
       case r of None \<Rightarrow> Inr (info, m1)
       | Some h \<Rightarrow> bindR (ld16 m1 h) (\<lambda>source. bindR (ld16 m1 (h + 2)) (\<lambda>dest.
                    Inr (info\<lparr>pi_srcPort := source, pi_dstPort := dest\<rparr>, m1))))"

text \<open>The layer 3 header: protocol and header length, \<open>None\<close> when it cannot be referenced.\<close>

definition parse_l3 ::
  "('s, 'p) dvlib \<Rightarrow> 's \<Rightarrow> bytes \<Rightarrow> 'p \<Rightarrow> u16 \<Rightarrow> u32 \<Rightarrow> filterDirectContext \<Rightarrow>
   ((u8 \<times> u32) option \<times> filterDirectContext \<times> bytes) cres" where
  "parse_l3 lib s m pkt ethtype off dc =
     (if ethtype = ETH_TYPE_IPV6_NBO
      then bindR (PktDirectRef lib s m pkt off (of_nat sizeof_IPv6Hdr) dc) (\<lambda>(r, dc1, m1).
             case r of None \<Rightarrow> Inr (None, dc1, m1)
             | Some h \<Rightarrow> bindR (rd8 m1 (h + 6)) (\<lambda>nh. Inr (Some (nh, of_nat sizeof_IPv6Hdr), dc1, m1)))
      else bindR (PktDirectRef lib s m pkt off (of_nat sizeof_IPHdr) dc) (\<lambda>(r, dc1, m1).
             case r of None \<Rightarrow> Inr (None, dc1, m1)
             | Some h \<Rightarrow> bindR (rd8 m1 (h + 9)) (\<lambda>proto. bindR (rd8 m1 h) (\<lambda>b0.
                          Inr (Some (proto, ucast (ucast b0 :: 4 word) * 4), dc1, m1)))))"

definition ParsePacket ::
  "('s, 'p) dvlib \<Rightarrow> 's \<Rightarrow> bytes \<Rightarrow> 'p \<Rightarrow> addr \<Rightarrow> filterPktInfo \<Rightarrow> (filterPktInfo \<times> bytes) cres" where
  "ParsePacket lib s m pkt smallBuffer info =
     bindR (PktDirectRef lib s m pkt 0 (of_nat sizeof_Eth_Header) (DirectContextInit smallBuffer 128))
     (\<lambda>(r, dc, m1). case r of None \<Rightarrow> Inr (info, m1)
      | Some buf \<Rightarrow>
        bindR (EthHeaderType m1 buf) (\<lambda>ht.
        bindR (if ht = ETH_HEADER_TYPE_802_1PQ
               then bindR (load_tag m1 (buf + dix_off)) (\<lambda>tag.
                      Inr (info\<lparr>pi_vlanID := EthVlanTagGetVlanID tag,
                                pi_priority := ucast (priority tag)\<rparr>))
               else Inr info) (\<lambda>info1.
        bindR (EthEncapsulatedPktType m1 buf) (\<lambda>(ethtype, offset).
        let info2 = info1\<lparr>pi_ethtype := ethtype\<rparr> in
        if ethtype = ETH_TYPE_ARP_NBO then Inr (info2, m1)
        else if ethtype = ETH_TYPE_IPV4_NBO \<or> ethtype = ETH_TYPE_IPV6_NBO
        then bindR (parse_l3 lib s m1 pkt ethtype offset dc) (\<lambda>(l3, dc2, m2).
               case l3 of None \<Rightarrow> Inr (info2, m2)
               | Some (proto, nextHeaderOffset) \<Rightarrow>
                   let info3 = info2\<lparr>pi_protocol := proto\<rparr> in
                   if proto = IPPROTO_ICMP \<or> proto = IPPROTO_ICMPV6 then Inr (info3, m2)
                   else if proto = IPPROTO_UDP
                   then parse_ports lib s m2 pkt (offset + nextHeaderOffset) sizeof_UDPHdr dc2 info3
                   else if proto = IPPROTO_TCP
                   then parse_ports lib s m2 pkt (offset + nextHeaderOffset) sizeof_TCPHdr dc2 info3
                   else Inr (info3, m2))
        else Inr (info2, m1)))))"

definition FilterPacket :: "filterPktInfo \<Rightarrow> DVFilterDirection \<Rightarrow> filterState \<Rightarrow> filterAction" where
  "FilterPacket info direction state =
     (let proto = pi_protocol info in
      if pi_ethtype info = ETH_TYPE_ARP_NBO then NO_MATCH
      else if pi_ethtype info = ETH_TYPE_IPV4_NBO \<or> pi_ethtype info = ETH_TYPE_IPV6_NBO
      then if (proto = IPPROTO_ICMP \<or> proto = IPPROTO_ICMPV6) \<and> filterICMP state \<noteq> 0 then MATCH
           else if proto = IPPROTO_UDP \<and> filterUDPPortNBO state \<noteq> 0
           then if pi_srcPort info = filterUDPPortNBO state \<or> pi_dstPort info = filterUDPPortNBO state
                then MATCH else NO_MATCH
           else if proto = IPPROTO_TCP \<and> filterTCPPortNBO state \<noteq> 0
           then if pi_srcPort info = filterTCPPortNBO state \<or> pi_dstPort info = filterTCPPortNBO state
                then MATCH else NO_MATCH
           else NO_MATCH
      else NO_MATCH)"

end
