(* ===== verification/Dvf_Process.thy ===== *)
theory Dvf_Process
  imports Dvf_Packet
begin

text \<open>
  The rest of the packet path of \<open>netx_sample_service.c\<close>: port translation with the incremental
  checksum update and the packet callback, whose calls of \<open>ptrcb\<close>, \<open>DVFilter_SendPkt\<close> and
  \<open>DVFilter_FreePkt\<close> are recorded in order.
\<close>

section \<open>Port translation\<close>

text \<open>The checksum update, as the C code computes it: 16-bit complements added in 32 bits, folded
  twice, complemented and truncated.\<close>

definition fold_csum :: "u32 \<Rightarrow> u32" where
  "fold_csum c = (c AND 0xffff) + drop_bit 16 c"

definition napt_csum :: "u16 \<Rightarrow> u16 \<Rightarrow> u16 \<Rightarrow> u16" where
  "napt_csum check oldport newport =
     (let csum = ucast (NOT check) + (ucast newport + ucast (NOT oldport))
      in ucast (NOT (fold_csum (fold_csum csum))))"

definition rewrite_port ::
  "bytes \<Rightarrow> addr \<Rightarrow> u16 \<Rightarrow> DVFilterDirection \<Rightarrow> bool \<Rightarrow> bytes cres" where
  "rewrite_port m tcpHdr newport direction mustCsum =
     (let port = (if direction = DVFILTER_FROM_SWITCH then tcpHdr + 2 else tcpHdr)
      in bindR (ld16 m port) (\<lambda>oldport. bindR (st16 m port newport) (\<lambda>m1.
         if mustCsum then Inr m1
         else bindR (ld16 m1 (tcpHdr + 16)) (\<lambda>check.
                st16 m1 (tcpHdr + 16) (napt_csum check oldport newport)))))"

text \<open>The value \<open>(DVFilterStatus) NO_MATCH\<close> is \<open>DVFILTER_STATUS_OK\<close>, the first of either enumeration.\<close>

definition PerformNAPT ::
  "('s, 'p) dvlib \<Rightarrow> 's \<Rightarrow> bytes \<Rightarrow> 'p \<Rightarrow> addr \<Rightarrow> u16 \<Rightarrow> DVFilterDirection \<Rightarrow>
   (DVFilterStatus \<times> bytes) cres" where
  "PerformNAPT lib s m pkt lclBuf newport direction =
     (let frameLen = unat (ucast (DVFilter_GetPktLen lib s pkt) :: u16) in
      bindR (PktDirectRef lib s m pkt 0 (of_nat sizeof_Eth_Header) (DirectContextInit lclBuf 128))
      (\<lambda>(r, dc, m1). case r of None \<Rightarrow> Inr (DVFILTER_STATUS_OK, m1)
       | Some buf \<Rightarrow>
         bindR (EthEncapsulatedPktType m1 buf) (\<lambda>(ethtype, offset).
         if ethtype = ETH_TYPE_IPV4_NBO \<or> ethtype = ETH_TYPE_IPV6_NBO
         then bindR (parse_l3 lib s m1 pkt ethtype offset dc) (\<lambda>(l3, dc2, m2).
                case l3 of None \<Rightarrow> Inr (DVFILTER_STATUS_OK, m2)
                | Some (proto, nextHeaderOffset) \<Rightarrow>
                    let l3size = (if ethtype = ETH_TYPE_IPV6_NBO then sizeof_IPv6Hdr else sizeof_IPHdr) in
                    if frameLen < unat offset + l3size then Inr (DVFILTER_STATUS_ERROR, m2)
                    else if proto = IPPROTO_TCP
                    then if frameLen < unat (offset + nextHeaderOffset) + sizeof_TCPHdr
                         then Inr (DVFILTER_STATUS_ERROR, m2)
                         else bindR (PktDirectRef lib s m2 pkt (offset + nextHeaderOffset)
                                       (of_nat sizeof_TCPHdr) dc2) (\<lambda>(t, dc3, m3).
                              case t of None \<Rightarrow> Inl AssertFailed
                              | Some tcpHdr \<Rightarrow>
                                  bindR (rewrite_port m3 tcpHdr newport direction
                                           (DVFilter_IsMustCsum lib s pkt)) (\<lambda>m4.
                                  Inr (DVFILTER_STATUS_OK, m4)))
                    else Inr (DVFILTER_STATUS_ERROR, m2))
         else Inr (DVFILTER_STATUS_ERROR, m1))))"

section \<open>The packet callback\<close>

datatype 'p pkt_event =
    PacketCb PktMetadata u32
  | SendPkt ptr 'p DVFilterDirection
  | FreePkt 'p

record ('s, 'p) pkt_result =
  pr_lib :: 's
  pr_mem :: bytes
  pr_events :: "'p pkt_event list"

text \<open>The nine calls that set the copy's lengths, in order.\<close>

definition copy_resize ::
  "('s, 'p) dvlib \<Rightarrow> u32 \<Rightarrow> 'p \<times> 's \<times> bytes \<Rightarrow> 'p \<times> 's \<times> bytes" where
  "copy_resize lib frameLen st =
     (let pl = (\<lambda>n (p, s, m). DVFilter_SetPktLen lib s m p n);
          ml = (\<lambda>n (p, s, m). DVFilter_SetPktMetadataLen lib s m p n)
      in ml 0 (pl frameLen (ml 400 (ml 100 (ml 0 (pl (frameLen + 16000)
           (ml 200 (pl frameLen (pl (frameLen + 16000) st)))))))))"

text \<open>The copy branch: \<open>Inl\<close> when no copy could be allocated.\<close>

definition make_copy ::
  "nat \<Rightarrow> ('s, 'p) dvlib \<Rightarrow> 's \<Rightarrow> bytes \<Rightarrow> 'p \<Rightarrow>
   ((('s \<times> bytes) + ('p \<times> 's \<times> bytes)) cres) option" where
  "make_copy fuel lib s m pkt =
     (let frameLen = DVFilter_GetPktLen lib s pkt;
          (c, s1, m1) = DVFilter_AllocPkt lib s m (frameLen + 8000)
      in case c of None \<Rightarrow> Some (Inr (Inl (s1, m1)))
         | Some c0 \<Rightarrow>
           let (cp, s2, m2) = copy_resize lib frameLen (c0, s1, m1);
               s3 = (if DVFilter_IsMustTso lib s2 pkt
                     then DVFilter_SetMustTso lib s2 cp (DVFilter_GetTsoMss lib s2 pkt) else s2);
               s4 = (if DVFilter_IsMustCsum lib s3 pkt then DVFilter_SetMustCsum lib s3 cp else s3)
           in (case CopyPacket fuel lib s4 m2 cp pkt frameLen of
                 None \<Rightarrow> None
               | Some (Inl e) \<Rightarrow> Some (Inl e)
               | Some (Inr (status, m3)) \<Rightarrow>
                   if status \<noteq> DVFILTER_STATUS_OK then Some (Inl AssertFailed)
                   else Some (Inr (Inr (cp, s4, m3)))))"

text \<open>What happens to a packet that matched; \<open>pkt\<close> is the packet or its copy.\<close>

definition dispose_matched ::
  "('s, 'p) dvlib \<Rightarrow> 's \<Rightarrow> bytes \<Rightarrow> filter \<Rightarrow> 'p \<Rightarrow> addr \<Rightarrow> DVFilterDirection \<Rightarrow>
   (bytes \<times> 'p pkt_event) cres" where
  "dispose_matched lib s m f pkt lclBuf direction =
     (let state = f_state f; send_it = SendPkt (f_handle f) pkt direction in
      if reorderPackets state \<noteq> 0 then Inr (m, send_it)
      else if delayPacketsMs state \<noteq> 0 then Inr (m, send_it)
      else if copyPackets state \<noteq> 0 then Inr (m, send_it)
      else if dnaptPortNBO state \<noteq> 0
      then bindR (PerformNAPT lib s m pkt lclBuf (dnaptPortNBO state) direction) (\<lambda>(status, m').
             Inr (m', send_it))
      else Inr (m, FreePkt pkt))"

text \<open>\<open>fptr\<close> is the address of \<open>f\<close>.  \<open>calleeBuf\<close> is where the local buffer of \<open>ParsePacket\<close> or
  \<open>PerformNAPT\<close> lies; the two are never live together.\<close>

definition ProcessPacket ::
  "nat \<Rightarrow> ('s, 'p) dvlib \<Rightarrow> sAction \<Rightarrow> 's \<Rightarrow> bytes \<Rightarrow> addr \<Rightarrow> addr \<Rightarrow> addr \<Rightarrow> filter \<Rightarrow> 'p \<Rightarrow>
   DVFilterDirection \<Rightarrow> ('s, 'p) pkt_result cres option" where
  "ProcessPacket fuel lib g_action s m fptr smallBuffer calleeBuf f pkt direction =
     (if magic f \<noteq> FILTER_MAGIC then Some (Inl AssertFailed)
      else
        let state = f_state f; frameLen = ucast (DVFilter_GetPktLen lib s pkt) :: u16 in
        (case PktDirectRef lib s m pkt 0 (of_nat sizeof_Eth_Header) (DirectContextInit smallBuffer 128) of
           Inl e \<Rightarrow> Some (Inl e)
         | Inr (buf, dc, m1) \<Rightarrow>
           let cb = PacketCb \<lparr>pm_filterPtr = Some fptr, pm_pktPtr = buf,
                              pm_dir = direction_code direction\<rparr> (ucast frameLen);
               send_it = SendPkt (f_handle f) pkt direction
           in
           if g_action = ACTION_COPY
           then Some (Inr \<lparr>pr_lib = s, pr_mem = m1, pr_events = [cb, FreePkt pkt]\<rparr>)
           else if (direction = DVFILTER_TO_SWITCH \<and> filterToSwitch state \<noteq> 0) \<or>
                   (direction = DVFILTER_FROM_SWITCH \<and> filterFromSwitch state \<noteq> 0)
           then (case ParsePacket lib s m1 pkt calleeBuf pktInfo_zero of
                   Inl e \<Rightarrow> Some (Inl e)
                 | Inr (info, m2) \<Rightarrow>
                   if FilterPacket info direction state = NO_MATCH
                   then Some (Inr \<lparr>pr_lib = s, pr_mem = m2, pr_events = [cb, send_it]\<rparr>)
                   else if copyPackets state \<noteq> 0
                   then (case make_copy fuel lib s m2 pkt of
                           None \<Rightarrow> None
                         | Some (Inl e) \<Rightarrow> Some (Inl e)
                         | Some (Inr (Inl (s1, m3))) \<Rightarrow>
                             Some (Inr \<lparr>pr_lib = s1, pr_mem = m3, pr_events = [cb, FreePkt pkt]\<rparr>)
                         | Some (Inr (Inr (cp, s1, m3))) \<Rightarrow>
                             Some (bindR (dispose_matched lib s1 m3 f cp calleeBuf direction) (\<lambda>(m4, ev).
                               Inr \<lparr>pr_lib = s1, pr_mem = m4, pr_events = [cb, FreePkt pkt, ev]\<rparr>)))
                   else Some (bindR (dispose_matched lib s m2 f pkt calleeBuf direction) (\<lambda>(m3, ev).
                          Inr \<lparr>pr_lib = s, pr_mem = m3, pr_events = [cb, ev]\<rparr>)))
           else Some (Inr \<lparr>pr_lib = s, pr_mem = m1, pr_events = [cb, send_it]\<rparr>)))"

end
