(* ===== verification/Dvf_Napt.thy ===== *)
theory Dvf_Napt
  imports Dvf_Process
begin

text \<open>
  The incremental checksum of the port translation: it agrees with the one's complement sum, which
  is addition modulo 65535.
\<close>

section \<open>Checksum arithmetic\<close>

lemma uint_NOT_u16: "uint (NOT x :: u16) = 65535 - uint x"
proof -
  have u: "0 \<le> uint x" "uint x < 65536" using uint_lt2p [of x] by simp_all
  have "uint (NOT x) = (- uint x - 1) mod 65536"
    by (simp add: unsigned_not_eq take_bit_eq_mod not_int_def)
  also have "- uint x - 1 = (65535 - uint x) + 65536 * (- 1)" by simp
  also have "\<dots> mod 65536 = 65535 - uint x"
    unfolding mod_mult_self2 using u by (intro mod_pos_pos_trivial) linarith+
  finally show ?thesis .
qed

lemma uint_low16: "uint (c AND 0xffff :: u32) = uint c mod 65536"
proof -
  have "uint (c AND 0xffff) = uint c AND 65535" by (simp add: uint_and)
  also have "\<dots> = take_bit 16 (uint c)" by (simp add: take_bit_eq_mask mask_eq_exp_minus_1)
  finally show ?thesis by (simp add: take_bit_eq_mod)
qed

lemma uint_add_u32:
  fixes a b :: u32
  assumes "uint a + uint b < 4294967296"
  shows "uint (a + b) = uint a + uint b"
  using assms by (simp add: uint_plus_simple_iff [of a b, THEN iffD1] no_olen_add)

lemma uint_fold_csum: "uint (fold_csum c) = uint c mod 65536 + uint c div 65536"
proof -
  have d: "uint (drop_bit 16 c) = uint c div 65536"
    by (simp add: drop_bit_eq_div uint_div)
  have "uint c < 4294967296" using uint_lt2p [of c] by simp
  then have "uint c mod 65536 < 65536" "uint c div 65536 < 65536" by simp_all
  then show ?thesis
    unfolding fold_csum_def using uint_add_u32 [of "c AND 0xffff" "drop_bit 16 c"]
    by (simp add: uint_low16 d)
qed

lemma mod_65535_fold: "(x mod 65536 + x div 65536) mod 65535 = x mod (65535 :: int)"
proof -
  have "x = (x mod 65536 + x div 65536) + 65535 * (x div 65536)"
    using div_mult_mod_eq [of x 65536] by linarith
  then show ?thesis by (metis mod_mult_self2)
qed

lemma fold_twice_small:
  fixes x :: int
  assumes "0 \<le> x" and "x < 3 * 65536"
  shows "(x mod 65536 + x div 65536) mod 65536 + (x mod 65536 + x div 65536) div 65536 < 65536"
proof -
  define y where "y = x mod 65536 + x div 65536"
  have "x div 65536 < 3" using assms(2) by linarith
  moreover have "0 \<le> x div 65536" "0 \<le> x mod 65536" "x mod 65536 < 65536"
    using assms(1) by simp_all
  ultimately have y: "0 \<le> y" "y < 65538" unfolding y_def by linarith+
  show ?thesis
  proof (cases "y < 65536")
    case True
    with y show ?thesis by (simp add: y_def [symmetric])
  next
    case False
    then have "y mod 65536 = y - 65536" "y div 65536 = 1"
      using y int_mod_pos_eq [of y 65536 1 "y - 65536"] int_div_pos_eq [of y 65536 1 "y - 65536"] by simp_all
    with y show ?thesis by (simp add: y_def [symmetric])
  qed
qed

lemma uint_ucast_u16 [simp]: "uint (ucast (w :: u16) :: u32) = uint w"
  by (simp add: unsigned_ucast_eq take_bit_int_eq_self order_less_le_trans [OF uint_lt2p])

text \<open>The new checksum and the new port together weigh what the old ones did.\<close>

lemma napt_csum_sum:
  "(uint (napt_csum check oldport newport) + uint newport) mod 65535 =
   (uint check + uint oldport) mod 65535"
proof -
  define c :: u32 where "c = ucast (NOT check) + (ucast newport + ucast (NOT oldport))"
  have b: "uint check < 65536" "uint oldport < 65536" "uint newport < 65536"
    "0 \<le> uint check" "0 \<le> uint oldport" "0 \<le> uint newport"
    using uint_lt2p [of check] uint_lt2p [of oldport] uint_lt2p [of newport] by simp_all
  have "uint (ucast newport :: u32) + uint (ucast (NOT oldport) :: u32) < 4294967296"
    unfolding uint_ucast_u16 uint_NOT_u16 using b by linarith
  from uint_add_u32 [OF this]
  have n: "uint (ucast newport + ucast (NOT oldport) :: u32) = uint newport + 65535 - uint oldport"
    by (simp add: uint_NOT_u16)
  have "uint (ucast (NOT check) :: u32) + uint (ucast newport + ucast (NOT oldport) :: u32) < 4294967296"
    unfolding uint_ucast_u16 uint_NOT_u16 n using b by linarith
  from uint_add_u32 [OF this]
  have c: "uint c = (65535 - uint check) + (uint newport + 65535 - uint oldport)"
    unfolding c_def by (simp add: uint_NOT_u16 n)
  define r where "r = uint (fold_csum (fold_csum c))"
  have r: "r = (uint c mod 65536 + uint c div 65536) mod 65536 +
               (uint c mod 65536 + uint c div 65536) div 65536"
    by (simp add: r_def uint_fold_csum)
  have "uint c < 3 * 65536" unfolding c using b by linarith
  then have small: "0 \<le> r" "r < 65536"
    using fold_twice_small [of "uint c"] by (simp_all only: r [symmetric] uint_ge_0, simp add: r_def)
  have rm: "r mod 65535 = uint c mod 65535" by (simp add: r mod_65535_fold)
  have "uint (napt_csum check oldport newport) = 65535 - r"
  proof -
    have "napt_csum check oldport newport = ucast (NOT (fold_csum (fold_csum c)))"
      by (simp add: napt_csum_def c_def Let_def)
    also have "\<dots> = NOT (ucast (fold_csum (fold_csum c)))"
      by (rule bit_word_eqI) (simp add: bit_simps)
    finally have "uint (napt_csum check oldport newport) = 65535 - uint (ucast (fold_csum (fold_csum c)) :: u16)"
      by (simp add: uint_NOT_u16)
    also have "uint (ucast (fold_csum (fold_csum c)) :: u16) = r"
      using small by (simp add: unsigned_ucast_eq r_def take_bit_int_eq_self)
    finally show ?thesis .
  qed
  moreover have "(65535 - r + uint newport) mod 65535 = (uint check + uint oldport) mod 65535"
  proof -
    have "(65535 + uint newport - r) mod 65535 = (65535 + uint newport - uint c) mod 65535"
      using rm by (intro mod_diff_cong) simp_all
    also have "65535 + uint newport - uint c = uint check + uint oldport - 65535" using c by simp
    also have "\<dots> mod 65535 = (uint check + uint oldport) mod 65535" by (rule minus_mod_self2)
    finally show ?thesis by (simp add: algebra_simps)
  qed
  ultimately show ?thesis by simp
qed

end
