(* ===== verification/Dvf_Copy.thy ===== *)
theory Dvf_Copy
  imports Dvf_Napt
begin

text \<open>Copying out of fragmented packets, the direct context, and what becomes of a packet.\<close>

section \<open>Copying packet data\<close>

lemma put_put:
  assumes "d + length xs + length ys \<le> length m"
  shows "put (put m d xs) (d + length xs) ys = put m d (xs @ ys)"
  using assms by (intro nth_equalityI) (auto simp: nth_put nth_append)

lemma put_Nil [simp]: "put m d [] = m"
  by (simp add: put_def)

lemma frags_avoid_sub:
  "frags_avoid fs d k \<Longrightarrow> d \<le> d' \<Longrightarrow> d' + k' \<le> d + k \<Longrightarrow> frags_avoid fs d' k'"
  unfolding frags_avoid_def by fastforce

lemma CopyPacketData_loop_copies:
  fixes lib :: "('s, 'p) dvlib"
  assumes "lib_frags lib s p fs" and "frags_len fs < 2 ^ 32"
    and "frags_in m fs" and "frags_avoid fs dst (unat k)" and "dst + unat k \<le> length m"
    and "unat off + unat k \<le> frags_len fs"
  shows "CopyPacketData_loop lib s p m dst off k =
         Inr (DVFILTER_STATUS_OK, put m dst (take (unat k) (drop (unat off) (frags_data m fs))))"
  using assms(3-6)
proof (induction "unat k" arbitrary: k m dst off rule: less_induct)
  case less
  show ?case
  proof (cases "k = 0")
    case True
    then show ?thesis by (simp add: CopyPacketData_loop.simps)
  next
    case False
    then have k: "0 < unat k" by (simp add: unat_gt_0)
    with less.prems(4) have "unat off < frags_len fs" by linarith
    with frag_range_found [OF less.prems(1)] obtain a n
      where f: "frag_range fs (unat off) 0 = Some (a, n)" by (metis not_None_eq surj_pair)
    note fr = frag_range_ok [OF less.prems(1) f]
    define mv :: u32 where "mv = (if of_nat n > k then k else of_nat n)"
    have n: "unat (of_nat n :: u32) = n"
      using fr assms(2) by (simp add: unsigned_of_nat take_bit_nat_eq_self_iff)
    then have mv: "unat mv = min n (unat k)"
      by (auto simp: mv_def word_less_nat_alt min_def)
    with fr k have pos: "0 < unat mv" "mv \<noteq> 0" by auto
    define bs where "bs = take (unat mv) (drop (unat off) (frags_data m fs))"
    have bs: "take (unat mv) (drop a m) = bs"
    proof -
      have "take (unat mv) (take n (drop a m)) =
            take (unat mv) (take n (drop (unat off) (frags_data m fs)))" using fr by simp
      then show ?thesis unfolding bs_def by (simp add: mv min.commute min.left_commute)
    qed
    have len: "length bs = unat mv"
      using fr mv less.prems(1) unfolding bs_def by (auto simp: length_frags_data min_def)
    have cp: "memcpy m dst a (unat mv) = Inr (put m dst bs)"
      using fr mv less.prems(3) unfolding memcpy_Inr bs by (auto simp: min_def)
    have le: "unat mv \<le> unat k" by (simp add: mv)
    then have sub: "unat (k - mv) = unat k - unat mv" by (simp add: unat_sub word_le_nat_alt)
    have off: "unat (off + mv) = unat off + unat mv"
      using le less.prems(4) assms(2) by (subst unat_add_lem [THEN iffD1]) simp_all
    have data: "frags_data (put m dst bs) fs = frags_data m fs"
      using less.prems(2,3) le len by (intro frags_data_put) (auto elim: frags_avoid_sub)
    have "CopyPacketData_loop lib s p (put m dst bs) (dst + unat mv) (off + mv) (k - mv) =
      Inr (DVFILTER_STATUS_OK, put (put m dst bs) (dst + unat mv)
        (take (unat (k - mv)) (drop (unat (off + mv)) (frags_data (put m dst bs) fs))))"
    proof (rule less.hyps)
      show "unat (k - mv) < unat k" using sub pos le by linarith
      show "frags_in (put m dst bs) fs" using less.prems(1,3) le len by (simp add: frags_in_def)
      show "frags_avoid fs (dst + unat mv) (unat (k - mv))"
        using less.prems(2) le sub by (auto elim: frags_avoid_sub)
      show "dst + unat mv + unat (k - mv) \<le> length (put m dst bs)"
        using less.prems(3) le len sub by simp
      show "unat (off + mv) + unat (k - mv) \<le> frags_len fs" using off sub le less.prems(4) by simp
    qed
    also have "put (put m dst bs) (dst + unat mv)
        (take (unat (k - mv)) (drop (unat (off + mv)) (frags_data (put m dst bs) fs))) =
      put m dst (take (unat k) (drop (unat off) (frags_data m fs)))"
      using take_drop_take_append [of "unat mv" "unat off" "frags_data m fs" "unat k - unat mv"]
        put_put [of dst bs "take (unat k - unat mv) (drop (unat off + unat mv) (frags_data m fs))" m]
        less.prems(3) le len
      by (simp add: data off sub bs_def [symmetric])
    finally show ?thesis
      using False pos assms(1) f cp
      by (subst CopyPacketData_loop.simps) (simp add: lib_frags_def mv_def [symmetric] Let_def)
  qed
qed

text \<open>A sample: one packet in two fragments, at 10 and at 4.\<close>

definition frags_sample :: frags where
  "frags_sample = [(10, 3), (4, 2)]"

definition lib_of :: "frags \<Rightarrow> (unit, unit) dvlib" where
  "lib_of fs = \<lparr>DVFilter_GetPktLen = (\<lambda>_ _. of_nat (frags_len fs)),
     DVFilter_GetPktFragDirectRange = (\<lambda>_ _ off len.
        map_option (\<lambda>(a, n). (a, of_nat n)) (frag_range fs (unat off) (unat len))),
     DVFilter_GetPktFragAddressAndLength = (\<lambda>_ _ i. if unat i < length fs
        then (DVFILTER_STATUS_OK, Some (fst (fs ! unat i)), of_nat (snd (fs ! unat i)))
        else (DVFILTER_STATUS_ERROR, None, 0)),
     DVFilter_IsMustCsum = (\<lambda>_ _. False), DVFilter_IsMustTso = (\<lambda>_ _. False),
     DVFilter_GetTsoMss = (\<lambda>_ _. 0), DVFilter_AllocPkt = (\<lambda>_ m _. (None, (), m)),
     DVFilter_SetPktLen = (\<lambda>_ m p _. (p, (), m)),
     DVFilter_SetPktMetadataLen = (\<lambda>_ m p _. (p, (), m)),
     DVFilter_SetMustTso = (\<lambda>_ _ _. ()), DVFilter_SetMustCsum = (\<lambda>_ _. ())\<rparr>"

lemma lib_of_frags: "frags_len fs < 2 ^ 32 \<Longrightarrow> lib_frags (lib_of fs) () () fs"
  by (simp add: lib_frags_def lib_of_def unsigned_of_nat take_bit_nat_eq_self_iff)

text \<open>\<open>CopyPacketData\<close> copies out of a fragmented packet exactly the requested bytes, whatever the
  fragment boundaries, or everything from the offset on when the length is 0; it changes no other
  memory, always ends and never fails an assertion.  The library is only assumed to describe the
  packet's fragments as its header documents, the destination to lie outside of them.\<close>

lemma CopyPacketData_copies:
  fixes lib :: "('s, 'p) dvlib"
  assumes "lib_frags lib s p fs" and "frags_len fs < 2 ^ 32" and "frags_in m fs"
    and "n = (if k = 0 then frags_len fs - unat off else unat k)"
    and "unat off + n \<le> frags_len fs" and "dst + n \<le> length m" and "frags_avoid fs dst n"
  shows "CopyPacketData lib s m dst p off k =
         Inr (DVFILTER_STATUS_OK, put m dst (take n (drop (unat off) (frags_data m fs))))"
proof -
  let ?k = "if k = 0 then DVFilter_GetPktLen lib s p - off else k"
  have "unat (DVFilter_GetPktLen lib s p) = frags_len fs" using assms(1) by (simp add: lib_frags_def)
  then have "unat ?k = n"
    using assms(4,5) by (auto simp: unat_sub word_le_nat_alt)
  with CopyPacketData_loop_copies [OF assms(1-3), of dst ?k off] assms(5-7)
  show ?thesis by (simp add: CopyPacketData_def)
qed

lemma CopyPacketData_copies_witness:
  "CopyPacketData (lib_of frags_sample) () [0, 0, 0, 0, 44, 55, 0, 0, 0, 0, 11, 22, 33] 0 () 1 3 =
   Inr (DVFILTER_STATUS_OK, [22, 33, 44, 0, 44, 55, 0, 0, 0, 0, 11, 22, 33])"
proof -
  have "CopyPacketData (lib_of frags_sample) () [0, 0, 0, 0, 44, 55, 0, 0, 0, 0, 11, 22, 33] 0 () 1 3 =
    Inr (DVFILTER_STATUS_OK, put [0, 0, 0, 0, 44, 55, 0, 0, 0, 0, 11, 22, 33] 0
      (take 3 (drop (unat (1 :: u32)) (frags_data [0, 0, 0, 0, 44, 55, 0, 0, 0, 0, 11, 22, 33] frags_sample))))"
    by (rule CopyPacketData_copies)
      (simp_all add: lib_of_frags frags_sample_def frags_len_def frags_in_def frags_avoid_def)
  then show ?thesis by (simp add: frags_sample_def frags_data_def put_def)
qed

end
