(* ===== verification/Dvf_CopyPacket.thy ===== *)
theory Dvf_CopyPacket
  imports Dvf_Copy
begin

text \<open>
  Copying between two packets with different fragments.  The loop of \<open>CopyPacket\<close> walks over both
  fragment lists at once; \<open>rem\<close> is what is left of one of them and \<open>frags_put\<close> the abstract operation,
  writing a byte string across fragments.
\<close>

section \<open>Writing across fragments\<close>

fun frags_put :: "bytes \<Rightarrow> frags \<Rightarrow> bytes \<Rightarrow> bytes" where
  "frags_put m [] ds = m"
| "frags_put m ((a, n) # fs) ds = frags_put (put m a (take n ds)) fs (drop n ds)"

definition apart :: "frags \<Rightarrow> frags \<Rightarrow> bool" where
  "apart fs gs \<longleftrightarrow> (\<forall>(b, k) \<in> set gs. frags_avoid fs b k)"

definition disjoint_frags :: "frags \<Rightarrow> bool" where
  "disjoint_frags fs \<longleftrightarrow> sorted_wrt (\<lambda>(a, n) (b, k). a + n \<le> b \<or> b + k \<le> a) fs"

lemma frags_put_Nil [simp]: "frags_put m fs [] = m"
  by (induction fs) auto

lemma frags_data_Cons: "frags_data m ((a, n) # fs) = take n (drop a m) @ frags_data m fs"
  by (simp add: frags_data_def)

lemma frags_len_Cons [simp]: "frags_len [] = 0" "frags_len ((a, n) # fs) = n + frags_len fs"
  by (simp_all add: frags_len_def)

lemma frags_in_Cons [simp]:
  "frags_in m [] \<longleftrightarrow> True" "frags_in m ((a, n) # fs) \<longleftrightarrow> 0 < n \<and> a + n \<le> length m \<and> frags_in m fs"
  by (simp_all add: frags_in_def)

lemma apart_Cons [simp]:
  "apart fs [] \<longleftrightarrow> True" "apart [] gs \<longleftrightarrow> True" "apart fs ((b, k) # gs) \<longleftrightarrow> frags_avoid fs b k \<and> apart fs gs"
  by (auto simp: apart_def frags_avoid_def)

lemma frags_avoid_Cons [simp]:
  "frags_avoid ((a, n) # fs) d k \<longleftrightarrow> (a + n \<le> d \<or> d + k \<le> a) \<and> frags_avoid fs d k"
  by (simp add: frags_avoid_def)

lemma apart_ConsL: "apart ((a, n) # fs) gs \<longleftrightarrow> apart [(a, n)] gs \<and> apart fs gs"
  by (auto simp: apart_def frags_avoid_def)

lemma apart_part: "apart [(a, n)] gs \<Longrightarrow> a \<le> a' \<Longrightarrow> a' + n' \<le> a + n \<Longrightarrow> apart [(a', n')] gs"
  unfolding apart_def frags_avoid_def by fastforce

lemma frags_in_put: "a + length bs \<le> length m \<Longrightarrow> frags_in (put m a bs) fs \<longleftrightarrow> frags_in m fs"
  by (simp add: frags_in_def)

lemma length_frags_put [simp]: "frags_in m fs \<Longrightarrow> length (frags_put m fs ds) = length m"
proof (induction fs arbitrary: m ds)
  case (Cons f fs)
  obtain a n where f: "f = (a, n)" by fastforce
  have b: "a + length (take n ds) \<le> length m" using Cons.prems f by auto
  with Cons.IH [of "put m a (take n ds)"] Cons.prems f show ?case by (simp add: frags_in_put [OF b])
qed simp

text \<open>The bytes outside of the fragments stay, those inside become the data.\<close>

lemma frags_put_outside:
  assumes "frags_in m fs" and "x < length m" and "\<forall>(b, k) \<in> set fs. x < b \<or> b + k \<le> x"
  shows "frags_put m fs ds ! x = m ! x"
  using assms
proof (induction fs arbitrary: m ds)
  case (Cons f fs)
  obtain a n where f: "f = (a, n)" by fastforce
  have b: "a + length (take n ds) \<le> length m" using Cons.prems f by auto
  have "put m a (take n ds) ! x = m ! x" using Cons.prems f b by (auto simp: nth_put)
  with Cons.IH [of "put m a (take n ds)"] Cons.prems f b show ?case by (simp add: frags_in_put [OF b])
qed simp

lemma take_frags_put_avoid:
  assumes "frags_in m fs" and "\<forall>(b, k) \<in> set fs. a + n \<le> b \<or> b + k \<le> a"
  shows "take n (drop a (frags_put m fs ds)) = take n (drop a m)"
proof (rule nth_equalityI)
  fix i
  assume "i < length (take n (drop a (frags_put m fs ds)))"
  then have i: "i < n" "a + i < length m" using assms(1) by auto
  have "\<forall>(b, k) \<in> set fs. a + i < b \<or> b + k \<le> a + i" using assms(2) i(1) by fastforce
  with frags_put_outside [OF assms(1) i(2)] i
  show "take n (drop a (frags_put m fs ds)) ! i = take n (drop a m) ! i" using assms(1) by simp
qed (use assms(1) in simp)

lemma take_drop_put_start:
  assumes "a + n \<le> length m" and "length bs \<le> n"
  shows "take n (drop a (put m a bs)) = bs @ drop (length bs) (take n (drop a m))"
  using assms by (simp add: put_def min_absorb2 drop_take add.commute)

lemma frags_put_data:
  assumes "frags_in m fs" and "disjoint_frags fs" and "length ds \<le> frags_len fs"
  shows "take (length ds) (frags_data (frags_put m fs ds) fs) = ds"
  using assms
proof (induction fs arbitrary: m ds)
  case (Cons f fs)
  obtain a n where f: "f = (a, n)" by fastforce
  let ?m = "put m a (take n ds)"
  have b: "a + length (take n ds) \<le> length m" using Cons.prems f by auto
  have in': "frags_in ?m fs" using Cons.prems f by (simp add: frags_in_put [OF b])
  have "take n (drop a (frags_put ?m fs (drop n ds))) = take n (drop a ?m)"
    using in' Cons.prems(2) f by (intro take_frags_put_avoid) (auto simp: disjoint_frags_def)
  also have "\<dots> = take n ds @ drop (length (take n ds)) (take n (drop a m))"
    using Cons.prems f by (intro take_drop_put_start) auto
  finally have first: "take n (drop a (frags_put ?m fs (drop n ds))) =
    take n ds @ drop (length (take n ds)) (take n (drop a m))" .
  have len: "length (take n (drop a m)) = n" using Cons.prems f by auto
  show ?case
  proof (cases "length ds \<le> n")
    case True
    with first f len show ?thesis by (simp add: frags_data_Cons)
  next
    case False
    have "take (length (drop n ds)) (frags_data (frags_put ?m fs (drop n ds)) fs) = drop n ds"
      using Cons.prems f in' by (intro Cons.IH) (auto simp: disjoint_frags_def)
    with False first f len show ?thesis by (simp add: frags_data_Cons)
  qed
qed simp

section \<open>The loop of \<open>CopyPacket\<close>\<close>

definition rem :: "copy_side \<Rightarrow> frags \<Rightarrow> frags" where
  "rem c fs = (if cs_len c = 0 then [] else [(the (cs_data c), unat (cs_len c))]) @ drop (unat (cs_ndx c)) fs"

definition side_ok :: "copy_side \<Rightarrow> bool" where
  "side_ok c \<longleftrightarrow> cs_len c = 0 \<or> cs_data c \<noteq> None"

lemma length_le_frags_len: "frags_in m fs \<Longrightarrow> length fs \<le> frags_len fs"
  by (induction fs) auto

lemma frag_le_frags_len: "(a, n) \<in> set fs \<Longrightarrow> n \<le> frags_len fs"
  by (induction fs) auto

lemma next_frag_rem:
  assumes lib: "lib_frags lib s p fs" and b: "frags_len fs < 2 ^ 32" and fin: "frags_in m fs"
    and ok: "side_ok c" and r: "rem c fs = (a, l) # rest"
  shows "\<exists>c1. next_frag lib s p c = Inr c1 \<and> cs_data c1 = Some a \<and> unat (cs_len c1) = l \<and>
    drop (unat (cs_ndx c1)) fs = rest"
proof (cases "cs_len c = 0")
  case False
  with ok r show ?thesis by (auto simp: rem_def side_ok_def next_frag_def)
next
  case True
  let ?i = "unat (cs_ndx c)"
  have d: "drop ?i fs = (a, l) # rest" using True r by (simp add: rem_def)
  then have i: "?i < length fs" by (metis drop_eq_Nil linorder_not_less list.distinct(1))
  then have f: "fs ! ?i = (a, l)" "drop (Suc ?i) fs = rest"
    using d Cons_nth_drop_Suc [OF i] by simp_all
  have "?i + 1 < 2 ^ 32" using i length_le_frags_len [OF fin] b by linarith
  then have ndx: "unat (cs_ndx c + 1) = Suc ?i" using unat_add_lem [of "cs_ndx c" 1] by simp
  have "l < 2 ^ 32" using f(1) i frag_le_frags_len [of a l fs] b by (metis nth_mem order_le_less_trans)
  then have "unat (of_nat l :: u32) = l" by (simp add: unsigned_of_nat take_bit_nat_eq_self_iff)
  with True lib i f ndx show ?thesis by (simp add: next_frag_def lib_frags_def)
qed

lemma advance_rem:
  assumes "cs_data c = Some a" and "mv \<le> cs_len c"
  shows "side_ok (advance mv c) \<and> rem (advance mv c) fs =
    (if unat (cs_len c) = unat mv then [] else [(a + unat mv, unat (cs_len c) - unat mv)]) @ drop (unat (cs_ndx c)) fs"
proof -
  have "unat (cs_len c - mv) = unat (cs_len c) - unat mv" using assms(2) by (simp add: unat_sub word_le_nat_alt)
  moreover have "cs_len c - mv = 0 \<longleftrightarrow> unat (cs_len c) = unat mv" by (metis right_minus_eq unsigned_word_eqI)
  ultimately show ?thesis using assms(1) by (simp add: rem_def side_ok_def advance_def)
qed

text \<open>One round on the abstract level, for the two ways the shorter fragment can lie.\<close>

lemma frags_put_step_src:
  assumes "l \<le> k" and "b + k \<le> length m" and "length D = l"
  shows "frags_put m ((b, k) # T) (D @ R) = frags_put (put m b D) ((if k = l then [] else [(b + l, k - l)]) @ T) R"
proof -
  have "length (take (k - l) R) \<le> k - l" by simp
  then have "b + length D + length (take (k - l) R) \<le> length m" using assms by linarith
  from put_put [OF this] assms show ?thesis by simp
qed

definition left :: "nat \<Rightarrow> nat \<Rightarrow> nat \<Rightarrow> frags" where
  "left a l d = (if l = d then [] else [(a + d, l - d)])"

lemma frags_put_step:
  assumes "a + l \<le> length m" and "b + n \<le> length m" and "frags_avoid ((a, l) # S) b n"
  shows "let m' = put m b (take (min l n) (drop a m)) in
    frags_put m' (left b n (min l n) @ T) (frags_data m' (left a l (min l n) @ S)) =
    frags_put m ((b, n) # T) (frags_data m ((a, l) # S))"
proof -
  define m' where "m' = put m b (take (min l n) (drop a m))"
  have len: "length (take (min l n) (drop a m)) = min l n" using assms(1) by simp
  have "frags_avoid S b (length (take (min l n) (drop a m)))"
    using assms(3) unfolding len by (auto elim: frags_avoid_sub)
  then have S: "frags_data m' S = frags_data m S"
    unfolding m'_def using assms(2) len by (intro frags_data_put) auto
  have "frags_put m' (left b n (min l n) @ T) (frags_data m' (left a l (min l n) @ S)) =
    frags_put m ((b, n) # T) (frags_data m ((a, l) # S))"
  proof (cases "l \<le> n")
    case True
    then have "frags_data m' (left a l (min l n) @ S) = frags_data m S" using S by (simp add: left_def)
    moreover have "length (take l (drop a m)) = l" and m': "m' = put m b (take l (drop a m))"
      using True assms(1) by (simp_all add: m'_def)
    then have "frags_put m ((b, n) # T) (frags_data m ((a, l) # S)) = frags_put m' (left b n l @ T) (frags_data m S)"
      using frags_put_step_src [OF True assms(2), of "take l (drop a m)" T "frags_data m S"]
      unfolding frags_data_Cons left_def by metis
    ultimately show ?thesis using True by simp
  next
    case False
    have "take (l - n) (drop (a + n) m') = take (l - n) (drop (a + n) m)"
      unfolding m'_def using assms False by (intro take_drop_put_avoid) auto
    also have "\<dots> = drop n (take l (drop a m))" by (simp add: drop_take add.commute)
    finally have "frags_data m' (left a l (min l n) @ S) = drop n (take l (drop a m)) @ frags_data m S"
      using False S by (simp add: left_def frags_data_Cons)
    moreover have "take n (take l (drop a m) @ frags_data m S) = take n (drop a m)"
      using False assms(1) by (auto simp: min_def)
    ultimately show ?thesis using False assms(1) by (simp add: left_def frags_data_Cons m'_def)
  qed
  then show ?thesis by (simp add: m'_def)
qed

lemma apart_step:
  assumes "apart ((a, l) # S) ((b, n) # T)" and "d \<le> l" and "d \<le> n"
  shows "apart (left a l d @ S) (left b n d @ T)"
  using assms unfolding left_def apart_def frags_avoid_def by (auto; fastforce)

lemma frags_left:
  assumes "d \<le> l" and "a + l \<le> length m"
  shows "frags_len (left a l d @ S) = frags_len ((a, l) # S) - d" "frags_in m (left a l d @ S) \<longleftrightarrow> frags_in m S"
    "length (left a l d @ S) = of_bool (d < l) + length S"
  using assms by (auto simp: left_def)

text \<open>The loop writes what is left of the source across what is left of the destination.\<close>

lemma CopyPacket_loop_copies:
  fixes lib :: "('s, 'p) dvlib"
  assumes lib: "lib_frags lib s src sfs" "lib_frags lib s dst dfs"
    and b: "frags_len sfs < 2 ^ 32" "frags_len dfs < 2 ^ 32"
    and "frags_in m sfs" "frags_in m dfs"
    and "side_ok sc" "side_ok dc" and "rem sc sfs = S" "rem dc dfs = T"
    and "frags_in m S" "frags_in m T" and "apart S T"
    and "frags_len S \<le> frags_len T" and "unat k = frags_len S" and "length S + length T < fuel"
  shows "CopyPacket_loop fuel lib s dst src m sc dc k =
    Some (Inr (DVFILTER_STATUS_OK, frags_put m T (frags_data m S)))"
  using assms(5-)
proof (induction fuel arbitrary: m sc dc S T k)
  case (Suc fuel)
  show ?case
  proof (cases S)
    case Nil
    with Suc.prems show ?thesis by (simp add: frags_data_def unat_eq_0)
  next
    case (Cons sf S')
    obtain a l where sf: "sf = (a, l)" by fastforce
    have l: "0 < l" "a + l \<le> length m" "frags_in m S'" using Suc.prems(7) Cons sf by simp_all
    then have "T \<noteq> []" and k0: "k \<noteq> 0" using Suc.prems(10,11) Cons sf by auto
    then obtain b n T' where T: "T = (b, n) # T'" by (metis list.exhaust surj_pair)
    have n: "0 < n" "b + n \<le> length m" "frags_in m T'" using Suc.prems(8) T by simp_all
    obtain sc1 where sc1: "next_frag lib s src sc = Inr sc1" "cs_data sc1 = Some a" "unat (cs_len sc1) = l"
      "drop (unat (cs_ndx sc1)) sfs = S'"
      using next_frag_rem [OF lib(1) b(1) Suc.prems(1,3)] Suc.prems(5) Cons sf by metis
    obtain dc1 where dc1: "next_frag lib s dst dc = Inr dc1" "cs_data dc1 = Some b" "unat (cs_len dc1) = n"
      "drop (unat (cs_ndx dc1)) dfs = T'"
      using next_frag_rem [OF lib(2) b(2) Suc.prems(2,4)] Suc.prems(6) T by metis
    define mv where "mv = (if cs_len sc1 > cs_len dc1 then cs_len dc1 else cs_len sc1)"
    have mv: "unat mv = min l n" "mv \<le> cs_len sc1" "mv \<le> cs_len dc1"
      using sc1(3) dc1(3) by (auto simp: mv_def word_less_nat_alt word_le_nat_alt)
    then have mv0: "mv \<noteq> 0" using l(1) n(1) by auto
    let ?D = "take l (drop a m)" and ?R = "frags_data m S'"
    let ?m = "put m b (take (unat mv) (drop a m))"
    have cp: "memcpy m b a (unat mv) = Inr ?m" using l n mv by (auto simp: memcpy_Inr min_def)
    have len: "length (take (unat mv) (drop a m)) = unat mv" using l mv by simp
    have bl: "b + length (take (unat mv) (drop a m)) \<le> length m" using len n mv by simp
    let ?S = "left a l (unat mv) @ S'" and ?T = "left b n (unat mv) @ T'"
    have S: "side_ok (advance mv sc1)" "rem (advance mv sc1) sfs = ?S"
      using advance_rem [OF sc1(2) mv(2)] sc1(3,4) by (simp_all add: left_def)
    have T1: "side_ok (advance mv dc1)" "rem (advance mv dc1) dfs = ?T"
      using advance_rem [OF dc1(2) mv(3)] dc1(3,4) by (simp_all add: left_def)
    have le: "unat mv \<le> l" "unat mv \<le> n" using mv(1) by simp_all
    note fl = frags_left [OF le(1) l(2)] frags_left [OF le(2) n(2)]
    have inS: "frags_in ?m ?S" and inT: "frags_in ?m ?T"
      unfolding frags_in_put [OF bl] using l n fl by simp_all
    have ap: "apart ((a, l) # S') ((b, n) # T')" using Suc.prems(9) Cons sf T by simp
    have kS: "unat k = frags_len ((a, l) # S')" using Suc.prems(11) Cons sf by simp
    then have klen: "unat (k - mv) = frags_len ?S"
      using le fl(1) by (simp add: unat_sub word_le_nat_alt)
    have "CopyPacket_loop fuel lib s dst src ?m (advance mv sc1) (advance mv dc1) (k - mv) =
        Some (Inr (DVFILTER_STATUS_OK, frags_put ?m ?T (frags_data ?m ?S)))"
    proof (rule Suc.IH [OF _ _ S(1) T1(1) S(2) T1(2) inS inT apart_step [OF ap le] _ klen])
      show "frags_in ?m sfs" "frags_in ?m dfs" using Suc.prems(1,2) by (simp_all add: frags_in_put [OF bl])
      show "frags_len ?S \<le> frags_len ?T" using Suc.prems(10) Cons sf T fl by simp
      show "length ?S + length ?T < fuel" using Suc.prems(12) Cons sf T mv(1) fl by (auto simp: min_def)
    qed
    also have "frags_put ?m ?T (frags_data ?m ?S) = frags_put m T (frags_data m S)"
      using frags_put_step [OF l(2) n(2), of S' T'] ap Cons sf T by (simp add: mv(1) Let_def)
    finally show ?thesis
      using k0 sc1 dc1 mv0 cp by (simp add: mv_def [symmetric] Let_def)
  qed
qed simp

text \<open>A sample: two packets of five bytes, in fragments of three and two and of one and four bytes.\<close>

definition two_frags :: "bool \<Rightarrow> frags" where
  "two_frags dst = (if dst then [(0, 1), (2, 4)] else [(10, 3), (7, 2)])"

definition two_lib :: "(unit, bool) dvlib" where
  "two_lib = \<lparr>DVFilter_GetPktLen = (\<lambda>_ p. of_nat (frags_len (two_frags p))),
     DVFilter_GetPktFragDirectRange = (\<lambda>_ p off len.
        map_option (\<lambda>(a, n). (a, of_nat n)) (frag_range (two_frags p) (unat off) (unat len))),
     DVFilter_GetPktFragAddressAndLength = (\<lambda>_ p i. if unat i < length (two_frags p)
        then (DVFILTER_STATUS_OK, Some (fst (two_frags p ! unat i)), of_nat (snd (two_frags p ! unat i)))
        else (DVFILTER_STATUS_ERROR, None, 0)),
     DVFilter_IsMustCsum = (\<lambda>_ _. False), DVFilter_IsMustTso = (\<lambda>_ _. False),
     DVFilter_GetTsoMss = (\<lambda>_ _. 0), DVFilter_AllocPkt = (\<lambda>_ m _. (None, (), m)),
     DVFilter_SetPktLen = (\<lambda>_ m p _. (p, (), m)), DVFilter_SetPktMetadataLen = (\<lambda>_ m p _. (p, (), m)),
     DVFilter_SetMustTso = (\<lambda>_ _ _. ()), DVFilter_SetMustCsum = (\<lambda>_ _. ())\<rparr>"

lemma two_lib_frags: "lib_frags two_lib () p (two_frags p)"
  by (cases p) (simp_all add: lib_frags_def two_lib_def two_frags_def frags_len_def)

text \<open>C22 \<open>CopyPacket\<close> copies a whole packet into another one however the two are fragmented: it ends within
  one round per fragment, returns success, and afterwards the destination's fragments hold the
  source's bytes in order; memory outside of the destination's fragments is unchanged and no assertion
  fails.  The library is only assumed to describe both packets' fragments as its header
  documents, and the fragments not to overlap.\<close>

theorem CopyPacket_copies:
  fixes lib :: "('s, 'p) dvlib"
  assumes "lib_frags lib s src sfs" and "lib_frags lib s dst dfs"
    and "frags_len sfs < 2 ^ 32" and "frags_len dfs < 2 ^ 32" and "frags_len sfs \<le> frags_len dfs"
    and "frags_in m sfs" and "frags_in m dfs" and "apart sfs dfs" and "disjoint_frags dfs"
    and "k = 0 \<or> unat k = frags_len sfs" and "length sfs + length dfs < fuel"
  shows "\<exists>m'. CopyPacket fuel lib s m dst src k = Some (Inr (DVFILTER_STATUS_OK, m')) \<and>
    take (frags_len sfs) (frags_data m' dfs) = frags_data m sfs \<and> length m' = length m \<and>
    (\<forall>x < length m. (\<forall>(b, n) \<in> set dfs. x < b \<or> b + n \<le> x) \<longrightarrow> m' ! x = m ! x)"
proof -
  let ?side = "\<lparr>cs_ndx = 0, cs_data = None, cs_len = 0\<rparr>" and ?m = "frags_put m dfs (frags_data m sfs)"
  have len: "unat (DVFilter_GetPktLen lib s src) = frags_len sfs" "unat (DVFilter_GetPktLen lib s dst) = frags_len dfs"
    using assms(1,2) by (simp_all add: lib_frags_def)
  have k: "unat (if k = 0 then DVFilter_GetPktLen lib s src else k) = frags_len sfs" using assms(10) len by auto
  have side: "side_ok ?side" "rem ?side fs = fs" for fs by (simp_all add: side_ok_def rem_def)
  have "CopyPacket_loop fuel lib s dst src m ?side ?side (if k = 0 then DVFilter_GetPktLen lib s src else k) =
      Some (Inr (DVFILTER_STATUS_OK, ?m))"
    using CopyPacket_loop_copies [OF assms(1-4,6,7) side(1) side(1) side(2) side(2) assms(6-8,5) k assms(11)] .
  moreover have "\<not> (k \<noteq> 0 \<and> k < DVFilter_GetPktLen lib s src)" "\<not> DVFilter_GetPktLen lib s dst < DVFilter_GetPktLen lib s src"
    using assms(5,10) len by (auto simp: word_less_nat_alt)
  ultimately have "CopyPacket fuel lib s m dst src k = Some (Inr (DVFILTER_STATUS_OK, ?m))"
    by (simp add: CopyPacket_def Let_def)
  moreover have "take (frags_len sfs) (frags_data ?m dfs) = frags_data m sfs"
    using frags_put_data [OF assms(7,9), of "frags_data m sfs"] assms(5) length_frags_data [OF assms(6)] by simp
  ultimately show ?thesis using assms(7) frags_put_outside [OF assms(7)] by auto
qed

theorem CopyPacket_copies_witness:
  "\<exists>m'. CopyPacket 5 two_lib () [0, 0, 0, 0, 0, 0, 0, 44, 55, 0, 11, 22, 33] True False 5 =
      Some (Inr (DVFILTER_STATUS_OK, m')) \<and> take 5 (frags_data m' [(0, 1), (2, 4)]) = [11, 22, 33, 44, 55]"
proof -
  let ?m = "[0, 0, 0, 0, 0, 0, 0, 44, 55, 0, 11, 22, 33] :: bytes"
  have len: "frags_len (two_frags p) = 5" for p by (cases p) (simp_all add: two_frags_def)
  have "\<exists>m'. CopyPacket 5 two_lib () ?m True False 5 = Some (Inr (DVFILTER_STATUS_OK, m')) \<and>
    take (frags_len (two_frags False)) (frags_data m' (two_frags True)) = frags_data ?m (two_frags False) \<and>
    length m' = length ?m \<and>
    (\<forall>x < length ?m. (\<forall>(b, n) \<in> set (two_frags True). x < b \<or> b + n \<le> x) \<longrightarrow> m' ! x = ?m ! x)"
    using len by (intro CopyPacket_copies two_lib_frags) (simp_all add: two_frags_def disjoint_frags_def frags_avoid_def)
  then show ?thesis unfolding len by (auto simp: two_frags_def frags_data_def)
qed

end
