(* ===== verification/Dvf_Parse.thy ===== *)
theory Dvf_Parse
  imports Dvf_Copy
begin

text \<open>
  Header access and parsing.  A packet that lies in one fragment, as DVFilter delivers ordinary
  frames, is parsed correctly for every framing; the contexts the service uses never touch
  memory.
\<close>

section \<open>The direct context\<close>

definition ctx_fresh :: "filterDirectContext \<Rightarrow> bool" where
  "ctx_fresh dc \<longleftrightarrow> bbAvailable dc = 0 \<and> bbOffset dc = 0 \<and> bbLen dc = 128"

lemma ctx_fresh_init: "ctx_fresh (DirectContextInit b 128)"
  by (simp add: ctx_fresh_def DirectContextInit_def)

lemma PktDirectRef_fresh:
  assumes "ctx_fresh dc" and "len < 128"
  shows "\<exists>r dc'. PktDirectRef lib s m p off len dc = Inr (r, dc', m) \<and> ctx_fresh dc'"
  using assms
  by (auto simp: PktDirectRef_def ctx_fresh_def not_le Let_def split: option.splits bool.splits)

definition ctx_at :: "addr \<Rightarrow> nat \<Rightarrow> filterDirectContext \<Rightarrow> bool" where
  "ctx_at a n dc \<longleftrightarrow> direct dc = Some a \<and> dirOffset dc = 0 \<and> dirLen dc = of_nat n"

lemma PktDirectRef_first:
  assumes "lib_frags lib s p [(a, n)]" and "0 < n" and "unat len \<le> n"
  shows "\<exists>dc. PktDirectRef lib s m p 0 len (DirectContextInit b k) = Inr (Some a, dc, m) \<and> ctx_at a n dc"
  using assms by (simp add: PktDirectRef_def DirectContextInit_def lib_frags_def ctx_at_def)

lemma PktDirectRef_next:
  assumes "lib_frags lib s p [(a, n)]" and "n < 2 ^ 32" and "ctx_at a n dc"
    and "unat off + unat len \<le> n" and "0 < unat len"
  shows "\<exists>dc'. PktDirectRef lib s m p off len dc = Inr (Some (a + unat off), dc', m) \<and>
               (unat off + unat len < n \<longrightarrow> dc' = dc)"
proof -
  have n: "unat (of_nat n :: u32) = n" using assms(2) by (simp add: unsigned_of_nat take_bit_nat_eq_self_iff)
  have "unat (off + len) = unat off + unat len"
    using assms(2,4) by (subst unat_add_lem [THEN iffD1]) simp_all
  then have hit: "off + len < dirOffset dc + dirLen dc \<longleftrightarrow> unat off + unat len < n"
    using assms(3) n by (simp add: ctx_at_def word_less_nat_alt)
  have range: "DVFilter_GetPktFragDirectRange lib s p off len = Some (a + unat off, of_nat (n - unat off))"
    using assms(1,4,5) by (simp add: lib_frags_def)
  show ?thesis
    using assms(3) hit range by (auto simp: PktDirectRef_def ctx_at_def split: bool.splits)
qed

section \<open>Parsing IPv4 packets\<close>

lemma rd8_IPHdr:
  "rd8 (p @ enc_IPHdr i @ r) (length p) = Inr (join4 (ip_version i) (ihl i))"
  "rd8 (p @ enc_IPHdr i @ r) (length p + 9) = Inr (protocol i)"
  by (simp_all add: rd8_def enc_IPHdr_def le_defs nth_append)

lemma length_enc_IPHdr [simp]: "length (enc_IPHdr i) = 20"
  by (simp add: enc_IPHdr_def le_defs)

lemma ld16_pair:
  "ld16 (p @ le16 a @ le16 b @ r) (length p) = Inr a"
  "ld16 (p @ le16 a @ le16 b @ r) (length p + 2) = Inr b"
  by (simp_all add: ld16_def le16_def nth_append)

lemma length_enc_header:
  "length macs = 12 \<Longrightarrow> framing_ok fr type \<Longrightarrow> 14 \<le> length (enc_header fr macs type) \<and>
     length (enc_header fr macs type) \<le> 26"
  by (cases fr) (simp_all add: be16_def)

text \<open>\<open>ip_frame\<close>: an Ethernet frame with an IPv4 packet, options, two ports and the rest.\<close>

definition ip_frame :: "framing \<Rightarrow> bytes \<Rightarrow> IPHdr \<Rightarrow> bytes \<Rightarrow> u16 \<Rightarrow> u16 \<Rightarrow> bytes \<Rightarrow> bytes" where
  "ip_frame fr macs i opts sp dp rest =
     enc_header fr macs 0x0800 @ enc_IPHdr i @ opts @ le16 sp @ le16 dp @ rest"

definition l4_size :: "u8 \<Rightarrow> nat" where
  "l4_size proto = (if proto = IPPROTO_UDP then sizeof_UDPHdr else sizeof_TCPHdr)"

definition ip_frame_ok :: "framing \<Rightarrow> bytes \<Rightarrow> IPHdr \<Rightarrow> bytes \<Rightarrow> bytes \<Rightarrow> bool" where
  "ip_frame_ok fr macs i opts rest \<longleftrightarrow> length macs = 12 \<and> framing_ok fr 0x0800 \<and>
     4 * unat (ihl i) = 20 + length opts \<and> (protocol i = IPPROTO_UDP \<or> protocol i = IPPROTO_TCP) \<and>
     l4_size (protocol i) \<le> 4 + length rest"

fun vlan_info :: "framing \<Rightarrow> filterPktInfo \<Rightarrow> filterPktInfo" where
  "vlan_info (Tagged tci) info = info\<lparr>pi_vlanID := tci AND 0xFFF, pi_priority := drop_bit 13 tci\<rparr>"
| "vlan_info _ info = info"

lemma htons_ipv4: "htons 0x0800 = ETH_TYPE_IPV4_NBO"
  by (simp add: htons_def ntohs_def mk16_def lo8_def hi8_def ETH_TYPE_IPV4_NBO_def word_cat_eq)

lemma ucast_prio: "ucast (ucast (drop_bit 13 tci) :: 3 word) = drop_bit 13 (tci :: u16)"
  by (rule bit_word_eqI) (auto simp: bit_simps dest: bit_imp_le_length)

lemma parse_l2:
  assumes "length macs = 12" and "framing_ok fr 0x0800"
    and m: "m = pre @ enc_header fr macs 0x0800 @ r"
  shows "\<exists>ht. EthHeaderType m (length pre) = Inr ht \<and>
    (if ht = ETH_HEADER_TYPE_802_1PQ
     then bindR (load_tag m (length pre + dix_off)) (\<lambda>tag.
            Inr (info\<lparr>pi_vlanID := EthVlanTagGetVlanID tag, pi_priority := ucast (priority tag)\<rparr>))
     else Inr info) = (Inr (vlan_info fr info) :: filterPktInfo cres)"
proof -
  note E = EthEncapsulated_framing [OF assms(1,2), of pre r, folded m]
  have ht: "EthHeaderType m (length pre) = Inr (case fr of Dix \<Rightarrow> ETH_HEADER_TYPE_DIX
      | Tagged _ \<Rightarrow> ETH_HEADER_TYPE_802_1PQ | Dot3 _ _ \<Rightarrow> ETH_HEADER_TYPE_802_3
      | TaggedDot3 _ _ _ \<Rightarrow> ETH_HEADER_TYPE_802_1PQ_802_3)"
    using EthHeaderType_of_len [OF E] assms(1,2) by (cases fr) (simp_all add: be16_def)
  show ?thesis
  proof (cases fr)
    case (Tagged tci)
    have "m = (pre @ macs) @ be16 0x8100 @ be16 tci @ (be16 0x0800 @ r)"
      by (simp add: m Tagged)
    with load_tag_enc [of "pre @ macs" tci "be16 0x0800 @ r"] assms(1)
    obtain tag where "load_tag m (length pre + dix_off) = Inr tag"
      "EthVlanTagGetVlanID tag = tci AND 0xFFF" "priority tag = ucast (drop_bit 13 tci)"
      by (auto simp: dix_off_def ETH_ADDR_LENGTH_def)
    with ht Tagged show ?thesis by (simp add: ucast_prio)
  qed (use ht in simp_all)
qed

lemma unat_ihl: "unat (ucast (ihl i) * 4 :: u32) = 4 * unat (ihl i)"
proof -
  have "unat (ihl i) < 16" using unsigned_less [of "ihl i"] by simp
  moreover have "unat (ucast (ihl i) :: u32) = unat (ihl i)"
    using \<open>unat (ihl i) < 16\<close> by (simp add: unsigned_ucast_eq take_bit_nat_eq_self_iff)
  ultimately show ?thesis by (simp add: unat_mult_lem [THEN iffD1])
qed

text \<open>\<open>l4_at\<close>: the offset of the transport header in the frame.\<close>

definition l4_at :: "framing \<Rightarrow> bytes \<Rightarrow> bytes \<Rightarrow> nat" where
  "l4_at fr macs opts = length (enc_header fr macs 0x0800) + 20 + length opts"

lemma ip_frame_okD:
  assumes "ip_frame_ok fr macs i opts rest"
  shows "length macs = 12" "framing_ok fr 0x0800" "4 * unat (ihl i) = 20 + length opts"
    "protocol i = IPPROTO_UDP \<or> protocol i = IPPROTO_TCP" "l4_size (protocol i) \<le> 4 + length rest"
    "8 \<le> l4_size (protocol i)"
  using assms by (auto simp: ip_frame_ok_def l4_size_def sizeof_UDPHdr_def sizeof_TCPHdr_def)

lemma ip_frame_length:
  "length (ip_frame fr macs i opts sp dp rest) = l4_at fr macs opts + 4 + length rest"
  by (simp add: ip_frame_def l4_at_def le16_def)

lemma ip_frame_l4_offset:
  assumes "ip_frame_ok fr macs i opts rest"
  shows "unat (of_nat (length (enc_header fr macs 0x0800)) + ucast (ihl i) * 4 :: u32) = l4_at fr macs opts"
    "unat (of_nat (length (enc_header fr macs 0x0800)) :: u32) = length (enc_header fr macs 0x0800)"
proof -
  let ?h = "length (enc_header fr macs 0x0800)"
  note okD = ip_frame_okD [OF assms]
  show uh: "unat (of_nat ?h :: u32) = ?h"
    using length_enc_header [OF okD(1,2)] by (simp add: unsigned_of_nat take_bit_nat_eq_self_iff)
  have "unat (ihl i) < 16" using unsigned_less [of "ihl i"] by simp
  then have "?h + (20 + length opts) < 2 ^ 32" using length_enc_header [OF okD(1,2)] okD(3) by simp
  then show "unat (of_nat ?h + ucast (ihl i) * 4 :: u32) = l4_at fr macs opts"
    using uh unat_ihl [of i] okD(3) by (subst unat_add_lem [THEN iffD1]) (simp_all add: l4_at_def)
qed

lemma ip_frame_l3:
  fixes lib :: "('s, 'p) dvlib"
  assumes ok: "ip_frame_ok fr macs i opts rest"
    and fs: "lib_frags lib s p [(length pre, length (ip_frame fr macs i opts sp dp rest))]"
    and n: "length (ip_frame fr macs i opts sp dp rest) < 2 ^ 32"
    and m: "m = pre @ ip_frame fr macs i opts sp dp rest @ post"
    and dc: "ctx_at (length pre) (length (ip_frame fr macs i opts sp dp rest)) dc"
  shows "parse_l3 lib s m p ETH_TYPE_IPV4_NBO (of_nat (length (enc_header fr macs 0x0800))) dc =
      Inr (Some (protocol i, ucast (ihl i) * 4), dc, m)"
proof -
  let ?h = "length (enc_header fr macs 0x0800)" and ?e = "pre @ enc_header fr macs 0x0800"
  note okD = ip_frame_okD [OF ok]
  have "?h + 20 < length (ip_frame fr macs i opts sp dp rest)"
    using okD(5,6) by (simp add: ip_frame_length l4_at_def)
  then have r2: "PktDirectRef lib s m p (of_nat ?h) (of_nat sizeof_IPHdr) dc =
      Inr (Some (length pre + ?h), dc, m)"
    using PktDirectRef_next [OF fs n dc, of "of_nat ?h" "of_nat sizeof_IPHdr" m]
      ip_frame_l4_offset(2) [OF ok] by (auto simp: sizeof_IPHdr_def)
  have "m = ?e @ enc_IPHdr i @ (opts @ le16 sp @ le16 dp @ rest @ post)"
    by (simp add: m ip_frame_def)
  then have "rd8 m (length pre + ?h) = Inr (join4 (ip_version i) (ihl i))"
    "rd8 m (length pre + ?h + 9) = Inr (protocol i)"
    using rd8_IPHdr [of ?e i "opts @ le16 sp @ le16 dp @ rest @ post"] by simp_all
  with r2 show ?thesis by (simp add: parse_l3_def ETH_TYPE_IPV4_NBO_def ETH_TYPE_IPV6_NBO_def)
qed

lemma ip_frame_l4:
  fixes lib :: "('s, 'p) dvlib"
  assumes ok: "ip_frame_ok fr macs i opts rest"
    and fs: "lib_frags lib s p [(length pre, length (ip_frame fr macs i opts sp dp rest))]"
    and n: "length (ip_frame fr macs i opts sp dp rest) < 2 ^ 32"
    and dc: "ctx_at (length pre) (length (ip_frame fr macs i opts sp dp rest)) dc"
  shows "\<exists>dc'. PktDirectRef lib s m p (of_nat (length (enc_header fr macs 0x0800)) + ucast (ihl i) * 4)
      (of_nat (l4_size (protocol i))) dc = Inr (Some (length pre + l4_at fr macs opts), dc', m)"
proof -
  have "unat (of_nat (l4_size (protocol i)) :: u32) = l4_size (protocol i)"
    by (simp add: l4_size_def sizeof_UDPHdr_def sizeof_TCPHdr_def)
  with PktDirectRef_next [OF fs n dc, of "of_nat (length (enc_header fr macs 0x0800)) + ucast (ihl i) * 4"
      "of_nat (l4_size (protocol i))" m] ip_frame_l4_offset(1) [OF ok] ip_frame_okD(5,6) [OF ok]
  show ?thesis by (auto simp: ip_frame_length)
qed

lemma ip_frame_first:
  fixes lib :: "('s, 'p) dvlib"
  assumes ok: "ip_frame_ok fr macs i opts rest"
    and fs: "lib_frags lib s p [(length pre, length (ip_frame fr macs i opts sp dp rest))]"
  shows "\<exists>dc. PktDirectRef lib s m p 0 (of_nat sizeof_Eth_Header) (DirectContextInit b 128) =
      Inr (Some (length pre), dc, m) \<and> ctx_at (length pre) (length (ip_frame fr macs i opts sp dp rest)) dc"
proof (rule PktDirectRef_first [OF fs])
  have "26 \<le> length (ip_frame fr macs i opts sp dp rest)"
    using length_enc_header ip_frame_okD [OF ok] by (fastforce simp: ip_frame_length l4_at_def)
  then show "0 < length (ip_frame fr macs i opts sp dp rest)"
    "unat (of_nat sizeof_Eth_Header :: u32) \<le> length (ip_frame fr macs i opts sp dp rest)"
    by (linarith, simp add: eth_sizes)
qed

lemma ip_frame_l2:
  assumes ok: "ip_frame_ok fr macs i opts rest" and m: "m = pre @ ip_frame fr macs i opts sp dp rest @ post"
  shows "EthEncapsulatedPktType m (length pre) =
    Inr (ETH_TYPE_IPV4_NBO, of_nat (length (enc_header fr macs 0x0800)))"
  using EthEncapsulated_framing [OF ip_frame_okD(1,2) [OF ok], of pre]
  unfolding m ip_frame_def by (simp add: htons_ipv4)

lemma ip_frame_ports:
  assumes "m = pre @ ip_frame fr macs i opts sp dp rest @ post"
  shows "ld16 m (length pre + l4_at fr macs opts) = Inr sp"
    "ld16 m (length pre + l4_at fr macs opts + 2) = Inr dp"
proof -
  let ?e = "pre @ enc_header fr macs 0x0800 @ enc_IPHdr i @ opts"
  have "m = ?e @ le16 sp @ le16 dp @ (rest @ post)" by (simp add: assms ip_frame_def)
  then show "ld16 m (length pre + l4_at fr macs opts) = Inr sp"
    "ld16 m (length pre + l4_at fr macs opts + 2) = Inr dp"
    using ld16_pair [of ?e sp dp "rest @ post"] by (simp_all add: l4_at_def add.assoc)
qed

lemma ParsePacket_ip_frame:
  fixes lib :: "('s, 'p) dvlib"
  assumes ok: "ip_frame_ok fr macs i opts rest"
    and fs: "lib_frags lib s p [(length pre, length (ip_frame fr macs i opts sp dp rest))]"
    and n: "length (ip_frame fr macs i opts sp dp rest) < 2 ^ 32"
    and m: "m = pre @ ip_frame fr macs i opts sp dp rest @ post"
  shows "ParsePacket lib s m p b info =
    Inr ((vlan_info fr info)\<lparr>pi_ethtype := ETH_TYPE_IPV4_NBO, pi_protocol := protocol i,
           pi_srcPort := sp, pi_dstPort := dp\<rparr>, m)"
proof -
  let ?t = "of_nat (length (enc_header fr macs 0x0800)) + ucast (ihl i) * 4 :: u32"
  obtain dc where r1: "PktDirectRef lib s m p 0 (of_nat sizeof_Eth_Header) (DirectContextInit b 128) =
      Inr (Some (length pre), dc, m)"
    and dc: "ctx_at (length pre) (length (ip_frame fr macs i opts sp dp rest)) dc"
    using ip_frame_first [OF ok fs] by blast
  have "m = pre @ enc_header fr macs 0x0800 @ (enc_IPHdr i @ opts @ le16 sp @ le16 dp @ rest @ post)"
    by (simp add: m ip_frame_def)
  from parse_l2 [OF ip_frame_okD(1,2) [OF ok] this]
  obtain ht where ht: "EthHeaderType m (length pre) = Inr ht"
    "(if ht = ETH_HEADER_TYPE_802_1PQ
      then bindR (load_tag m (length pre + dix_off)) (\<lambda>tag.
             Inr (info\<lparr>pi_vlanID := EthVlanTagGetVlanID tag, pi_priority := ucast (priority tag)\<rparr>))
      else Inr info) = (Inr (vlan_info fr info) :: filterPktInfo cres)" by blast
  have ports: "parse_ports lib s m p ?t (l4_size (protocol i)) dc inf =
      Inr (inf\<lparr>pi_srcPort := sp, pi_dstPort := dp\<rparr>, m)" for inf
    using ip_frame_l4 [OF ok fs n dc, of m] ip_frame_ports [OF m] by (auto simp: parse_ports_def)
  have "ETH_TYPE_IPV4_NBO \<noteq> ETH_TYPE_ARP_NBO"
    by (simp add: ETH_TYPE_IPV4_NBO_def ETH_TYPE_ARP_NBO_def)
  with r1 ht ip_frame_l2 [OF ok m] ip_frame_l3 [OF ok fs n m dc] ip_frame_okD(4) [OF ok]
    ports [of "(vlan_info fr info)\<lparr>pi_ethtype := ETH_TYPE_IPV4_NBO, pi_protocol := protocol i\<rparr>"]
  show ?thesis
    by (auto simp: ParsePacket_def l4_size_def IPPROTO_UDP_def IPPROTO_TCP_def IPPROTO_ICMP_def
        IPPROTO_ICMPV6_def Let_def)
qed

end
