(* ===== verification/Dvf_Props.thy ===== *)
theory Dvf_Props
  imports Dvf_Parse
begin

text \<open>The properties of the packet path of \<open>netx_sample_service.c\<close>.\<close>

section \<open>Port translation\<close>

definition port_at :: "DVFilterDirection \<Rightarrow> addr \<Rightarrow> addr" where
  "port_at direction t = (if direction = DVFILTER_FROM_SWITCH then t + 2 else t)"

text \<open>What a translation does to memory: the port and, unless the library still has to compute it, the
  checksum change, the checksum by the difference of the ports modulo 65535.\<close>

definition translated :: "bytes \<Rightarrow> addr \<Rightarrow> u16 \<Rightarrow> DVFilterDirection \<Rightarrow> bool \<Rightarrow> bytes \<Rightarrow> bool" where
  "translated m t newport direction mustCsum m' \<longleftrightarrow> length m' = length m \<and>
     ld16 m' (port_at direction t) = Inr newport \<and>
     (\<forall>k < length m. k \<notin> {port_at direction t, port_at direction t + 1, t + 16, t + 17} \<longrightarrow> m' ! k = m ! k) \<and>
     (if mustCsum then ld16 m' (t + 16) = ld16 m (t + 16)
      else \<exists>old c c'. ld16 m (port_at direction t) = Inr old \<and> ld16 m (t + 16) = Inr c \<and>
             ld16 m' (t + 16) = Inr c' \<and>
             (uint c' + uint newport) mod 65535 = (uint c + uint old) mod 65535)"

lemma rewrite_port_translates:
  assumes "t + 20 \<le> length m"
  shows "\<exists>m'. rewrite_port m t newport direction mustCsum = Inr m' \<and>
              translated m t newport direction mustCsum m'"
proof -
  let ?p = "port_at direction t"
  have p: "?p + 2 \<le> length m" "?p + 2 \<le> t + 16" using assms by (simp_all add: port_at_def)
  define m1 where "m1 = put m ?p [lo8 newport, hi8 newport]"
  have l1: "length m1 = length m" using p by (simp add: m1_def)
  obtain old where old: "ld16 m ?p = Inr old" using p by (simp add: ld16_def)
  have st: "st16 m ?p newport = Inr m1" using p by (simp add: st16_def wrn_def m1_def)
  obtain c where c: "ld16 m (t + 16) = Inr c" using assms by (simp add: ld16_def)
  have c1: "ld16 m1 (t + 16) = Inr c" using c p by (simp add: m1_def)
  have new1: "ld16 m1 ?p = Inr newport" using p by (simp add: m1_def)
  have frame1: "\<forall>k < length m. k \<notin> {?p, ?p + 1, t + 16, t + 17} \<longrightarrow> m1 ! k = m ! k"
    using p by (auto simp: m1_def nth_put)
  show ?thesis
  proof (cases mustCsum)
    case True
    then show ?thesis
      using old st l1 c c1 new1 frame1
      by (auto simp: rewrite_port_def translated_def Let_def port_at_def [symmetric])
  next
    case False
    define c' where "c' = napt_csum c old newport"
    define m2 where "m2 = put m1 (t + 16) [lo8 c', hi8 c']"
    have st2: "st16 m1 (t + 16) c' = Inr m2" using assms l1 by (simp add: st16_def wrn_def m2_def)
    have frame2: "\<forall>k < length m. k \<notin> {?p, ?p + 1, t + 16, t + 17} \<longrightarrow> m2 ! k = m ! k"
      using frame1 assms l1 by (auto simp: m2_def nth_put)
    have "ld16 m2 ?p = Inr newport" "ld16 m2 (t + 16) = Inr c'" "length m2 = length m"
      using assms l1 p new1 by (simp_all add: m2_def)
    then have "translated m t newport direction mustCsum m2"
      using False frame2 old c napt_csum_sum [of c old newport]
      by (auto simp: translated_def c'_def)
    moreover have "rewrite_port m t newport direction mustCsum = Inr m2"
      using False old st c1 st2
      by (simp add: rewrite_port_def Let_def port_at_def [symmetric] c'_def)
    ultimately show ?thesis by blast
  qed
qed

lemma length_ucast_u16:
  assumes "lib_frags lib s p [(a, n)]" and "n < 65536"
  shows "unat (ucast (DVFilter_GetPktLen lib s p) :: u16) = n"
  using assms by (simp add: lib_frags_def frags_len_def unsigned_ucast_eq take_bit_nat_eq_self_iff)

lemma PerformNAPT_ip_frame:
  fixes lib :: "('s, 'p) dvlib"
  assumes ok: "ip_frame_ok fr macs i opts rest" and tcp: "protocol i = IPPROTO_TCP"
    and fs: "lib_frags lib s p [(length pre, length (ip_frame fr macs i opts sp dp rest))]"
    and n: "length (ip_frame fr macs i opts sp dp rest) < 65536"
    and m: "m = pre @ ip_frame fr macs i opts sp dp rest @ post"
  shows "\<exists>m'. PerformNAPT lib s m p b newport direction = Inr (DVFILTER_STATUS_OK, m') \<and>
    translated m (length pre + l4_at fr macs opts) newport direction (DVFilter_IsMustCsum lib s p) m'"
proof -
  have n32: "length (ip_frame fr macs i opts sp dp rest) < 2 ^ 32" using n by simp
  have size: "l4_size (protocol i) = sizeof_TCPHdr" "16 \<le> length rest"
    using tcp ip_frame_okD(5) [OF ok] by (simp_all add: l4_size_def IPPROTO_TCP_def IPPROTO_UDP_def sizeof_TCPHdr_def)
  obtain dc where r1: "PktDirectRef lib s m p 0 (of_nat sizeof_Eth_Header) (DirectContextInit b 128) =
      Inr (Some (length pre), dc, m)"
    and dc: "ctx_at (length pre) (length (ip_frame fr macs i opts sp dp rest)) dc"
    using ip_frame_first [OF ok fs] by blast
  obtain dc' where r3: "PktDirectRef lib s m p (of_nat (length (enc_header fr macs 0x0800)) + ucast (ihl i) * 4)
      (of_nat sizeof_TCPHdr) dc = Inr (Some (length pre + l4_at fr macs opts), dc', m)"
    using ip_frame_l4 [OF ok fs n32 dc, of m] size by auto
  have "length pre + l4_at fr macs opts + 20 \<le> length m"
    using size by (simp add: m ip_frame_length)
  from rewrite_port_translates [OF this]
  obtain m' where w: "rewrite_port m (length pre + l4_at fr macs opts) newport direction
      (DVFilter_IsMustCsum lib s p) = Inr m'"
    "translated m (length pre + l4_at fr macs opts) newport direction (DVFilter_IsMustCsum lib s p) m'"
    by blast
  have bounds: "\<not> length (ip_frame fr macs i opts sp dp rest) < length (enc_header fr macs 0x0800) + 20"
    "\<not> length (ip_frame fr macs i opts sp dp rest) < l4_at fr macs opts + 20"
    using size by (simp_all add: ip_frame_length l4_at_def)
  have "ETH_TYPE_IPV4_NBO \<noteq> ETH_TYPE_IPV6_NBO"
    by (simp add: ETH_TYPE_IPV4_NBO_def ETH_TYPE_IPV6_NBO_def)
  then have "PerformNAPT lib s m p b newport direction = Inr (DVFILTER_STATUS_OK, m')"
    using r1 ip_frame_l2 [OF ok m] ip_frame_l3 [OF ok fs n32 m dc] r3 w(1) tcp bounds
      length_ucast_u16 [OF fs n] ip_frame_l4_offset [OF ok]
    by (simp add: PerformNAPT_def Let_def sizeof_IPHdr_def sizeof_TCPHdr_def)
  with w(2) show ?thesis by blast
qed

section \<open>Properties\<close>

definition ip_sample :: IPHdr where
  "ip_sample = \<lparr>ihl = 5, ip_version = 4, tos = 0, tot_len = 0x2800, ip_id = 7, frag_off = 0, ttl = 64,
     protocol = 6, ip_check = 0, saddr = 0x0100000A, daddr = 0x0201A8C0\<rparr>"

definition frame_sample :: bytes where
  "frame_sample = ip_frame (Tagged 0x6005) (replicate 12 0) ip_sample [] 0x409C 0xBB01 (replicate 16 0)"

lemma ip_sample_ok: "ip_frame_ok (Tagged 0x6005) (replicate 12 0) ip_sample [] (replicate 16 0)"
  by (simp add: ip_frame_ok_def ip_sample_def l4_size_def sizeof_TCPHdr_def sizeof_UDPHdr_def
      IPPROTO_TCP_def IPPROTO_UDP_def)

lemma length_frame_sample: "length frame_sample = 58"
  by (simp add: frame_sample_def ip_frame_length l4_at_def be16_def)

lemma lib_sample:
  "lib_frags (lib_of [(2, 58)]) () () [(length [1, 1 :: u8],
     length (ip_frame (Tagged 0x6005) (replicate 12 0) ip_sample [] 0x409C 0xBB01 (replicate 16 0)))]"
proof -
  have "lib_frags (lib_of [(2, 58)]) () () [(2, 58)]" by (rule lib_of_frags) (simp add: frags_len_def)
  moreover have "length [1, 1 :: u8] = 2" by simp
  ultimately show ?thesis using length_frame_sample unfolding frame_sample_def by (simp only:)
qed



text \<open>\<open>disposed_once\<close>: the callback is told of the packet, and then the packet is sent, or freed, or
  freed with its copy sent in its place; nothing is sent or freed twice.\<close>

fun disposed_once :: "filter \<Rightarrow> 'p \<Rightarrow> DVFilterDirection \<Rightarrow> 'p pkt_event list \<Rightarrow> bool" where
  "disposed_once f pkt d [PacketCb md n, FreePkt p] \<longleftrightarrow> p = pkt \<and> pm_dir md = direction_code d"
| "disposed_once f pkt d [PacketCb md n, SendPkt h p d'] \<longleftrightarrow>
     p = pkt \<and> h = f_handle f \<and> d' = d \<and> pm_dir md = direction_code d"
| "disposed_once f pkt d [PacketCb md n, FreePkt p, SendPkt h cp d'] \<longleftrightarrow>
     p = pkt \<and> h = f_handle f \<and> d' = d \<and> pm_dir md = direction_code d"
| "disposed_once f pkt d _ \<longleftrightarrow> False"

lemma dispose_matched_event:
  assumes "dispose_matched lib s m f pkt b d = Inr (m', ev)"
  shows "ev = SendPkt (f_handle f) pkt d \<or> (ev = FreePkt pkt \<and> copyPackets (f_state f) = 0)"
  using assms by (auto simp: dispose_matched_def bindR_eq_Inr Let_def split: if_splits)


definition filter_sample :: filter where
  "filter_sample = \<lparr>magic = FILTER_MAGIC, f_handle = Some 900, f_state = filterState_zero,
     filterName = replicate 100 0, vcUUID = replicate 128 0, endPointType = DVFILTER_ENDPOINT_VNIC,
     vNicIndex = 0\<rparr>"


text \<open>A packet delivered in one fragment reaches the registered function as it is: the pointer to its
  first byte, its length and its direction, for frames of 26 to 65535 bytes (the length is
  cut to 16 bits on the way).\<close>

lemma packet_handed_over:
  fixes lib :: "('s, 'p) dvlib"
  assumes "lib_frags lib s pkt [(a, n)]" and "26 \<le> n" and "n < 65536" and "magic f = FILTER_MAGIC"
  shows "\<exists>r. ProcessPacket fuel lib ACTION_COPY s m fptr buf cbuf f pkt d = Some (Inr r) \<and>
    pr_events r = [PacketCb \<lparr>pm_filterPtr = Some fptr, pm_pktPtr = Some a, pm_dir = direction_code d\<rparr>
                     (of_nat n), FreePkt pkt]"
proof -
  have "0 < n" "unat (of_nat sizeof_Eth_Header :: u32) \<le> n" using assms(2) by (simp_all add: eth_sizes)
  with PktDirectRef_first [OF assms(1)] obtain dc where
    r: "PktDirectRef lib s m pkt 0 (of_nat sizeof_Eth_Header) (DirectContextInit buf 128) = Inr (Some a, dc, m)"
    by blast
  define w :: u16 where "w = ucast (DVFilter_GetPktLen lib s pkt)"
  have "unat w = n" unfolding w_def using length_ucast_u16 [OF assms(1,3)] .
  then have "(ucast w :: u32) = of_nat n" by auto
  with r assms(4) w_def show ?thesis by (simp add: ProcessPacket_def Let_def)
qed

lemma packet_handed_over_witness:
  "\<exists>r. ProcessPacket 0 (lib_of [(2, 58)]) ACTION_COPY () ([1, 1] @ frame_sample @ replicate 128 0)
        800 60 60 filter_sample () DVFILTER_TO_SWITCH = Some (Inr r) \<and>
      pr_events r = [PacketCb \<lparr>pm_filterPtr = Some 800, pm_pktPtr = Some 2, pm_dir = 2\<rparr> 58, FreePkt ()]"
proof -
  have "lib_frags (lib_of [(2, 58)]) () () [(2, 58)]" by (intro lib_of_frags) (simp add: frags_len_def)
  moreover have "magic filter_sample = FILTER_MAGIC" by (simp add: filter_sample_def)
  ultimately show ?thesis
    using packet_handed_over [of "lib_of [(2, 58)]" "()" "()" 2 58 filter_sample] by fastforce
qed

end
