(* ===== verification/Blocking_Queue.thy ===== *)
theory Blocking_Queue
  imports Prelude
begin

text \<open>
  The work queue of \<open>include/Queue.h\<close>: a \<open>std::queue\<close> behind a mutex and a condition variable.
  The first part has one definition per member function as the calling thread runs it, with the
  mutex explicit (a non-recursive mutex taken twice by one thread deadlocks).  The second part
  interleaves one thread in \<open>pop\<close> with any number of threads in \<open>push\<close> at every lock, wait and
  notify, which is how \<open>FlowTable\<close>, \<open>DPIEngine\<close> and \<open>DataPathUpdate\<close> share a queue.
\<close>

section \<open>Member functions\<close>

record 'a bqueue =
  items :: "'a list"
  locked :: bool

definition bq_lock :: "'a bqueue \<Rightarrow> 'a bqueue cres" where
  "bq_lock q = (if locked q then Inl SelfDeadlock else Inr (q\<lparr>locked := True\<rparr>))"

definition bq_unlock :: "'a bqueue \<Rightarrow> 'a bqueue" where
  "bq_unlock q = q\<lparr>locked := False\<rparr>"

definition bq_push :: "'a bqueue \<Rightarrow> 'a \<Rightarrow> 'a bqueue cres" where
  "bq_push q item = bindR (bq_lock q) (\<lambda>q1. Inr (bq_unlock (q1\<lparr>items := items q1 @ [item]\<rparr>)))"

text \<open>\<open>None\<close>: the queue is empty and the caller waits on \<open>cond_\<close>.\<close>

definition bq_pop :: "'a bqueue \<Rightarrow> ('a \<times> 'a bqueue) option cres" where
  "bq_pop q = bindR (bq_lock q) (\<lambda>q1.
     case items q1 of
       [] \<Rightarrow> Inr None
     | val # rest \<Rightarrow> Inr (Some (val, bq_unlock (q1\<lparr>items := rest\<rparr>))))"

text \<open>\<open>clear\<close> holds the mutex while it calls \<open>pop\<close>.\<close>

function bq_clear_loop :: "'a bqueue \<Rightarrow> 'a bqueue cres" where
  "bq_clear_loop q =
     (if items q = [] then Inr q
      else bindR (bq_pop q) (\<lambda>r. case r of None \<Rightarrow> Inr q | Some (v, q') \<Rightarrow> bq_clear_loop q'))"
  by pat_completeness auto
termination
proof (relation "measure (\<lambda>q. length (items q))")
  fix q :: "'a bqueue" and r x y q'
  assume "bq_pop q = Inr r" and "r = Some x" and "(y, q') = x"
  then show "(q', q) \<in> measure (\<lambda>q. length (items q))"
    by (auto simp: bq_pop_def bq_lock_def bq_unlock_def split: if_splits list.splits)
qed simp

declare bq_clear_loop.simps [simp del]

definition bq_clear :: "'a bqueue \<Rightarrow> 'a bqueue cres" where
  "bq_clear q = bindR (bq_lock q) (\<lambda>q1. bindR (bq_clear_loop q1) (\<lambda>q2. Inr (bq_unlock q2)))"

text \<open>The effect the other components see: an unlocked queue is its list of items.\<close>

definition wq_push :: "'a list \<Rightarrow> 'a \<Rightarrow> 'a list" where
  "wq_push q x = q @ [x]"

fun wq_pop :: "'a list \<Rightarrow> ('a \<times> 'a list) option" where
  "wq_pop [] = None"
| "wq_pop (x # xs) = Some (x, xs)"

lemma bq_push_eq: "\<not> locked q \<Longrightarrow> bq_push q x = Inr (q\<lparr>items := wq_push (items q) x\<rparr>)"
  by (cases q) (simp add: bq_push_def bq_lock_def bq_unlock_def wq_push_def)

lemma bq_pop_eq:
  "\<not> locked q \<Longrightarrow> bq_pop q = Inr (map_option (\<lambda>(x, xs). (x, q\<lparr>items := xs\<rparr>)) (wq_pop (items q)))"
  by (cases q; cases "items q") (simp_all add: bq_pop_def bq_lock_def bq_unlock_def)

section \<open>Interleaved execution\<close>

datatype 'a pop_pc =
    PopIdle
  | PopLocking          \<comment> \<open>about to lock \<open>mutex_\<close>, first or after a wake-up\<close>
  | PopTest             \<comment> \<open>holds the mutex, tests \<open>queue_.empty()\<close>\<close>
  | PopWaiting          \<comment> \<open>released the mutex, sleeps on \<open>cond_\<close>\<close>
  | PopTake             \<comment> \<open>holds the mutex, the queue was not empty\<close>

datatype 'a push_pc =
    PushIdle
  | PushLocking 'a
  | PushHold 'a         \<comment> \<open>holds the mutex\<close>
  | PushStored          \<comment> \<open>item stored, mutex still held\<close>
  | PushNotify          \<comment> \<open>mutex released, \<open>notify_one\<close> pending\<close>

datatype thread = Popper | Pusher nat

record 'a bqsys =
  bq_items :: "'a list"
  owner :: "thread option"
  popper :: "'a pop_pc"
  pushers :: "nat \<Rightarrow> 'a push_pc"
  pushed :: "'a list"
  popped :: "'a list"

definition bq_init :: "'a bqsys" where
  "bq_init = \<lparr>bq_items = [], owner = None, popper = PopIdle, pushers = (\<lambda>_. PushIdle),
              pushed = [], popped = []\<rparr>"

inductive bq_step :: "'a bqsys \<Rightarrow> 'a bqsys \<Rightarrow> bool" where
  pop_call: "popper s = PopIdle \<Longrightarrow> bq_step s (s\<lparr>popper := PopLocking\<rparr>)"
| pop_lock: "popper s = PopLocking \<Longrightarrow> owner s = None \<Longrightarrow>
     bq_step s (s\<lparr>popper := PopTest, owner := Some Popper\<rparr>)"
| pop_wait: "popper s = PopTest \<Longrightarrow> bq_items s = [] \<Longrightarrow>
     bq_step s (s\<lparr>popper := PopWaiting, owner := None\<rparr>)"
| pop_spurious: "popper s = PopWaiting \<Longrightarrow> bq_step s (s\<lparr>popper := PopLocking\<rparr>)"
| pop_test: "popper s = PopTest \<Longrightarrow> bq_items s \<noteq> [] \<Longrightarrow> bq_step s (s\<lparr>popper := PopTake\<rparr>)"
| pop_take: "popper s = PopTake \<Longrightarrow> bq_items s = x # xs \<Longrightarrow>
     bq_step s (s\<lparr>popper := PopIdle, owner := None, bq_items := xs, popped := popped s @ [x]\<rparr>)"
| push_call: "pushers s i = PushIdle \<Longrightarrow>
     bq_step s (s\<lparr>pushers := (pushers s)(i := PushLocking x)\<rparr>)"
| push_lock: "pushers s i = PushLocking x \<Longrightarrow> owner s = None \<Longrightarrow>
     bq_step s (s\<lparr>pushers := (pushers s)(i := PushHold x), owner := Some (Pusher i)\<rparr>)"
| push_store: "pushers s i = PushHold x \<Longrightarrow>
     bq_step s (s\<lparr>pushers := (pushers s)(i := PushStored), bq_items := bq_items s @ [x],
                  pushed := pushed s @ [x]\<rparr>)"
| push_unlock: "pushers s i = PushStored \<Longrightarrow>
     bq_step s (s\<lparr>pushers := (pushers s)(i := PushNotify), owner := None\<rparr>)"
| push_notify: "pushers s i = PushNotify \<Longrightarrow>
     bq_step s (s\<lparr>pushers := (pushers s)(i := PushIdle),
                  popper := (if popper s = PopWaiting then PopLocking else popper s)\<rparr>)"

inductive bq_reachable :: "'a bqsys \<Rightarrow> bool" where
  start: "bq_reachable bq_init"
| step: "bq_reachable s \<Longrightarrow> bq_step s t \<Longrightarrow> bq_reachable t"

definition pop_holds :: "'a pop_pc \<Rightarrow> bool" where
  "pop_holds p \<longleftrightarrow> p = PopTest \<or> p = PopTake"

definition push_holds :: "'a push_pc \<Rightarrow> bool" where
  "push_holds p = (case p of PushHold x \<Rightarrow> True | PushStored \<Rightarrow> True | _ \<Rightarrow> False)"

definition lock_inv :: "'a bqsys \<Rightarrow> bool" where
  "lock_inv s \<longleftrightarrow> (pop_holds (popper s) \<longleftrightarrow> owner s = Some Popper) \<and>
     (\<forall>i. push_holds (pushers s i) \<longleftrightarrow> owner s = Some (Pusher i))"

definition wake_inv :: "'a bqsys \<Rightarrow> bool" where
  "wake_inv s \<longleftrightarrow> (popper s = PopTake \<longrightarrow> bq_items s \<noteq> []) \<and>
     (popper s = PopWaiting \<and> bq_items s \<noteq> [] \<longrightarrow>
        (\<exists>i. pushers s i = PushStored \<or> pushers s i = PushNotify))"

lemmas hold_defs = pop_holds_def push_holds_def

lemma lock_inv_step:
  assumes "bq_step s t" and "lock_inv s"
  shows "lock_inv t"
  using assms
proof (induction rule: bq_step.induct)
  case (push_lock s i x)
  then show ?case by (auto simp: lock_inv_def hold_defs split: push_pc.splits)
next
  case (push_unlock s i)
  then have "owner s = Some (Pusher i)" by (force simp: lock_inv_def hold_defs)
  with push_unlock show ?case by (auto simp: lock_inv_def hold_defs split: push_pc.splits)
next
  case (push_store s i x)
  then have "owner s = Some (Pusher i)" by (force simp: lock_inv_def hold_defs)
  with push_store show ?case by (auto simp: lock_inv_def hold_defs split: push_pc.splits)
qed (auto simp: lock_inv_def hold_defs split: push_pc.splits)

lemma popper_excludes_push:
  "lock_inv s \<Longrightarrow> pop_holds (popper s) \<Longrightarrow> \<not> push_holds (pushers s i)"
  by (auto simp: lock_inv_def)

lemma wake_inv_step:
  assumes "bq_step s t" and "lock_inv s" and "wake_inv s"
  shows "wake_inv t"
  using assms
proof (induction rule: bq_step.induct)
  case (push_store s i x)
  then have "\<not> pop_holds (popper s)" using popper_excludes_push [of s i] by (auto simp: hold_defs)
  with push_store show ?case by (auto simp: wake_inv_def hold_defs)
next
  case (push_unlock s i)
  then show ?case by (auto simp: wake_inv_def)
next
  case (push_call s i x)
  then have "\<And>j. pushers s j = PushStored \<or> pushers s j = PushNotify \<Longrightarrow> j \<noteq> i" by auto
  with push_call show ?case by (auto simp: wake_inv_def)
next
  case (push_lock s i x)
  then have "\<And>j. pushers s j = PushStored \<or> pushers s j = PushNotify \<Longrightarrow> j \<noteq> i" by auto
  with push_lock show ?case by (auto simp: wake_inv_def)
qed (auto simp: wake_inv_def)

definition fifo_inv :: "'a bqsys \<Rightarrow> bool" where
  "fifo_inv s \<longleftrightarrow> pushed s = popped s @ bq_items s"

lemma fifo_inv_step: "bq_step s t \<Longrightarrow> fifo_inv s \<Longrightarrow> fifo_inv t"
  by (induction rule: bq_step.induct) (auto simp: fifo_inv_def)

lemma bq_reachable_inv: "bq_reachable s \<Longrightarrow> lock_inv s \<and> wake_inv s \<and> fifo_inv s"
proof (induction rule: bq_reachable.induct)
  case start
  then show ?case by (simp add: bq_init_def lock_inv_def wake_inv_def fifo_inv_def hold_defs)
next
  case (step s t)
  then show ?case by (blast intro: lock_inv_step wake_inv_step fifo_inv_step)
qed


section \<open>The interface the consuming threads rely on\<close>

text \<open>
  A consuming thread pops until it meets a message that tells it to exit.  The loop is stated over
  any \<open>pop\<close>; the fuel bounds the number of messages taken, \<open>None\<close> means that the thread is left
  waiting on an empty queue.
\<close>

fun pop_loop ::
  "('q \<Rightarrow> ('a \<times> 'q) option cres) \<Rightarrow> ('a \<Rightarrow> bool) \<Rightarrow> nat \<Rightarrow> 'q \<Rightarrow> ('a list \<times> 'q) option cres" where
  "pop_loop pop is_exit 0 q = Inr None"
| "pop_loop pop is_exit (Suc n) q =
     bindR (pop q) (\<lambda>r. case r of
         None \<Rightarrow> Inr None
       | Some (x, q') \<Rightarrow>
           if is_exit x then Inr (Some ([], q'))
           else bindR (pop_loop pop is_exit n q') (\<lambda>r'.
                  Inr (map_option (\<lambda>(xs, q''). (x # xs, q'')) r')))"

locale fifo_channel =
  fixes ok :: "'q \<Rightarrow> bool"
    and elems :: "'q \<Rightarrow> 'a list"
    and push :: "'q \<Rightarrow> 'a \<Rightarrow> 'q cres"
    and pop :: "'q \<Rightarrow> ('a \<times> 'q) option cres"
  assumes push_ok: "ok q \<Longrightarrow> \<exists>q'. push q x = Inr q' \<and> ok q' \<and> elems q' = elems q @ [x]"
    and pop_Nil: "ok q \<Longrightarrow> elems q = [] \<Longrightarrow> pop q = Inr None"
    and pop_Cons: "ok q \<Longrightarrow> elems q = x # xs \<Longrightarrow>
      \<exists>q'. pop q = Inr (Some (x, q')) \<and> ok q' \<and> elems q' = xs"
begin

lemma pop_loop_until_exit:
  assumes "ok q" and "elems q = xs @ e # ys" and "\<forall>x \<in> set xs. \<not> is_exit x" and "is_exit e"
    and "length xs < n"
  shows "\<exists>q'. pop_loop pop is_exit n q = Inr (Some (xs, q')) \<and> ok q' \<and> elems q' = ys"
  using assms
proof (induction xs arbitrary: q n)
  case Nil
  then obtain m where "n = Suc m" by (cases n) auto
  with Nil pop_Cons [of q e ys] show ?case by auto
next
  case (Cons x xs)
  then obtain m where n: "n = Suc m" "length xs < m" by (cases n) auto
  from Cons.prems pop_Cons [of q x "xs @ e # ys"] obtain q1
    where "pop q = Inr (Some (x, q1))" "ok q1" "elems q1 = xs @ e # ys" by auto
  with Cons.IH [of q1 m] Cons.prems n show ?case by auto
qed

lemma pop_loop_no_exit:
  assumes "ok q" and "\<forall>x \<in> set (elems q). \<not> is_exit x"
  shows "pop_loop pop is_exit n q = Inr None"
  using assms
proof (induction n arbitrary: q)
  case (Suc n)
  show ?case
  proof (cases "elems q")
    case Nil
    with Suc.prems pop_Nil show ?thesis by simp
  next
    case (Cons x xs)
    with Suc.prems pop_Cons [of q x xs] obtain q1
      where "pop q = Inr (Some (x, q1))" "ok q1" "elems q1 = xs" by auto
    with Suc.IH [of q1] Suc.prems Cons show ?thesis by simp
  qed
qed simp

end

interpretation bq: fifo_channel "\<lambda>q. \<not> locked q" items bq_push bq_pop
  by unfold_locales (simp_all add: bq_push_eq bq_pop_eq wq_push_def)

section \<open>Properties\<close>

text \<open>C23 Whatever the interleaving of pushing threads and the popping thread, at most one of them
  holds the mutex and the items popped so far followed by the items still queued are exactly the
  items pushed, in order.\<close>

theorem bq_exclusive_fifo:
  assumes "bq_reachable s"
  shows "pushed s = popped s @ bq_items s \<and>
         (\<forall>i j. push_holds (pushers s i) \<and> push_holds (pushers s j) \<longrightarrow> i = j) \<and>
         (\<forall>i. \<not> (pop_holds (popper s) \<and> push_holds (pushers s i)))"
  using bq_reachable_inv [OF assms] by (auto simp: lock_inv_def fifo_inv_def)

definition bq_sample :: "nat bqsys" where
  "bq_sample = bq_init\<lparr>popper := PopWaiting, bq_items := [5], pushed := [5],
                       owner := Some (Pusher 0), pushers := (\<lambda>_. PushIdle)(0 := PushStored)\<rparr>"

lemma bq_sample_reachable: "bq_reachable bq_sample"
proof -
  let ?s0 = "bq_init :: nat bqsys"
  let ?s1 = "?s0\<lparr>popper := PopLocking\<rparr>"
  let ?s2 = "?s1\<lparr>popper := PopTest, owner := Some Popper\<rparr>"
  let ?s3 = "?s2\<lparr>popper := PopWaiting, owner := None\<rparr>"
  let ?s4 = "?s3\<lparr>pushers := (pushers ?s3)(0 := PushLocking 5)\<rparr>"
  let ?s5 = "?s4\<lparr>pushers := (pushers ?s4)(0 := PushHold 5), owner := Some (Pusher 0)\<rparr>"
  have "bq_step ?s0 ?s1" by (rule pop_call) (simp add: bq_init_def)
  moreover have "bq_step ?s1 ?s2" by (rule pop_lock) (simp_all add: bq_init_def)
  moreover have "bq_step ?s2 ?s3" by (rule pop_wait) (simp_all add: bq_init_def)
  moreover have "bq_step ?s3 ?s4" by (rule push_call) (simp add: bq_init_def)
  moreover have "bq_step ?s4 ?s5" by (rule push_lock) (simp_all add: bq_init_def)
  moreover have "bq_step ?s5 bq_sample"
    using push_store [of ?s5 0 5] by (simp add: bq_init_def bq_sample_def)
  ultimately show ?thesis by (meson bq_reachable.intros)
qed

theorem bq_exclusive_fifo_witness:
  "bq_reachable bq_sample \<and> pushed bq_sample = [5] \<and>
   push_holds (pushers bq_sample 0) \<and> \<not> pop_holds (popper bq_sample)"
proof -
  have "push_holds (pushers bq_sample 0)" "pushed bq_sample = [5]"
    by (simp_all add: bq_sample_def push_holds_def)
  with bq_exclusive_fifo [OF bq_sample_reachable] bq_sample_reachable show ?thesis by blast
qed

text \<open>C24 No wake-up is lost: whenever the popping thread sleeps on the condition variable while an
  item is queued, some pushing thread has stored its item and not yet notified, and its pending
  \<open>notify_one\<close> wakes the sleeper.\<close>

theorem bq_no_lost_wakeup:
  assumes "bq_reachable s" and "popper s = PopWaiting" and "bq_items s \<noteq> []"
  shows "\<exists>i. (pushers s i = PushStored \<or> pushers s i = PushNotify) \<and>
             (pushers s i = PushNotify \<longrightarrow> (\<exists>t. bq_step s t \<and> popper t = PopLocking)) \<and>
             (pushers s i = PushStored \<longrightarrow> (\<exists>t. bq_step s t \<and> pushers t i = PushNotify))"
proof -
  from bq_reachable_inv [OF assms(1)] assms(2,3) obtain i
    where i: "pushers s i = PushStored \<or> pushers s i = PushNotify" by (auto simp: wake_inv_def)
  have "\<exists>t. bq_step s t \<and> popper t = PopLocking" if "pushers s i = PushNotify"
    using push_notify [OF that] assms(2) by fastforce
  moreover have "\<exists>t. bq_step s t \<and> pushers t i = PushNotify" if "pushers s i = PushStored"
    using push_unlock [OF that] by fastforce
  ultimately show ?thesis using i by blast
qed

theorem bq_no_lost_wakeup_witness:
  "bq_reachable bq_sample \<and> popper bq_sample = PopWaiting \<and> bq_items bq_sample \<noteq> [] \<and>
   (\<exists>i. pushers bq_sample i = PushStored \<or> pushers bq_sample i = PushNotify)"
proof -
  have "popper bq_sample = PopWaiting" "bq_items bq_sample \<noteq> []" by (simp_all add: bq_sample_def)
  with bq_no_lost_wakeup [OF bq_sample_reachable] bq_sample_reachable show ?thesis by blast
qed

text \<open>\<open>clear\<close> works only on an empty queue: with an item queued it calls \<open>pop\<close>, which locks
  the mutex \<open>clear\<close> already holds.\<close>

lemma bq_clear_outcome:
  "\<not> locked q \<Longrightarrow> bq_clear q = (if items q = [] then Inr q else Inl SelfDeadlock)"
  by (cases q)
    (auto simp: bq_clear_def bq_lock_def bq_unlock_def bq_clear_loop.simps bq_pop_def)

lemma bq_clear_outcome_witness:
  "bq_clear \<lparr>items = [1 :: nat], locked = False\<rparr> = Inl SelfDeadlock \<and>
   bq_clear \<lparr>items = [] :: nat list, locked = False\<rparr> = Inr \<lparr>items = [], locked = False\<rparr>"
  using bq_clear_outcome [of "\<lparr>items = [1 :: nat], locked = False\<rparr>"]
    bq_clear_outcome [of "\<lparr>items = [] :: nat list, locked = False\<rparr>"] by simp

end
