(* ===== verification/Flow_Table.thy ===== *)
theory Flow_Table
  imports Connection_DS Blocking_Queue
begin

text \<open>
  The flow table of \<open>FlowTable.cpp\<close> and \<open>include/FlowTable.h\<close>.

  \<open>conn_table\<close> is the \<open>std::unordered_map\<close> as the list of its nodes in iteration order.  A node
  keeps its address until it is erased, and \<open>ConnMetadata\<close> carries such addresses to the DPI
  threads, so a node has an address in the model too; addresses are handed out once, which makes a
  pointer to an erased node recognisable.  \<open>dpiQueues\<close> are the queues of the DPI engine the table
  pushes to, \<open>dpQueue\<close> the queue of \<open>DataPathUpdate\<close>, \<open>destroyed\<close> the calls of
  \<open>navl_conn_destroy\<close> in order.  Functions that hold \<open>ftbl_mutex\<close> throughout are single
  transitions; \<open>time(0)\<close> is the argument \<open>now\<close>.  The NAVL library is a record of functions.
\<close>

section \<open>State\<close>

record navl_lib =
  navl_app_get :: "int \<Rightarrow> addr \<Rightarrow> int \<times> int"
  navl_proto_get_name :: "int \<Rightarrow> u32 \<Rightarrow> string \<Rightarrow> string"

record flow_node =
  n_addr :: addr
  n_key :: ConnKey
  n_info :: ConnInfo

record flow_table =
  conn_table :: "flow_node list"
  next_addr :: addr
  numQueues :: int
  ft_running :: bool
  dpiQueues :: "ConnMetadata list list"
  dpQueue :: "DPIFlowData list"
  destroyed :: "(int \<times> ptr) list"
  ft_counter :: int
  ft_conn :: int
  ft_name :: string

definition FlowTable_new :: "int \<Rightarrow> flow_table" where
  "FlowTable_new numOfQueues =
     \<lparr>conn_table = [], next_addr = 0, numQueues = numOfQueues, ft_running = False,
      dpiQueues = [], dpQueue = [], destroyed = [], ft_counter = 0, ft_conn = 0, ft_name = []\<rparr>"

section \<open>The hash table\<close>

definition ct_find :: "flow_node list \<Rightarrow> ConnKey \<Rightarrow> flow_node option" where
  "ct_find t k = find (\<lambda>n. ConnKeyHasher (n_key n) = ConnKeyHasher k \<and> ConnKeyEqual k (n_key n)) t"

definition ct_insert ::
  "addr \<Rightarrow> flow_node list \<Rightarrow> ConnKey \<Rightarrow> ConnInfo \<Rightarrow> flow_node list \<times> flow_node \<times> bool" where
  "ct_insert a t k i = (case ct_find t k of
       Some n \<Rightarrow> (t, n, False)
     | None \<Rightarrow> (let n = \<lparr>n_addr = a, n_key = k, n_info = i\<rparr> in (t @ [n], n, True)))"

definition ct_at :: "flow_node list \<Rightarrow> addr \<Rightarrow> flow_node option" where
  "ct_at t a = find (\<lambda>n. n_addr n = a) t"

definition ct_update :: "addr \<Rightarrow> (ConnInfo \<Rightarrow> ConnInfo) \<Rightarrow> flow_node list \<Rightarrow> flow_node list" where
  "ct_update a f t = map (\<lambda>n. if n_addr n = a then n\<lparr>n_info := f (n_info n)\<rparr> else n) t"

section \<open>Operations\<close>

text \<open>\<open>hash_function()(key) % numQueues_\<close> in \<open>size_t\<close>, stored in an \<open>int\<close>.\<close>

definition queue_hash :: "int \<Rightarrow> ConnKey \<Rightarrow> int" where
  "queue_hash nq k = sint (ucast (ConnKeyHasher k mod word_of_int nq) :: u32)"

definition dpi_push ::
  "ConnMetadata list list \<Rightarrow> int \<Rightarrow> ConnMetadata \<Rightarrow> ConnMetadata list list cres" where
  "dpi_push qs i m = (if 0 \<le> i \<and> nat i < length qs
     then Inr (qs[nat i := wq_push (qs ! nat i) m]) else Inl OutOfBounds)"

definition is_done :: "navl_state_t \<Rightarrow> bool" where
  "is_done st \<longleftrightarrow> st = NAVL_STATE_CLASSIFIED \<or> st = NAVL_STATE_TERMINATED"

definition insert_flow ::
  "int \<Rightarrow> flow_table \<Rightarrow> ConnKey \<Rightarrow> bytes \<Rightarrow> ptr \<Rightarrow> u8 \<Rightarrow> flow_table cres" where
  "insert_flow now ft key pkt_string flt dir =
     (let (t, it, inserted) = ct_insert (next_addr ft) (conn_table ft) key
                                (ConnInfo_copy (ConnInfo_new key))
      in if \<not> inserted then Inr ft
         else
           let hash = queue_hash (numQueues ft) (n_key it);
               info = (n_info it)\<lparr>packetnum := 0, ci_filter := flt, ci_dir := uint dir,
                                  ci_queue := hash, lastpacket_timestamp := Some now\<rparr>;
               mdata = \<lparr>md_key = Some (n_addr it), md_info = Some (n_addr it),
                        md_pktnum = packetnum info, md_dir = 0, md_data = pkt_string,
                        md_exit_flag = 0\<rparr>
           in bindR (dpi_push (dpiQueues ft) hash mdata) (\<lambda>qs.
                Inr (ft\<lparr>conn_table := ct_update (n_addr it) (\<lambda>_. info) t,
                        next_addr := next_addr ft + 1, dpiQueues := qs\<rparr>)))"

definition update_flow ::
  "int \<Rightarrow> flow_table \<Rightarrow> ConnKey \<Rightarrow> flow_node \<Rightarrow> bytes \<Rightarrow> flow_table cres" where
  "update_flow now ft key it pkt_string =
     (let info = (n_info it)\<lparr>packetnum := packetnum (n_info it) + 1\<rparr>;
          ft1 = ft\<lparr>conn_table := ct_update (n_addr it) (\<lambda>_. info) (conn_table ft)\<rparr>
      in if is_done (class_state info) then Inr (ft1\<lparr>ft_conn := ft_conn ft + 1\<rparr>)
         else
           let dir = (if srcaddr key = srcaddr (n_key it) then 0 else 1);
               mdata = \<lparr>md_key = Some (n_addr it), md_info = Some (n_addr it),
                        md_pktnum = packetnum info, md_dir = dir, md_data = pkt_string,
                        md_exit_flag = 0\<rparr>
           in if class_state info = NAVL_STATE_INSPECTING \<and> dpi_state info \<noteq> None
              then bindR (dpi_push (dpiQueues ft) (ci_queue info) mdata) (\<lambda>qs.
                     Inr (ft1\<lparr>conn_table := ct_update (n_addr it)
                                 (\<lambda>_. info\<lparr>pkt_ref_cnt := pkt_ref_cnt info + 1,
                                           lastpacket_timestamp := Some now\<rparr>) (conn_table ft),
                              dpiQueues := qs\<rparr>))
              else Inr ft1)"

definition InsertOrUpdateFlows ::
  "int \<Rightarrow> flow_table \<Rightarrow> ConnKey \<Rightarrow> bytes \<Rightarrow> ptr \<Rightarrow> u8 \<Rightarrow> flow_table cres" where
  "InsertOrUpdateFlows now ft key pkt_string flt dir =
     (if numQueues ft = 0 then Inr ft
      else case ct_find (conn_table ft) key of
             None \<Rightarrow> insert_flow now ft key pkt_string flt dir
           | Some it \<Rightarrow> update_flow now ft key it pkt_string)"

definition flow_result :: "ConnKey \<Rightarrow> ConnInfo \<Rightarrow> string \<Rightarrow> DPIFlowData" where
  "flow_result key ci name =
     \<lparr>fd_key = \<lparr>srcaddr = srcaddr key, dstaddr = dstaddr key, srcport = srcport key,
               dstport = dstport key, ipproto = ipproto key\<rparr>,
      fd_exit_flag = False, fd_dir = ci_dir ci, fd_filter = ci_filter ci,
      fd_len = int (length name), fd_dpiresult = name\<rparr>"

fun get_state_string :: "navl_state_t \<Rightarrow> string" where
  "get_state_string NAVL_STATE_INSPECTING = ''INSPECTING''"
| "get_state_string NAVL_STATE_CLASSIFIED = ''CLASSIFIED''"
| "get_state_string NAVL_STATE_TERMINATED = ''TERMINATED''"
| "get_state_string _ = ''UNKNOWN''"

definition c_string :: "string \<Rightarrow> string" where
  "c_string s = takeWhile (\<lambda>c. c \<noteq> CHR 0x00) s"

text \<open>The callback's work.  The inner \<open>int ret\<close> shadows the outer one, so the result is 0.\<close>

definition updateFlowTableDPIData ::
  "navl_lib \<Rightarrow> int \<Rightarrow> flow_table \<Rightarrow> addr \<Rightarrow> int \<Rightarrow> addr \<Rightarrow> navl_state_t \<Rightarrow> int \<Rightarrow>
   (int \<times> flow_table) cres" where
  "updateFlowTableDPIData lib now ft info hdl result st err =
     (case ct_at (conn_table ft) info of
        None \<Rightarrow> Inl UseAfterFree
      | Some p \<Rightarrow>
        (case ct_find (conn_table ft) (ci_key (n_info p)) of
           None \<Rightarrow> Inr (0, ft)
         | Some it \<Rightarrow>
           let ci = n_info it;
               (app, conf) = navl_app_get lib hdl result;
               ci1 = ci\<lparr>pkt_ref_cnt := (if class_state ci = NAVL_STATE_INSPECTING then 0
                                       else pkt_ref_cnt ci - 1),
                        ci_error := err, class_state := st,
                        dpi_result := word_of_int app, dpi_confidence := conf\<rparr>
           in if is_done st
              then
                let ci2 = ci1\<lparr>classified_timestamp := now\<rparr>;
                    buf = (if dpi_result ci2 \<noteq> 0
                           then navl_proto_get_name lib hdl (dpi_result ci2) (ft_name ft)
                           else ft_name ft);
                    name = (if dpi_result ci2 \<noteq> 0 then c_string buf else ''UNKNOWN'')
                in Inr (0, ft\<lparr>conn_table := ct_update (n_addr it) (\<lambda>_. ci2) (conn_table ft),
                              destroyed := destroyed ft @ [(ci_handle ci, dpi_state ci)],
                              ft_counter := ft_counter ft + 1, ft_name := buf,
                              dpQueue := wq_push (dpQueue ft) (flow_result (n_key it) ci2 name)\<rparr>)
              else Inr (0, ft\<lparr>conn_table := ct_update (n_addr it) (\<lambda>_. ci1) (conn_table ft)\<rparr>)))"

text \<open>\<open>cleanupFlows\<close>: the two loops over the table with \<open>erase\<close>, each returning the nodes kept.\<close>

fun final_delete_loop :: "flow_node list \<Rightarrow> (int \<times> ptr) list \<Rightarrow> flow_node list \<times> (int \<times> ptr) list" where
  "final_delete_loop [] log = ([], log)"
| "final_delete_loop (it # rest) log =
     final_delete_loop rest (log @ [(ci_handle (n_info it), dpi_state (n_info it))])"

fun expire_loop ::
  "int \<Rightarrow> flow_node list \<Rightarrow> (int \<times> ptr) list \<Rightarrow> (flow_node list \<times> (int \<times> ptr) list) cres" where
  "expire_loop current_time [] log = Inr ([], log)"
| "expire_loop current_time (it # rest) log =
     (if pkt_ref_cnt (n_info it) = 0 \<and> is_done (class_state (n_info it))
      then expire_loop current_time rest log
      else if class_state (n_info it) = NAVL_STATE_INSPECTING
      then (case lastpacket_timestamp (n_info it) of
              None \<Rightarrow> Inl Uninitialised
            | Some ts \<Rightarrow>
                if current_time - ts > 10
                then expire_loop current_time rest
                       (log @ [(ci_handle (n_info it), dpi_state (n_info it))])
                else bindR (expire_loop current_time rest log) (\<lambda>(kept, log'). Inr (it # kept, log')))
      else bindR (expire_loop current_time rest log) (\<lambda>(kept, log'). Inr (it # kept, log')))"

definition cleanupFlows :: "int \<Rightarrow> bool \<Rightarrow> flow_table \<Rightarrow> flow_table cres" where
  "cleanupFlows now final_delete ft =
     (if final_delete
      then let (t, log) = final_delete_loop (conn_table ft) (destroyed ft)
           in Inr (ft\<lparr>conn_table := t, destroyed := log\<rparr>)
      else bindR (expire_loop now (conn_table ft) (destroyed ft)) (\<lambda>(t, log).
             Inr (ft\<lparr>conn_table := t, destroyed := log\<rparr>)))"

text \<open>One round of the cleanup thread after its 100 ms wait; \<open>None\<close> when the thread leaves.\<close>

definition FlowTableCleanup_round :: "int \<Rightarrow> flow_table \<Rightarrow> flow_table option cres" where
  "FlowTableCleanup_round now ft =
     (if \<not> ft_running ft then Inr None
      else if length (conn_table ft) > 0
      then bindR (cleanupFlows now False ft) (\<lambda>ft'. Inr (Some ft'))
      else Inr (Some ft))"

definition decrementNumQueues :: "flow_table \<Rightarrow> flow_table" where
  "decrementNumQueues ft = ft\<lparr>numQueues := numQueues ft - 1\<rparr>"

definition FlowTable_start :: "ConnMetadata list list \<Rightarrow> flow_table \<Rightarrow> flow_table" where
  "FlowTable_start queues ft = ft\<lparr>ft_running := True, dpiQueues := queues\<rparr>"

text \<open>The exit messages; only their exit flag is ever read.\<close>

definition exit_metadata :: ConnMetadata where
  "exit_metadata = \<lparr>md_key = None, md_info = None, md_pktnum = 0, md_dir = 0, md_data = [],
                    md_exit_flag = 1\<rparr>"

definition exit_flow_data :: DPIFlowData where
  "exit_flow_data = \<lparr>fd_key = ConnKey_default, fd_exit_flag = True, fd_dir = 0, fd_filter = None,
                     fd_len = 0, fd_dpiresult = []\<rparr>"

fun push_exit_loop :: "nat \<Rightarrow> int \<Rightarrow> ConnMetadata list list \<Rightarrow> ConnMetadata list list cres" where
  "push_exit_loop 0 i qs = Inr qs"
| "push_exit_loop (Suc n) i qs = bindR (dpi_push qs i exit_metadata) (push_exit_loop n (i + 1))"

definition FlowTable_stop :: "int \<Rightarrow> flow_table \<Rightarrow> flow_table cres" where
  "FlowTable_stop now ft =
     bindR (cleanupFlows now True (ft\<lparr>ft_running := False\<rparr>)) (\<lambda>ft1.
     let ft2 = ft1\<lparr>dpQueue := wq_push (dpQueue ft1) exit_flow_data\<rparr>
     in bindR (push_exit_loop (nat (numQueues ft2)) 0 (dpiQueues ft2)) (\<lambda>qs.
          Inr (ft2\<lparr>dpiQueues := qs\<rparr>)))"

end
