(* ===== verification/Flow_Table_Inv.thy ===== *)
theory Flow_Table_Inv
  imports Flow_Table
begin

text \<open>
  The invariants of the flow table and their preservation by every operation, and the table's
  abstraction: a partial function from connection keys, equal keys being the two directions of one
  flow, to the information stored for the flow.
\<close>

section \<open>Invariants\<close>

text \<open>\<open>node_ok len\<close>: a node's key is stored in its information too, its time stamp is set and its
  queue number names one of \<open>len\<close> queues.\<close>

definition node_ok :: "nat \<Rightarrow> flow_node \<Rightarrow> bool" where
  "node_ok len n \<longleftrightarrow> ci_key (n_info n) = n_key n \<and> lastpacket_timestamp (n_info n) \<noteq> None \<and>
     0 \<le> ci_queue (n_info n) \<and> ci_queue (n_info n) < int len"

definition table_inv :: "nat \<Rightarrow> addr \<Rightarrow> flow_node list \<Rightarrow> bool" where
  "table_inv len fresh t \<longleftrightarrow> distinct (map n_addr t) \<and> (\<forall>n \<in> set t. n_addr n < fresh) \<and>
     sorted_wrt (\<lambda>k1 k2. \<not> ConnKeyEqual k1 k2) (map n_key t) \<and> (\<forall>n \<in> set t. node_ok len n)"

definition ft_inv :: "flow_table \<Rightarrow> bool" where
  "ft_inv ft \<longleftrightarrow> table_inv (length (dpiQueues ft)) (next_addr ft) (conn_table ft) \<and>
     0 \<le> numQueues ft \<and> numQueues ft \<le> int (length (dpiQueues ft)) \<and>
     length (dpiQueues ft) < 2 ^ 31"

text \<open>Every message in a DPI queue names a node by both its pointers, and while that node is in the
  table it is served by that very queue.\<close>

definition refs_inv :: "flow_table \<Rightarrow> bool" where
  "refs_inv ft \<longleftrightarrow> (\<forall>i < length (dpiQueues ft). \<forall>m \<in> set (dpiQueues ft ! i). md_exit_flag m = 0 \<longrightarrow>
     (\<exists>a. md_info m = Some a \<and> md_key m = Some a \<and> a < next_addr ft \<and>
        (\<forall>n \<in> set (conn_table ft). n_addr n = a \<longrightarrow> ci_queue (n_info n) = int i)))"

text \<open>No message in a DPI queue points to an erased node.\<close>

definition live_refs :: "flow_table \<Rightarrow> bool" where
  "live_refs ft \<longleftrightarrow> (\<forall>q \<in> set (dpiQueues ft). \<forall>m \<in> set q. md_exit_flag m = 0 \<longrightarrow>
     (\<exists>n \<in> set (conn_table ft). md_info m = Some (n_addr n)))"

definition flow_map :: "flow_table \<Rightarrow> ConnKey \<Rightarrow> ConnInfo option" where
  "flow_map ft k = map_option n_info (ct_find (conn_table ft) k)"

section \<open>Lookup\<close>

lemma ct_find_alt: "ct_find t k = find (\<lambda>n. ConnKeyEqual k (n_key n)) t"
  unfolding ct_find_def by (rule connkey.bucket_search)

lemma ct_find_respects: "ConnKeyEqual k1 k2 \<Longrightarrow> ct_find t k1 = ct_find t k2"
  unfolding ct_find_alt by (rule connkey.search_respects_eq)

lemma keys_unique:
  assumes "sorted_wrt (\<lambda>k1 k2. \<not> ConnKeyEqual k1 k2) (map n_key t)"
    and "x \<in> set t" and "y \<in> set t" and "ConnKeyEqual (n_key x) (n_key y)"
  shows "x = y"
  using assms by (induction t) (auto dest: ConnKeyEqual_sym)

lemma ct_find_Some:
  assumes "table_inv len fresh t"
  shows "ct_find t k = Some n \<longleftrightarrow> n \<in> set t \<and> ConnKeyEqual k (n_key n)"
  unfolding ct_find_alt
proof (rule find_Some_iff_unique)
  fix x y
  assume xy: "x \<in> set t" "y \<in> set t" and k: "ConnKeyEqual k (n_key x)" "ConnKeyEqual k (n_key y)"
  have "ConnKeyEqual (n_key x) (n_key y)"
    using ConnKeyEqual_trans [OF ConnKeyEqual_sym [OF k(1)] k(2)] .
  with xy show "x = y" using assms by (intro keys_unique) (simp_all add: table_inv_def)
qed

lemma ct_find_None: "ct_find t k = None \<longleftrightarrow> (\<forall>n \<in> set t. \<not> ConnKeyEqual k (n_key n))"
  by (auto simp: ct_find_alt find_None_iff)

lemma ct_at_Some:
  assumes "table_inv len fresh t"
  shows "ct_at t a = Some n \<longleftrightarrow> n \<in> set t \<and> n_addr n = a"
  unfolding ct_at_def
  using assms by (intro find_Some_iff_unique) (auto simp: table_inv_def distinct_map inj_on_def)

lemma ct_find_update:
  "ct_find (ct_update a f t) k =
     map_option (\<lambda>n. if n_addr n = a then n\<lparr>n_info := f (n_info n)\<rparr> else n) (ct_find t k)"
  unfolding ct_find_alt ct_update_def by (rule find_map_update) simp

lemma map_ct_update [simp]:
  "map n_addr (ct_update a f t) = map n_addr t" "map n_key (ct_update a f t) = map n_key t"
  by (induction t) (auto simp: ct_update_def)

lemma in_ct_update:
  "n \<in> set (ct_update a f t) \<longleftrightarrow>
     (\<exists>m \<in> set t. n = (if n_addr m = a then m\<lparr>n_info := f (n_info m)\<rparr> else m))"
  unfolding ct_update_def set_map image_iff by (rule refl)

lemma table_inv_update:
  assumes "table_inv len fresh t"
    and "\<And>n. n \<in> set t \<Longrightarrow> n_addr n = a \<Longrightarrow> node_ok len (n\<lparr>n_info := f (n_info n)\<rparr>)"
  shows "table_inv len fresh (ct_update a f t)"
proof -
  have "\<forall>n \<in> set (ct_update a f t). node_ok len n \<and> n_addr n < fresh"
    using assms by (auto simp: in_ct_update table_inv_def)
  with assms(1) show ?thesis by (simp add: table_inv_def)
qed

lemma table_inv_snoc:
  assumes "table_inv len fresh t" and "\<forall>n \<in> set t. \<not> ConnKeyEqual (n_key n) k"
    and "node_ok len \<lparr>n_addr = fresh, n_key = k, n_info = i\<rparr>"
  shows "table_inv len (fresh + 1) (t @ [\<lparr>n_addr = fresh, n_key = k, n_info = i\<rparr>])"
  using assms by (auto simp: table_inv_def sorted_wrt_append)

lemma table_inv_filter: "table_inv len fresh t \<Longrightarrow> table_inv len fresh (filter P t)"
  by (auto simp: table_inv_def distinct_map_filter sorted_wrt_map sorted_wrt_filter)

section \<open>Queue choice\<close>

lemma queue_hash_eq:
  assumes "0 < nq" and "nq < 2 ^ 31"
  shows "queue_hash nq k = uint (ConnKeyHasher k) mod nq"
proof -
  let ?d = "word_of_int nq :: u64" and ?r = "ConnKeyHasher k mod word_of_int nq"
  have d: "uint ?d = nq" using assms by (simp add: unsigned_of_int take_bit_int_eq_self)
  have r: "uint ?r = uint (ConnKeyHasher k) mod nq" by (simp add: uint_mod d)
  have b: "0 \<le> uint ?r" "uint ?r < nq" using assms by (simp_all add: r)
  then have "uint (ucast ?r :: u32) = uint ?r"
    using assms by (simp add: unsigned_ucast_eq take_bit_int_eq_self)
  moreover from this have "unat (ucast ?r :: u32) < 2 ^ 31"
    using b assms uint_less_of_unat [of "ucast ?r :: u32" 31] by linarith
  ultimately show ?thesis by (simp add: queue_hash_def sint_nonneg_u32 r)
qed

lemma queue_hash_bounds:
  "0 < nq \<Longrightarrow> nq < 2 ^ 31 \<Longrightarrow> 0 \<le> queue_hash nq k \<and> queue_hash nq k < nq"
  by (simp add: queue_hash_eq)

lemma queue_hash_respects: "ConnKeyEqual k1 k2 \<Longrightarrow> queue_hash nq k1 = queue_hash nq k2"
  by (simp add: queue_hash_def ConnKeyEqual_hash)

lemma dpi_push_ok:
  "0 \<le> i \<Longrightarrow> i < int (length qs) \<Longrightarrow> dpi_push qs i m = Inr (qs[nat i := qs ! nat i @ [m]])"
  by (auto simp: dpi_push_def wq_push_def)

end
