(* ===== verification/Flow_Table_Props.thy ===== *)
theory Flow_Table_Props
  imports Flow_Table_Inv
begin

text \<open>
  What each operation of the flow table does, stated on the abstraction \<open>flow_map\<close> and on the
  messages sent, and that every operation keeps the invariants \<open>ft_inv\<close> and \<open>refs_inv\<close>.
\<close>

section \<open>The abstract effect of a packet\<close>

text \<open>\<open>packet_info\<close>: the information stored for the packet's flow afterwards.  \<open>packet_msg\<close>: the
  message for the flow's DPI thread, if the packet causes one.\<close>

definition new_info :: "int \<Rightarrow> int \<Rightarrow> ConnKey \<Rightarrow> ptr \<Rightarrow> u8 \<Rightarrow> ConnInfo" where
  "new_info now nq key flt dir = (ConnInfo_new key)
     \<lparr>ci_filter := flt, ci_dir := uint dir, ci_queue := uint (ConnKeyHasher key) mod nq,
      lastpacket_timestamp := Some now\<rparr>"

definition forwards :: "ConnInfo \<Rightarrow> bool" where
  "forwards ci \<longleftrightarrow> class_state ci = NAVL_STATE_INSPECTING \<and> dpi_state ci \<noteq> None"

definition seen_info :: "int \<Rightarrow> ConnInfo \<Rightarrow> ConnInfo" where
  "seen_info now ci = (if forwards ci
     then ci\<lparr>packetnum := packetnum ci + 1, pkt_ref_cnt := pkt_ref_cnt ci + 1,
             lastpacket_timestamp := Some now\<rparr>
     else ci\<lparr>packetnum := packetnum ci + 1\<rparr>)"

definition packet_info :: "int \<Rightarrow> flow_table \<Rightarrow> ConnKey \<Rightarrow> ptr \<Rightarrow> u8 \<Rightarrow> ConnInfo" where
  "packet_info now ft key flt dir = (case flow_map ft key of
       None \<Rightarrow> new_info now (numQueues ft) key flt dir
     | Some ci \<Rightarrow> seen_info now ci)"

definition packet_msg :: "flow_table \<Rightarrow> ConnKey \<Rightarrow> bytes \<Rightarrow> (nat \<times> ConnMetadata) option" where
  "packet_msg ft key d = (case ct_find (conn_table ft) key of
       None \<Rightarrow> Some (nat (uint (ConnKeyHasher key) mod numQueues ft),
                     \<lparr>md_key = Some (next_addr ft), md_info = Some (next_addr ft), md_pktnum = 0,
                      md_dir = 0, md_data = d, md_exit_flag = 0\<rparr>)
     | Some n \<Rightarrow> if forwards (n_info n)
         then Some (nat (ci_queue (n_info n)),
                    \<lparr>md_key = Some (n_addr n), md_info = Some (n_addr n),
                     md_pktnum = packetnum (n_info n) + 1,
                     md_dir = (if srcaddr key = srcaddr (n_key n) then 0 else 1),
                     md_data = d, md_exit_flag = 0\<rparr>)
         else None)"

definition send :: "(nat \<times> 'a) option \<Rightarrow> 'a list list \<Rightarrow> 'a list list" where
  "send r qs = (case r of None \<Rightarrow> qs | Some (i, m) \<Rightarrow> qs[i := qs ! i @ [m]])"

lemma length_send [simp]: "length (send r qs) = length qs"
  by (simp add: send_def split: option.splits prod.splits)

lemma node_ok_seen: "node_ok len n \<Longrightarrow> node_ok len (n\<lparr>n_info := seen_info now (n_info n)\<rparr>)"
  by (simp add: node_ok_def seen_info_def)

lemma ct_update_cong:
  "(\<And>n. n \<in> set t \<Longrightarrow> n_addr n = a \<Longrightarrow> f (n_info n) = g (n_info n)) \<Longrightarrow> ct_update a f t = ct_update a g t"
  by (auto simp: ct_update_def)

lemma same_addr_same_node:
  "table_inv len fresh t \<Longrightarrow> n \<in> set t \<Longrightarrow> m \<in> set t \<Longrightarrow> n_addr n = n_addr m \<Longrightarrow> n = m"
  by (auto simp: table_inv_def distinct_map inj_on_def)

lemma ct_update_const:
  assumes "table_inv len fresh t" and "n \<in> set t"
  shows "ct_update (n_addr n) (\<lambda>_. f (n_info n)) t = ct_update (n_addr n) f t"
  using assms by (intro ct_update_cong) (metis same_addr_same_node)

section \<open>Inserting and updating\<close>

lemma ct_update_snoc_fresh:
  assumes "table_inv len a t"
  shows "ct_update a f (t @ [\<lparr>n_addr = a, n_key = k, n_info = i\<rparr>]) =
         t @ [\<lparr>n_addr = a, n_key = k, n_info = f i\<rparr>]"
  using assms by (force simp: ct_update_def table_inv_def intro!: map_idI)

lemma mod_less_len: "0 < nq \<Longrightarrow> nq \<le> int len \<Longrightarrow> (x :: int) mod nq < int len"
  using pos_mod_bound [of nq x] by linarith

lemma insert_flow_eq:
  assumes inv: "ft_inv ft" and nq: "0 < numQueues ft" and new: "ct_find (conn_table ft) key = None"
  shows "insert_flow now ft key d flt dir = Inr (ft\<lparr>
           conn_table := conn_table ft @ [\<lparr>n_addr = next_addr ft, n_key = key,
                           n_info = new_info now (numQueues ft) key flt dir\<rparr>],
           next_addr := next_addr ft + 1,
           dpiQueues := send (packet_msg ft key d) (dpiQueues ft)\<rparr>)"
proof -
  have q: "numQueues ft < 2 ^ 31" "numQueues ft \<le> int (length (dpiQueues ft))"
    using inv by (auto simp: ft_inv_def)
  then have h: "queue_hash (numQueues ft) key = uint (ConnKeyHasher key) mod numQueues ft"
    "0 \<le> uint (ConnKeyHasher key) mod numQueues ft"
    "uint (ConnKeyHasher key) mod numQueues ft < int (length (dpiQueues ft))"
    using nq by (simp_all add: queue_hash_eq mod_less_len)
  have t: "table_inv (length (dpiQueues ft)) (next_addr ft) (conn_table ft)"
    using inv by (simp add: ft_inv_def)
  show ?thesis
    using new h
    by (simp add: insert_flow_def ct_insert_def dpi_push_ok ct_update_snoc_fresh [OF t]
        packet_msg_def send_def new_info_def ConnInfo_copy_def ConnInfo_new_def Let_def)
qed

lemma update_flow_eq:
  assumes inv: "ft_inv ft" and it: "ct_find (conn_table ft) key = Some it"
  shows "update_flow now ft key it d = Inr (ft\<lparr>
           conn_table := ct_update (n_addr it) (seen_info now) (conn_table ft),
           dpiQueues := send (packet_msg ft key d) (dpiQueues ft),
           ft_conn := (if is_done (class_state (n_info it)) then ft_conn ft + 1 else ft_conn ft)\<rparr>)"
proof -
  have t: "table_inv (length (dpiQueues ft)) (next_addr ft) (conn_table ft)"
    using inv by (simp add: ft_inv_def)
  then have m: "it \<in> set (conn_table ft)" using it ct_find_Some by blast
  then have q: "0 \<le> ci_queue (n_info it)" "ci_queue (n_info it) < int (length (dpiQueues ft))"
    using t by (auto simp: table_inv_def node_ok_def)
  note upd = ct_update_const [OF t m, of "seen_info now"]
  show ?thesis
    using q it
    by (auto simp: update_flow_def upd [symmetric] seen_info_def forwards_def is_done_def
        packet_msg_def send_def dpi_push_ok Let_def)
qed

lemma InsertOrUpdateFlows_new:
  assumes "ft_inv ft" and "0 < numQueues ft" and "ct_find (conn_table ft) key = None"
  shows "InsertOrUpdateFlows now ft key d flt dir = Inr (ft\<lparr>
           conn_table := conn_table ft @ [\<lparr>n_addr = next_addr ft, n_key = key,
                           n_info = new_info now (numQueues ft) key flt dir\<rparr>],
           next_addr := next_addr ft + 1,
           dpiQueues := send (packet_msg ft key d) (dpiQueues ft)\<rparr>)"
  using assms by (simp add: InsertOrUpdateFlows_def insert_flow_eq)

lemma InsertOrUpdateFlows_known:
  assumes "ft_inv ft" and "0 < numQueues ft" and "ct_find (conn_table ft) key = Some it"
  shows "InsertOrUpdateFlows now ft key d flt dir = Inr (ft\<lparr>
           conn_table := ct_update (n_addr it) (seen_info now) (conn_table ft),
           dpiQueues := send (packet_msg ft key d) (dpiQueues ft),
           ft_conn := (if is_done (class_state (n_info it)) then ft_conn ft + 1 else ft_conn ft)\<rparr>)"
  using assms by (simp add: InsertOrUpdateFlows_def update_flow_eq)

lemma InsertOrUpdateFlows_total:
  "ft_inv ft \<Longrightarrow> 0 < numQueues ft \<Longrightarrow>
   \<exists>ft'. InsertOrUpdateFlows now ft key d flt dir = Inr ft'"
  by (cases "ct_find (conn_table ft) key")
    (simp_all add: InsertOrUpdateFlows_new InsertOrUpdateFlows_known)

lemma new_node_ok:
  "0 < nq \<Longrightarrow> nq \<le> int len \<Longrightarrow>
   node_ok len \<lparr>n_addr = a, n_key = key, n_info = new_info now nq key flt dir\<rparr>"
  by (simp add: node_ok_def new_info_def ConnInfo_new_def mod_less_len)

lemma ConnKeyEqual_commute: "ConnKeyEqual a b \<longleftrightarrow> ConnKeyEqual b a"
  using ConnKeyEqual_sym by blast

lemma InsertOrUpdateFlows_inv:
  assumes inv: "ft_inv ft" and nq: "0 < numQueues ft"
    and r: "InsertOrUpdateFlows now ft key d flt dir = Inr ft'"
  shows "ft_inv ft'"
proof -
  have t: "table_inv (length (dpiQueues ft)) (next_addr ft) (conn_table ft)"
    and len: "numQueues ft \<le> int (length (dpiQueues ft))"
    using inv by (simp_all add: ft_inv_def)
  show ?thesis
  proof (cases "ct_find (conn_table ft) key")
    case None
    have "\<forall>n \<in> set (conn_table ft). \<not> ConnKeyEqual (n_key n) key"
      using None ct_find_None ConnKeyEqual_commute by blast
    then have "table_inv (length (dpiQueues ft)) (next_addr ft + 1)
        (conn_table ft @ [\<lparr>n_addr = next_addr ft, n_key = key,
           n_info = new_info now (numQueues ft) key flt dir\<rparr>])"
      using table_inv_snoc [OF t] new_node_ok [OF nq len] by blast
    with r inv InsertOrUpdateFlows_new [OF inv nq None] show ?thesis by (auto simp: ft_inv_def)
  next
    case (Some it)
    have "table_inv (length (dpiQueues ft)) (next_addr ft)
        (ct_update (n_addr it) (seen_info now) (conn_table ft))"
      using t by (intro table_inv_update) (auto simp: table_inv_def node_ok_seen)
    with r inv InsertOrUpdateFlows_known [OF inv nq Some] show ?thesis by (auto simp: ft_inv_def)
  qed
qed

lemma InsertOrUpdateFlows_flow_map:
  assumes inv: "ft_inv ft" and nq: "0 < numQueues ft"
    and r: "InsertOrUpdateFlows now ft key d flt dir = Inr ft'"
  shows "flow_map ft' k =
    (if ConnKeyEqual k key then Some (packet_info now ft key flt dir) else flow_map ft k)"
proof -
  have t: "table_inv (length (dpiQueues ft)) (next_addr ft) (conn_table ft)"
    using inv by (simp add: ft_inv_def)
  show ?thesis
  proof (cases "ct_find (conn_table ft) key")
    case None
    with r InsertOrUpdateFlows_new [OF inv nq None]
    have c: "conn_table ft' = conn_table ft @ [\<lparr>n_addr = next_addr ft, n_key = key,
           n_info = new_info now (numQueues ft) key flt dir\<rparr>]" by auto
    have "ct_find (conn_table ft') k =
      (case ct_find (conn_table ft) k of
         None \<Rightarrow> if ConnKeyEqual k key then Some \<lparr>n_addr = next_addr ft, n_key = key,
           n_info = new_info now (numQueues ft) key flt dir\<rparr> else None
       | Some n \<Rightarrow> Some n)"
      by (simp add: c ct_find_alt find_append split: option.split)
    with None show ?thesis
      using ct_find_respects [of k key "conn_table ft"]
      by (auto simp: flow_map_def packet_info_def split: option.splits)
  next
    case (Some it)
    with r InsertOrUpdateFlows_known [OF inv nq Some]
    have c: "conn_table ft' = ct_update (n_addr it) (seen_info now) (conn_table ft)" by auto
    show ?thesis
    proof (cases "ConnKeyEqual k key")
      case True
      with Some c show ?thesis
        by (simp add: flow_map_def ct_find_update packet_info_def ct_find_respects [OF True])
    next
      case False
      have "n_addr n \<noteq> n_addr it" if "ct_find (conn_table ft) k = Some n" for n
      proof
        assume "n_addr n = n_addr it"
        moreover have "n \<in> set (conn_table ft)" "ConnKeyEqual k (n_key n)"
          "it \<in> set (conn_table ft)" "ConnKeyEqual key (n_key it)"
          using that Some ct_find_Some [OF t] by blast+
        ultimately have "ConnKeyEqual k key"
          using same_addr_same_node [OF t] ConnKeyEqual_trans ConnKeyEqual_sym by metis
        with False show False by simp
      qed
      with False c show ?thesis
        by (cases "ct_find (conn_table ft) k") (simp_all add: flow_map_def ct_find_update)
    qed
  qed
qed

section \<open>References held by the queues\<close>

lemma packet_msg_index:
  assumes "ft_inv ft" and "0 < numQueues ft" and "packet_msg ft key d = Some (i, m)"
  shows "i < length (dpiQueues ft)"
proof (cases "ct_find (conn_table ft) key")
  case None
  then show ?thesis using assms mod_less_len [of "numQueues ft" "length (dpiQueues ft)"]
    by (auto simp: packet_msg_def ft_inv_def nat_less_iff)
next
  case (Some n)
  have "n \<in> set (conn_table ft)"
    using Some assms(1) ct_find_Some by (auto simp: ft_inv_def)
  with Some assms show ?thesis
    by (auto simp: packet_msg_def ft_inv_def table_inv_def node_ok_def nat_less_iff split: if_splits)
qed

lemma in_send:
  assumes "\<And>j m. r = Some (j, m) \<Longrightarrow> j < length qs" and "i < length qs"
  shows "m \<in> set (send r qs ! i) \<longleftrightarrow> m \<in> set (qs ! i) \<or> r = Some (i, m)"
  using assms by (auto simp: send_def nth_list_update split: option.splits if_splits)

lemma in_sent:
  assumes "ft_inv ft" and "0 < numQueues ft" and "i < length (dpiQueues ft)"
    and "m \<in> set (send (packet_msg ft key d) (dpiQueues ft) ! i)"
  shows "m \<in> set (dpiQueues ft ! i) \<or> packet_msg ft key d = Some (i, m)"
proof -
  have "\<And>j m. packet_msg ft key d = Some (j, m) \<Longrightarrow> j < length (dpiQueues ft)"
    using packet_msg_index [OF assms(1,2)] .
  from in_send [OF this assms(3)] assms(4) show ?thesis by simp
qed

lemma refs_invE:
  assumes "refs_inv ft" and "i < length (dpiQueues ft)" and "m \<in> set (dpiQueues ft ! i)"
    and "md_exit_flag m = 0"
  obtains a where "md_info m = Some a" "md_key m = Some a" "a < next_addr ft"
    "\<And>n. n \<in> set (conn_table ft) \<Longrightarrow> n_addr n = a \<Longrightarrow> ci_queue (n_info n) = int i"
  using assms unfolding refs_inv_def by blast

lemma refs_inv_new:
  assumes inv: "ft_inv ft" and refs: "refs_inv ft" and nq: "0 < numQueues ft"
    and None: "ct_find (conn_table ft) key = None"
  shows "refs_inv (ft\<lparr>conn_table := conn_table ft @ [\<lparr>n_addr = next_addr ft, n_key = key,
                           n_info = new_info now (numQueues ft) key flt dir\<rparr>],
           next_addr := next_addr ft + 1,
           dpiQueues := send (packet_msg ft key d) (dpiQueues ft)\<rparr>)"
proof -
  have fresh: "\<forall>n \<in> set (conn_table ft). n_addr n < next_addr ft"
    using inv by (simp add: ft_inv_def table_inv_def)
  have q: "ci_queue (new_info now (numQueues ft) key flt dir) =
           int (nat (uint (ConnKeyHasher key) mod numQueues ft))"
    using nq by (simp add: new_info_def)
  show ?thesis
    unfolding refs_inv_def
  proof (intro allI impI ballI)
    fix i m
    let ?ft = "ft\<lparr>conn_table := conn_table ft @ [\<lparr>n_addr = next_addr ft, n_key = key,
                           n_info = new_info now (numQueues ft) key flt dir\<rparr>],
           next_addr := next_addr ft + 1,
           dpiQueues := send (packet_msg ft key d) (dpiQueues ft)\<rparr>"
    assume i: "i < length (dpiQueues ?ft)" and "m \<in> set (dpiQueues ?ft ! i)" and e: "md_exit_flag m = 0"
    then consider "m \<in> set (dpiQueues ft ! i)" | "packet_msg ft key d = Some (i, m)"
      using in_sent [OF inv nq] by (auto simp del: One_nat_def)
    then show "\<exists>a. md_info m = Some a \<and> md_key m = Some a \<and> a < next_addr ?ft \<and>
        (\<forall>n \<in> set (conn_table ?ft). n_addr n = a \<longrightarrow> ci_queue (n_info n) = int i)"
    proof cases
      case 1
      from i have "i < length (dpiQueues ft)" by simp
      from refs_invE [OF refs this 1 e]
      obtain a where "md_info m = Some a" "md_key m = Some a" "a < next_addr ft"
        "\<And>n. n \<in> set (conn_table ft) \<Longrightarrow> n_addr n = a \<Longrightarrow> ci_queue (n_info n) = int i"
        by blast
      then show ?thesis by auto
    next
      case 2
      with None q fresh show ?thesis by (force simp: packet_msg_def)
    qed
  qed
qed

lemma refs_inv_known:
  assumes inv: "ft_inv ft" and refs: "refs_inv ft" and nq: "0 < numQueues ft"
    and Some: "ct_find (conn_table ft) key = Some it"
  shows "refs_inv (ft\<lparr>conn_table := ct_update (n_addr it) (seen_info now) (conn_table ft),
           dpiQueues := send (packet_msg ft key d) (dpiQueues ft), ft_conn := c\<rparr>)"
proof -
  have t: "table_inv (length (dpiQueues ft)) (next_addr ft) (conn_table ft)"
    using inv by (simp add: ft_inv_def)
  have m: "it \<in> set (conn_table ft)" using Some ct_find_Some [OF t] by blast
  have q: "ci_queue (seen_info now ci) = ci_queue ci" for ci by (simp add: seen_info_def)
  have it: "n_addr it < next_addr ft" "int (nat (ci_queue (n_info it))) = ci_queue (n_info it)"
    using t m by (auto simp: table_inv_def node_ok_def)
  show ?thesis
    unfolding refs_inv_def
  proof (intro allI impI ballI)
    fix i m'
    let ?ft = "ft\<lparr>conn_table := ct_update (n_addr it) (seen_info now) (conn_table ft),
           dpiQueues := send (packet_msg ft key d) (dpiQueues ft), ft_conn := c\<rparr>"
    assume i: "i < length (dpiQueues ?ft)" and "m' \<in> set (dpiQueues ?ft ! i)"
      and e: "md_exit_flag m' = 0"
    then consider "m' \<in> set (dpiQueues ft ! i)" | "packet_msg ft key d = Some (i, m')"
      using in_sent [OF inv nq] by (auto simp del: One_nat_def)
    then obtain a where a: "md_info m' = Some a" "md_key m' = Some a" "a < next_addr ft"
      "\<And>n. n \<in> set (conn_table ft) \<Longrightarrow> n_addr n = a \<Longrightarrow> ci_queue (n_info n) = int i"
    proof cases
      case 1
      from i have "i < length (dpiQueues ft)" by simp
      from refs_invE [OF refs this 1 e] that show thesis .
    next
      case 2
      have "\<And>n. n \<in> set (conn_table ft) \<Longrightarrow> n_addr n = n_addr it \<Longrightarrow>
              ci_queue (n_info n) = ci_queue (n_info it)"
        using m same_addr_same_node [OF t] by metis
      with 2 show thesis
        using Some it
        by (intro that [of "n_addr it"]) (auto simp: packet_msg_def split: if_splits)
    qed
    then show "\<exists>a. md_info m' = Some a \<and> md_key m' = Some a \<and> a < next_addr ?ft \<and>
        (\<forall>n \<in> set (conn_table ?ft). n_addr n = a \<longrightarrow> ci_queue (n_info n) = int i)"
      by (auto simp: in_ct_update q)
  qed
qed

lemma InsertOrUpdateFlows_refs:
  assumes "ft_inv ft" and "refs_inv ft" and "0 < numQueues ft"
    and "InsertOrUpdateFlows now ft key d flt dir = Inr ft'"
  shows "refs_inv ft'"
proof (cases "ct_find (conn_table ft) key")
  case None
  then show ?thesis
    using assms refs_inv_new [OF assms(1-3) None] by (auto simp: InsertOrUpdateFlows_new)
next
  case (Some it)
  then show ?thesis
    using assms refs_inv_known [OF assms(1-3) Some] by (auto simp: InsertOrUpdateFlows_known)
qed

section \<open>Cleaning up\<close>

definition reclaimable :: "flow_node \<Rightarrow> bool" where
  "reclaimable n \<longleftrightarrow> pkt_ref_cnt (n_info n) = 0 \<and> is_done (class_state (n_info n))"

definition stale :: "int \<Rightarrow> flow_node \<Rightarrow> bool" where
  "stale now n \<longleftrightarrow> class_state (n_info n) = NAVL_STATE_INSPECTING \<and>
     now - the (lastpacket_timestamp (n_info n)) > 10"

definition navl_ref :: "flow_node \<Rightarrow> int \<times> ptr" where
  "navl_ref n = (ci_handle (n_info n), dpi_state (n_info n))"

lemma final_delete_loop_eq: "final_delete_loop t log = ([], log @ map navl_ref t)"
  by (induction t log rule: final_delete_loop.induct) (simp_all add: navl_ref_def)

lemma expire_loop_eq:
  assumes "\<forall>n \<in> set t. lastpacket_timestamp (n_info n) \<noteq> None"
  shows "expire_loop now t log = Inr (filter (\<lambda>n. \<not> reclaimable n \<and> \<not> stale now n) t,
                                     log @ map navl_ref (filter (stale now) t))"
  using assms
  by (induction t arbitrary: log) (auto simp: reclaimable_def stale_def navl_ref_def is_done_def)

lemma cleanupFlows_final:
  "cleanupFlows now True ft =
     Inr (ft\<lparr>conn_table := [], destroyed := destroyed ft @ map navl_ref (conn_table ft)\<rparr>)"
  by (simp add: cleanupFlows_def final_delete_loop_eq)

lemma cleanupFlows_expire:
  assumes "ft_inv ft"
  shows "cleanupFlows now False ft =
     Inr (ft\<lparr>conn_table := filter (\<lambda>n. \<not> reclaimable n \<and> \<not> stale now n) (conn_table ft),
             destroyed := destroyed ft @ map navl_ref (filter (stale now) (conn_table ft))\<rparr>)"
proof -
  have "\<forall>n \<in> set (conn_table ft). lastpacket_timestamp (n_info n) \<noteq> None"
    using assms by (simp add: ft_inv_def table_inv_def node_ok_def)
  then show ?thesis by (simp add: cleanupFlows_def expire_loop_eq)
qed

lemma refs_inv_filter:
  "refs_inv ft \<Longrightarrow> refs_inv (ft\<lparr>conn_table := filter P (conn_table ft), destroyed := l\<rparr>)"
  unfolding refs_inv_def by fastforce

lemma ft_inv_filter:
  "ft_inv ft \<Longrightarrow> ft_inv (ft\<lparr>conn_table := filter P (conn_table ft), destroyed := l\<rparr>)"
  by (simp add: ft_inv_def table_inv_filter)

lemma cleanupFlows_keeps:
  assumes "ft_inv ft" and "refs_inv ft" and "cleanupFlows now b ft = Inr ft'"
  shows "ft_inv ft' \<and> refs_inv ft'"
proof (cases b)
  case True
  then have "ft' = ft\<lparr>conn_table := filter (\<lambda>_. False) (conn_table ft),
                      destroyed := destroyed ft @ map navl_ref (conn_table ft)\<rparr>"
    using assms(3) by (simp add: cleanupFlows_final)
  then show ?thesis using assms(1,2) ft_inv_filter refs_inv_filter by blast
next
  case False
  then show ?thesis
    using assms ft_inv_filter refs_inv_filter by (auto simp: cleanupFlows_expire)
qed

end
