(* ===== verification/Flow_Results.thy ===== *)
theory Flow_Results
  imports Flow_Table_Props
begin

text \<open>
  The classification callback and the shutdown of the flow table, and the properties of the table
  as a whole.
\<close>

section \<open>The classification callback\<close>

definition classified_info ::
  "navl_lib \<Rightarrow> int \<Rightarrow> int \<Rightarrow> addr \<Rightarrow> navl_state_t \<Rightarrow> int \<Rightarrow> ConnInfo \<Rightarrow> ConnInfo" where
  "classified_info lib now hdl result st err ci = ci
     \<lparr>pkt_ref_cnt := (if class_state ci = NAVL_STATE_INSPECTING then 0 else pkt_ref_cnt ci - 1),
      ci_error := err, class_state := st,
      dpi_result := word_of_int (fst (navl_app_get lib hdl result)),
      dpi_confidence := snd (navl_app_get lib hdl result),
      classified_timestamp := (if is_done st then now else classified_timestamp ci)\<rparr>"

definition result_name :: "navl_lib \<Rightarrow> int \<Rightarrow> addr \<Rightarrow> string \<Rightarrow> string" where
  "result_name lib hdl result buf =
     (let app = word_of_int (fst (navl_app_get lib hdl result)) :: u32
      in if app = 0 then ''UNKNOWN'' else c_string (navl_proto_get_name lib hdl app buf))"

definition result_buf :: "navl_lib \<Rightarrow> int \<Rightarrow> addr \<Rightarrow> string \<Rightarrow> string" where
  "result_buf lib hdl result buf =
     (let app = word_of_int (fst (navl_app_get lib hdl result)) :: u32
      in if app = 0 then buf else navl_proto_get_name lib hdl app buf)"

lemma node_ok_classified:
  "node_ok len n \<Longrightarrow> node_ok len (n\<lparr>n_info := classified_info lib now hdl result st err (n_info n)\<rparr>)"
  by (simp add: node_ok_def classified_info_def)

lemma find_own_key:
  assumes "ft_inv ft" and "n \<in> set (conn_table ft)"
  shows "ct_find (conn_table ft) (ci_key (n_info n)) = Some n"
  using assms ct_find_Some by (fastforce simp: ft_inv_def table_inv_def node_ok_def)

lemma ct_at_in:
  "ft_inv ft \<Longrightarrow> ct_at (conn_table ft) a = Some n \<longleftrightarrow> n \<in> set (conn_table ft) \<and> n_addr n = a"
  using ct_at_Some by (auto simp: ft_inv_def)

lemma callback_eq:
  assumes inv: "ft_inv ft" and n: "n \<in> set (conn_table ft)"
  shows "updateFlowTableDPIData lib now ft (n_addr n) hdl result st err =
    Inr (0, if is_done st
       then ft\<lparr>conn_table := ct_update (n_addr n) (classified_info lib now hdl result st err) (conn_table ft),
               destroyed := destroyed ft @ [navl_ref n], ft_counter := ft_counter ft + 1, 
               ft_name := result_buf lib hdl result (ft_name ft),
               dpQueue := dpQueue ft @ [flow_result (n_key n)
                 (classified_info lib now hdl result st err (n_info n))
                 (result_name lib hdl result (ft_name ft))]\<rparr>
       else ft\<lparr>conn_table := ct_update (n_addr n) (classified_info lib now hdl result st err) (conn_table ft)\<rparr>)"
proof -
  have t: "table_inv (length (dpiQueues ft)) (next_addr ft) (conn_table ft)"
    using inv by (simp add: ft_inv_def)
  note upd = ct_update_const [OF t n, of "classified_info lib now hdl result st err", symmetric]
  have a: "ct_at (conn_table ft) (n_addr n) = Some n" using inv n by (simp add: ct_at_in)
  show ?thesis
    by (cases "navl_app_get lib hdl result")
      (auto simp: updateFlowTableDPIData_def a find_own_key [OF inv n] upd classified_info_def
        result_name_def result_buf_def navl_ref_def wq_push_def flow_result_def Let_def)
qed

lemma refs_inv_ct_update:
  assumes "refs_inv ft" and "\<And>ci. ci_queue (f ci) = ci_queue ci"
    and "conn_table ft' = ct_update a f (conn_table ft)" and "dpiQueues ft' = dpiQueues ft"
    and "next_addr ft' = next_addr ft"
  shows "refs_inv ft'"
  unfolding refs_inv_def
proof (intro allI impI ballI)
  fix i m
  assume i: "i < length (dpiQueues ft')" "m \<in> set (dpiQueues ft' ! i)" and e: "md_exit_flag m = 0"
  from refs_invE [OF assms(1) _ _ e, of i] i assms(4)
  obtain b where "md_info m = Some b" "md_key m = Some b" "b < next_addr ft"
    "\<And>n. n \<in> set (conn_table ft) \<Longrightarrow> n_addr n = b \<Longrightarrow> ci_queue (n_info n) = int i"
    by metis
  then show "\<exists>b. md_info m = Some b \<and> md_key m = Some b \<and> b < next_addr ft' \<and>
      (\<forall>n \<in> set (conn_table ft'). n_addr n = b \<longrightarrow> ci_queue (n_info n) = int i)"
    using assms(2,3,5) by (auto simp: in_ct_update)
qed

lemma callback_keeps:
  assumes inv: "ft_inv ft" and refs: "refs_inv ft"
    and r: "updateFlowTableDPIData lib now ft a hdl result st err = Inr (v, ft')"
  shows "ft_inv ft' \<and> refs_inv ft'"
proof -
  obtain n where n: "n \<in> set (conn_table ft)" "n_addr n = a"
    using r ct_at_in [OF inv] by (auto simp: updateFlowTableDPIData_def split: option.splits)
  let ?f = "classified_info lib now hdl result st err"
  have q: "ci_queue (?f ci) = ci_queue ci" for ci by (simp add: classified_info_def)
  have t': "table_inv (length (dpiQueues ft)) (next_addr ft) (ct_update a ?f (conn_table ft))"
    using inv by (intro table_inv_update) (auto simp: ft_inv_def table_inv_def node_ok_classified)
  have "conn_table ft' = ct_update a ?f (conn_table ft) \<and> dpiQueues ft' = dpiQueues ft \<and>
        next_addr ft' = next_addr ft \<and> numQueues ft' = numQueues ft"
    using callback_eq [OF inv n(1), of lib now hdl result st err] r n(2) by (auto split: if_splits)
  with t' inv refs_inv_ct_update [OF refs q] show ?thesis by (simp add: ft_inv_def)
qed

lemma flow_map_update_node:
  assumes inv: "ft_inv ft" and n: "n \<in> set (conn_table ft)"
    and "conn_table ft' = ct_update (n_addr n) f (conn_table ft)"
  shows "flow_map ft' k = (if ConnKeyEqual k (n_key n) then Some (f (n_info n)) else flow_map ft k)"
proof -
  have t: "table_inv (length (dpiQueues ft)) (next_addr ft) (conn_table ft)"
    using inv by (simp add: ft_inv_def)
  have "n_addr m = n_addr n \<longleftrightarrow> ConnKeyEqual k (n_key n)"
    if "ct_find (conn_table ft) k = Some m" for m
  proof -
    have m: "m \<in> set (conn_table ft)" "ConnKeyEqual k (n_key m)" using that ct_find_Some [OF t] by blast+
    have "ConnKeyEqual k (n_key n) \<Longrightarrow> m = n"
      using that ct_find_Some [OF t, of k n] n by simp
    with m n same_addr_same_node [OF t] show ?thesis by metis
  qed
  moreover have "ConnKeyEqual k (n_key n) \<Longrightarrow> ct_find (conn_table ft) k = Some n"
    using ct_find_Some [OF t] n by blast
  ultimately show ?thesis
    using assms(3) by (cases "ct_find (conn_table ft) k") (auto simp: flow_map_def ct_find_update)
qed

section \<open>Stopping\<close>

lemma push_exit_loop_eq:
  assumes "i + n \<le> length qs"
  shows "push_exit_loop n (int i) qs = Inr (take i qs @
     map (\<lambda>q. q @ [exit_metadata]) (take n (drop i qs)) @ drop (i + n) qs)"
  using assms
proof (induction n arbitrary: i qs)
  case (Suc n)
  let ?qs = "qs[i := qs ! i @ [exit_metadata]]"
  have "push_exit_loop (Suc n) (int i) qs = push_exit_loop n (int (Suc i)) ?qs"
    using Suc.prems by (simp add: dpi_push_ok algebra_simps)
  also have "\<dots> = Inr (take (Suc i) ?qs @ map (\<lambda>q. q @ [exit_metadata]) (take n (drop (Suc i) ?qs)) @
      drop (Suc i + n) ?qs)"
    using Suc.prems by (intro Suc.IH) simp
  finally show ?case
    using Suc.prems by (simp add: take_Suc_conv_app_nth Cons_nth_drop_Suc [symmetric, of i qs])
qed simp

lemma FlowTable_stop_eq:
  assumes "0 \<le> numQueues ft" and "numQueues ft \<le> int (length (dpiQueues ft))"
  shows "FlowTable_stop now ft = Inr (ft\<lparr>ft_running := False, conn_table := [],
     destroyed := destroyed ft @ map navl_ref (conn_table ft),
     dpQueue := dpQueue ft @ [exit_flow_data],
     dpiQueues := map (\<lambda>q. q @ [exit_metadata]) (take (nat (numQueues ft)) (dpiQueues ft)) @
                  drop (nat (numQueues ft)) (dpiQueues ft)\<rparr>)"
  using assms push_exit_loop_eq [of 0 "nat (numQueues ft)" "dpiQueues ft"]
  by (simp add: FlowTable_stop_def cleanupFlows_final wq_push_def Let_def)

section \<open>Properties\<close>

definition ft_sample :: flow_table where
  "ft_sample = FlowTable_start [[], []] (FlowTable_new 2)"

definition node_sample :: flow_node where
  "node_sample = \<lparr>n_addr = 0, n_key = key_sample,
     n_info = (new_info 100 2 key_sample None 0)\<lparr>dpi_state := Some 7\<rparr>\<rparr>"

definition ft_busy :: flow_table where
  "ft_busy = ft_sample\<lparr>conn_table := [node_sample], next_addr := 1\<rparr>"

lemma ft_sample_facts: "ft_inv ft_sample" "refs_inv ft_sample" "0 < numQueues ft_sample"
  "flow_map ft_sample k = None" "dpiQueues ft_sample = [[], []]"
  by (simp_all add: ft_sample_def FlowTable_start_def FlowTable_new_def ft_inv_def table_inv_def
      refs_inv_def less_Suc_eq flow_map_def ct_find_def)

lemma ft_busy_facts: "ft_inv ft_busy" "refs_inv ft_busy" "conn_table ft_busy = [node_sample]"
  "dpQueue ft_busy = []" "destroyed ft_busy = []" "numQueues ft_busy = 2"
  "dpiQueues ft_busy = [[], []]"
  using new_node_ok [of 2 2 0 key_sample 100 None 0]
  by (simp_all add: ft_busy_def ft_sample_def FlowTable_start_def FlowTable_new_def ft_inv_def
      table_inv_def refs_inv_def less_Suc_eq node_sample_def node_ok_def)

text \<open>C3 A packet handed to a running flow table never makes it fault; it changes the information of
  exactly one flow, that of the packet's key in either direction, in the way \<open>packet_info\<close>
  says, puts exactly the message \<open>packet_msg\<close> at the end of that flow's DPI queue (or none), and keeps
  the table well formed and every queued message on the queue of its flow.\<close>

theorem packet_refines:
  assumes "ft_inv ft" and "refs_inv ft" and "0 < numQueues ft"
  shows "\<exists>ft'. InsertOrUpdateFlows now ft key d flt dir = Inr ft' \<and> ft_inv ft' \<and> refs_inv ft' \<and>
    (\<forall>k. flow_map ft' k = (if ConnKeyEqual k key then Some (packet_info now ft key flt dir)
                           else flow_map ft k)) \<and>
    dpiQueues ft' = send (packet_msg ft key d) (dpiQueues ft)"
proof -
  obtain ft' where r: "InsertOrUpdateFlows now ft key d flt dir = Inr ft'"
    using InsertOrUpdateFlows_total [OF assms(1,3)] by blast
  then have "dpiQueues ft' = send (packet_msg ft key d) (dpiQueues ft)"
    using assms InsertOrUpdateFlows_new InsertOrUpdateFlows_known
    by (cases "ct_find (conn_table ft) key") auto
  with r InsertOrUpdateFlows_inv [OF assms(1,3) r] InsertOrUpdateFlows_refs [OF assms r]
  show ?thesis using InsertOrUpdateFlows_flow_map [OF assms(1,3) r] by auto
qed

theorem packet_refines_witness:
  "\<exists>ft'. InsertOrUpdateFlows 100 ft_sample key_sample [1, 2] None 0 = Inr ft' \<and>
     flow_map ft' (reverse_key key_sample) = Some (new_info 100 2 key_sample None 0)"
proof -
  have "numQueues ft_sample = 2"
    by (simp add: ft_sample_def FlowTable_start_def FlowTable_new_def)
  with packet_refines [OF ft_sample_facts(1-3), of 100 key_sample "[1, 2]" None 0]
  show ?thesis by (auto simp: packet_info_def ft_sample_facts ConnKeyEqual_alt)
qed



text \<open>C14 A classification result for a flow in the table is stored for exactly that flow.  When it is
  final, exactly one record goes to the data path queue, with the flow's key, filter and direction
  and the name of the application (\<open>UNKNOWN\<close> for none), and the flow's library state is
  released once; otherwise nothing is sent or released.\<close>

theorem classification_reported:
  assumes "ft_inv ft" and "refs_inv ft" and "n \<in> set (conn_table ft)"
  shows "\<exists>ft'. updateFlowTableDPIData lib now ft (n_addr n) hdl result st err = Inr (0, ft') \<and>
    ft_inv ft' \<and> refs_inv ft' \<and>
    (\<forall>k. flow_map ft' k = (if ConnKeyEqual k (n_key n)
       then Some (classified_info lib now hdl result st err (n_info n)) else flow_map ft k)) \<and>
    dpQueue ft' = dpQueue ft @ (if is_done st then [flow_result (n_key n)
       (classified_info lib now hdl result st err (n_info n))
       (result_name lib hdl result (ft_name ft))] else []) \<and>
    destroyed ft' = destroyed ft @ (if is_done st then [navl_ref n] else [])"
proof -
  obtain ft' where r: "updateFlowTableDPIData lib now ft (n_addr n) hdl result st err = Inr (0, ft')"
    using callback_eq [OF assms(1,3)] by blast
  with callback_eq [OF assms(1,3), of lib now hdl result st err]
  have "conn_table ft' = ct_update (n_addr n) (classified_info lib now hdl result st err) (conn_table ft)"
    "dpQueue ft' = dpQueue ft @ (if is_done st then [flow_result (n_key n)
       (classified_info lib now hdl result st err (n_info n))
       (result_name lib hdl result (ft_name ft))] else [])"
    "destroyed ft' = destroyed ft @ (if is_done st then [navl_ref n] else [])"
    by (auto split: if_splits)
  with r show ?thesis
    using callback_keeps [OF assms(1,2) r] flow_map_update_node [OF assms(1,3)] by auto
qed

theorem classification_reported_witness:
  "\<exists>ft'. updateFlowTableDPIData
        \<lparr>navl_app_get = (\<lambda>_ _. (5, 90)), navl_proto_get_name = (\<lambda>_ _ _. ''HTTP'')\<rparr>
        120 ft_busy 0 1 0 NAVL_STATE_CLASSIFIED 0 = Inr (0, ft') \<and>
     map fd_dpiresult (dpQueue ft') = [''HTTP''] \<and> destroyed ft' = [(0, Some 7)]"
proof -
  have "node_sample \<in> set (conn_table ft_busy)" "n_addr node_sample = 0"
    "navl_ref node_sample = (0, Some 7)"
    by (simp_all add: ft_busy_facts node_sample_def navl_ref_def new_info_def ConnInfo_new_def)
  with classification_reported [OF ft_busy_facts(1,2), of node_sample
      "\<lparr>navl_app_get = (\<lambda>_ _. (5, 90)), navl_proto_get_name = (\<lambda>_ _ _. ''HTTP'')\<rparr>"
      120 1 0 NAVL_STATE_CLASSIFIED 0]
  show ?thesis
    by (auto simp: ft_busy_facts is_done_def flow_result_def result_name_def c_string_def)
qed

text \<open>Stopping the table removes and releases every flow, and sends exactly one exit message to the
  data path queue and to each DPI queue still in use, behind everything queued before.\<close>

lemma stop_exact:
  assumes "ft_inv ft"
  shows "\<exists>ft'. FlowTable_stop now ft = Inr ft' \<and> conn_table ft' = [] \<and> \<not> ft_running ft' \<and>
    destroyed ft' = destroyed ft @ map navl_ref (conn_table ft) \<and>
    dpQueue ft' = dpQueue ft @ [exit_flow_data] \<and> length (dpiQueues ft') = length (dpiQueues ft) \<and>
    (\<forall>i < length (dpiQueues ft). dpiQueues ft' ! i =
       dpiQueues ft ! i @ (if int i < numQueues ft then [exit_metadata] else []))"
  using assms
  by (subst FlowTable_stop_eq) (auto simp: ft_inv_def nth_append)

lemma stop_exact_witness:
  "\<exists>ft'. FlowTable_stop 120 ft_busy = Inr ft' \<and> conn_table ft' = [] \<and>
     dpiQueues ft' ! 1 = [exit_metadata]"
  using stop_exact [OF ft_busy_facts(1), of 120] by (auto simp: ft_busy_facts)

end
