(* ===== verification/Packet_Handler.thy ===== *)
theory Packet_Handler
  imports PC_Queue Flow_Results Net_Protos Dvf_Types
begin

text \<open>
  \<open>PacketHandler.cpp\<close>: the producer that copies a packet into the lock-free queue, the consumer that
  drains it, and the parsing of a frame into a connection key and payload for the flow table
  (the Linux branch of the conditional code).  A packet's string is read through \<open>c_str\<close>, so one
  NUL byte follows its contents; reading past that byte is a fault.
\<close>

section \<open>Parsing\<close>

record PktMdata =
  pk_filter :: ptr
  pk_pkt :: bytes
  pk_dir :: u8

definition ETH_P_8021Q :: u16 where "ETH_P_8021Q = 0x8100"
definition ETH_P_IP :: u16 where "ETH_P_IP = 0x0800"

text \<open>The loop over VLAN tags; \<open>o\<close> is the offset of \<open>eth_type\<close>.\<close>

function strip_vlans :: "bytes \<Rightarrow> nat \<Rightarrow> u32 \<Rightarrow> (nat \<times> u32) cres" where
  "strip_vlans m off len = (case ld16 m off of
       Inl e \<Rightarrow> Inl e
     | Inr w \<Rightarrow> if ntohs w = ETH_P_8021Q then strip_vlans m (off + 4) (len - 4) else Inr (off, len))"
  by pat_completeness auto
termination
  by (relation "measure (\<lambda>(m, off, _). length m - off)") (auto simp: ld16_def split: if_splits)

declare strip_vlans.simps [simp del]

text \<open>\<open>populateFlowTable\<close> up to its call of the flow table: ports and payload.\<close>

definition transport ::
  "bytes \<Rightarrow> nat \<Rightarrow> u32 \<Rightarrow> ConnKey \<Rightarrow> (ConnKey \<times> bytes) cres" where
  "transport m p len key =
     (if ipproto key = IPPROTO_TCP
      then bindR (ld16 m p) (\<lambda>sp. bindR (ld16 m (p + 2)) (\<lambda>dp. bindR (rd8 m (p + 12)) (\<lambda>b12.
           let hl = 4 * unat (drop_bit 4 b12)
           in bindR (rdn m (p + hl) (unat (len - of_nat hl))) (\<lambda>d.
                Inr (key\<lparr>srcport := ntohs sp, dstport := ntohs dp\<rparr>, d)))))
      else if ipproto key = IPPROTO_UDP
      then bindR (ld16 m p) (\<lambda>sp. bindR (ld16 m (p + 2)) (\<lambda>dp.
           bindR (rdn m (p + 8) (unat (len - 8))) (\<lambda>d.
             Inr (key\<lparr>srcport := ntohs sp, dstport := ntohs dp\<rparr>, d))))
      else bindR (rdn m p (unat len)) (\<lambda>d. Inr (key, d)))"

definition populateFlowTable ::
  "int \<Rightarrow> bytes \<Rightarrow> nat \<Rightarrow> u32 \<Rightarrow> ConnKey \<Rightarrow> ptr \<Rightarrow> u8 \<Rightarrow> flow_table \<Rightarrow> flow_table cres" where
  "populateFlowTable now m p len key flt dir ft =
     bindR (transport m p len key) (\<lambda>(key', d). InsertOrUpdateFlows now ft key' d flt dir)"

text \<open>The IP header: \<open>None\<close> for a packet that is ignored, else the transport header's place, the
  length left and the key.\<close>

definition network :: "bytes \<Rightarrow> nat \<Rightarrow> u32 \<Rightarrow> (nat \<times> u32 \<times> ConnKey) option cres" where
  "network m iph len =
     bindR (rd8 m iph) (\<lambda>b0.
     if unat (ucast b0 :: 4 word) < 5 \<or> unat (drop_bit 4 b0) \<noteq> 4 then Inr None
     else bindR (ld16 m (iph + 2)) (\<lambda>tl.
     if unat len < unat (ntohs tl) then Inr None
     else bindR (rd8 m (iph + 9)) (\<lambda>proto. bindR (ld32 m (iph + 12)) (\<lambda>sa. bindR (ld32 m (iph + 16)) (\<lambda>da.
       let hl = 4 * unat (ucast b0 :: 4 word)
       in Inr (Some (iph + hl, ucast (ntohs tl) - of_nat hl,
                     ConnKey_default\<lparr>ipproto := proto, srcaddr := ntohl sa, dstaddr := ntohl da\<rparr>)))))))"

definition classifyFlows :: "int \<Rightarrow> PktMdata \<Rightarrow> flow_table \<Rightarrow> flow_table cres" where
  "classifyFlows now mdata ft =
     (let m = pk_pkt mdata @ [0]; len = of_nat (length (pk_pkt mdata)) :: u32
      in bindR (strip_vlans m 12 (len - 12)) (\<lambda>(off, len1).
         bindR (ld16 m off) (\<lambda>t.
         if ntohs t \<noteq> ETH_P_IP then Inr ft
         else bindR (network m (off + 2) (len1 - 2)) (\<lambda>r. case r of
                None \<Rightarrow> Inr ft
              | Some (p, len2, key) \<Rightarrow>
                  populateFlowTable now m p len2 key (pk_filter mdata) (pk_dir mdata) ft))))"

section \<open>Producer and consumer\<close>

text \<open>One attempt of the producer: the packet is copied out of memory, \<open>queue_.write\<close> is tried, and
  \<open>notify\<close> is set when it succeeded; otherwise the loop tries again.\<close>

definition PacketProducer ::
  "bytes \<Rightarrow> PktMetadata \<Rightarrow> u32 \<Rightarrow> PktMdata pcq \<Rightarrow> (bool \<times> PktMdata pcq) cres" where
  "PacketProducer m pktmdata len q = (case pm_pktPtr pktmdata of
       None \<Rightarrow> if len = 0 then pcq_write q \<lparr>pk_filter = pm_filterPtr pktmdata, pk_pkt = [], pk_dir = pm_dir pktmdata\<rparr>
               else Inl NullDeref
     | Some a \<Rightarrow> bindR (rdn m a (unat len)) (\<lambda>pkt.
         pcq_write q \<lparr>pk_filter = pm_filterPtr pktmdata, pk_pkt = pkt, pk_dir = pm_dir pktmdata\<rparr>))"

text \<open>The consumer's inner loop; \<open>cur\<close> is the variable \<open>mdata\<close>, \<open>None\<close> means the bound on rounds was
  not enough.\<close>

fun PacketConsumer_drain ::
  "nat \<Rightarrow> int \<Rightarrow> PktMdata \<Rightarrow> PktMdata pcq \<Rightarrow> flow_table \<Rightarrow> (PktMdata pcq \<times> flow_table) option cres" where
  "PacketConsumer_drain 0 now cur q ft = Inr None"
| "PacketConsumer_drain (Suc n) now cur q ft =
     (if isEmpty q then Inr (Some (q, ft))
      else bindR (pcq_read q) (\<lambda>(r, q').
             let cur' = (case r of None \<Rightarrow> cur | Some v \<Rightarrow> v)
             in bindR (classifyFlows now cur' ft) (\<lambda>ft'. PacketConsumer_drain n now cur' q' ft')))"

section \<open>The packet rate\<close>

text \<open>\<open>PktRateMeasurer\<close>, which \<open>start\<close> does not run: the list has \<open>running_\<close> and \<open>pkts\<close> at the end of each sleep, the
  result is what is logged, \<open>None\<close> while it still runs.  \<open>pktcounter\<close> has no value before the
  first round.\<close>

definition c_div :: "int \<Rightarrow> int \<Rightarrow> int" where
  "c_div a b = (if a < 0 then - ((- a) div b) else a div b)"

fun PktRateMeasurer :: "(bool \<times> 64 word) list \<Rightarrow> u32 option \<Rightarrow> int list option cres" where
  "PktRateMeasurer [] pktcounter = Inr None"
| "PktRateMeasurer ((running, pkts) # rounds) pktcounter =
     (if \<not> running then Inr (Some [])
      else case pktcounter of
             None \<Rightarrow> Inl Uninitialised
           | Some c \<Rightarrow> bindR (PktRateMeasurer rounds (Some (ucast pkts)))
               (\<lambda>r. Inr (map_option ((#) (c_div (sint (pkts - scast c)) 5)) r)))"

section \<open>Well-formed frames\<close>

definition tags :: "u16 list \<Rightarrow> bytes" where
  "tags tcis = concat (map (\<lambda>t. be16 0x8100 @ be16 t) tcis)"

definition l4_header_len :: "u8 \<Rightarrow> bytes \<Rightarrow> nat" where
  "l4_header_len proto rest =
     (if proto = IPPROTO_TCP then 4 * unat (drop_bit 4 (rest ! 8)) else 8)"

text \<open>A frame with any number of VLAN tags, IP options, a TCP or UDP segment (\<open>sp\<close>, \<open>dp\<close> and the
  rest) and padding.\<close>

definition frame :: "bytes \<Rightarrow> u16 list \<Rightarrow> IPHdr \<Rightarrow> bytes \<Rightarrow> u16 \<Rightarrow> u16 \<Rightarrow> bytes \<Rightarrow> bytes \<Rightarrow> bytes" where
  "frame macs tcis i opts sp dp rest pad =
     macs @ tags tcis @ be16 0x0800 @ enc_IPHdr i @ opts @ le16 sp @ le16 dp @ rest @ pad"

definition frame_ok :: "bytes \<Rightarrow> IPHdr \<Rightarrow> bytes \<Rightarrow> bytes \<Rightarrow> bool" where
  "frame_ok macs i opts rest \<longleftrightarrow> length macs = 12 \<and> ip_version i = 4 \<and>
     4 * unat (ihl i) = 20 + length opts \<and>
     unat (ntohs (tot_len i)) = 20 + length opts + 4 + length rest \<and>
     (protocol i = IPPROTO_TCP \<and> 16 \<le> length rest \<or> protocol i = IPPROTO_UDP \<and> 4 \<le> length rest) \<and>
     l4_header_len (protocol i) rest \<le> 4 + length rest"

definition frame_key :: "IPHdr \<Rightarrow> u16 \<Rightarrow> u16 \<Rightarrow> ConnKey" where
  "frame_key i sp dp = \<lparr>srcaddr = ntohl (saddr i), dstaddr = ntohl (daddr i), srcport = ntohs sp,
     dstport = ntohs dp, ipproto = protocol i\<rparr>"

definition frame_payload :: "IPHdr \<Rightarrow> u16 \<Rightarrow> u16 \<Rightarrow> bytes \<Rightarrow> bytes" where
  "frame_payload i sp dp rest = drop (l4_header_len (protocol i) rest) (le16 sp @ le16 dp @ rest)"

lemma strip_vlans_tags:
  assumes "length pre = off" and "t \<noteq> 0x8100"
  shows "strip_vlans (pre @ tags tcis @ be16 t @ r) off len =
         Inr (off + length (tags tcis), len - of_nat (length (tags tcis)))"
  using assms
proof (induction tcis arbitrary: pre off len)
  case Nil
  then have "ld16 (pre @ be16 t @ r) off = Inr (ntohs t)"
    using ld16_at [of off pre "hi8 t" "lo8 t" r] by (simp add: be16_def)
  with Nil show ?case by (simp add: strip_vlans.simps tags_def ETH_P_8021Q_def)
next
  case (Cons a tcis)
  let ?m = "pre @ tags (a # tcis) @ be16 t @ r"
  have m: "?m = (pre @ be16 0x8100 @ be16 a) @ tags tcis @ be16 t @ r" by (simp add: tags_def)
  have "ld16 ?m off = Inr (ntohs 0x8100)"
    using Cons.prems(1) ld16_at [of off pre "hi8 0x8100" "lo8 0x8100"] by (simp add: tags_def be16_def)
  then have "strip_vlans ?m off len = strip_vlans ?m (off + 4) (len - 4)"
    by (subst strip_vlans.simps) (simp add: ETH_P_8021Q_def)
  also have "\<dots> = Inr (off + 4 + length (tags tcis), len - 4 - of_nat (length (tags tcis)))"
    unfolding m using Cons.prems by (intro Cons.IH) (simp_all add: be16_def)
  finally show ?case by (simp add: tags_def be16_def algebra_simps)
qed

lemma unat_of_nat_u32: "n < 2 ^ 32 \<Longrightarrow> unat (of_nat n :: u32) = n"
  by (simp add: unsigned_of_nat take_bit_nat_eq_self_iff)

lemma unat_minus_of_nat:
  assumes "k \<le> n" and "n < 2 ^ 32"
  shows "unat (of_nat n - of_nat k :: u32) = n - k"
proof -
  have "(of_nat n - of_nat k :: u32) = of_nat (n - k)" using assms(1) by (simp add: of_nat_diff)
  then show ?thesis using assms(2) by (simp add: unat_of_nat_u32)
qed

lemma unat_hi_nibble: "unat (drop_bit 4 (join4 h l)) = unat h"
proof -
  have "drop_bit 4 (join4 h l) = (ucast h :: u8)"
    unfolding join4_def by (rule bit_word_eqI) (auto simp: bit_simps dest: bit_imp_le_length)
  moreover have "unat h < 16" using unsigned_less [of h] by simp
  ultimately show ?thesis by (simp add: unsigned_ucast_eq take_bit_nat_eq_self_iff)
qed

lemma network_frame:
  assumes ok: "frame_ok macs i opts rest" and e: "length e = iph"
    and m: "m = e @ enc_IPHdr i @ r" and len: "unat (ntohs (tot_len i)) \<le> unat len"
  shows "network m iph len = Inr (Some (iph + 20 + length opts, of_nat (4 + length rest),
    (frame_key i 0 0)\<lparr>srcport := 0, dstport := 0\<rparr>))"
proof -
  have ihl: "4 * unat (ihl i) = 20 + length opts" using ok by (simp add: frame_ok_def)
  have b0: "rd8 m iph = Inr (join4 4 (ihl i))"
    using ok e m by (simp add: rd8_def nth_append enc_IPHdr_def frame_ok_def)
  have ld: "ld16 m (iph + 2) = Inr (tot_len i)" "rd8 m (iph + 9) = Inr (protocol i)"
    "ld32 m (iph + 12) = Inr (saddr i)" "ld32 m (iph + 16) = Inr (daddr i)"
    using e m by (simp_all add: rd_defs nth_append enc_IPHdr_def le_defs)
  define tl where "tl = ntohs (tot_len i)"
  have tl: "unat tl = 20 + length opts + (4 + length rest)" using ok by (simp add: frame_ok_def tl_def)
  have u: "unat (ucast tl :: u32) = unat tl"
    using unat_u16_less [of tl] by (simp add: unsigned_ucast_eq take_bit_nat_eq_self_iff)
  then have "(ucast tl :: u32) = of_nat (20 + length opts + (4 + length rest))"
    using tl by (metis of_nat_unat)
  then have l2: "ucast tl - of_nat (20 + length opts) = (of_nat (4 + length rest) :: u32)" by simp
  have "5 \<le> unat (ihl i)" using ihl by simp
  moreover have "unat (drop_bit 4 (join4 4 (ihl i))) = 4" by (simp add: unat_hi_nibble)
  ultimately show ?thesis
    using b0 ld len ihl l2
    by (simp add: network_def Let_def tl_def [symmetric] frame_key_def ConnKey_default_def)
qed

lemma transport_frame:
  assumes ok: "frame_ok macs i opts rest" and e: "length e = p"
    and m: "m = e @ le16 sp @ le16 dp @ rest @ r"
    and k: "ipproto key = protocol i"
  shows "transport m p (of_nat (4 + length rest)) key =
    Inr (key\<lparr>srcport := ntohs sp, dstport := ntohs dp\<rparr>, frame_payload i sp dp rest)"
proof -
  let ?h = "l4_header_len (protocol i) rest" and ?s = "le16 sp @ le16 dp @ rest"
  have small: "4 + length rest < 2 ^ 32"
    using ok unat_u16_less [of "ntohs (tot_len i)"] by (simp add: frame_ok_def)
  have h: "?h \<le> 4 + length rest" using ok by (simp add: frame_ok_def)
  have ports: "ld16 m p = Inr sp" "ld16 m (p + 2) = Inr dp"
    using e by (simp_all add: m ld16_def nth_append le16_def)
  have data: "rdn m (p + ?h) (4 + length rest - ?h) = Inr (frame_payload i sp dp rest)"
  proof -
    have "?s = take ?h ?s @ frame_payload i sp dp rest"
      unfolding frame_payload_def by (rule append_take_drop_id [symmetric])
    then have "m = (e @ take ?h ?s) @ frame_payload i sp dp rest @ r"
      unfolding m by (metis append.assoc)
    moreover have "p + ?h = length (e @ take ?h ?s)" using e h by (simp add: le16_def)
    moreover have "4 + length rest - ?h = length (frame_payload i sp dp rest)"
      by (simp add: frame_payload_def le16_def)
    ultimately show ?thesis using rdn_at by metis
  qed
  have len: "unat (of_nat (4 + length rest) - of_nat ?h :: u32) = 4 + length rest - ?h"
    using unat_minus_of_nat [OF h small] .
  show ?thesis
  proof (cases "protocol i = IPPROTO_TCP")
    case True
    then have "16 \<le> length rest"
      using ok by (auto simp: frame_ok_def IPPROTO_TCP_def IPPROTO_UDP_def)
    then have "rd8 m (p + 12) = Inr (rest ! 8)"
      using e by (simp add: m rd8_def nth_append le16_def)
    moreover have "?h = 4 * unat (drop_bit 4 (rest ! 8))" using True by (simp add: l4_header_len_def)
    ultimately show ?thesis
      using True ports data len k by (simp add: transport_def Let_def)
  next
    case False
    then have "protocol i = IPPROTO_UDP" "?h = 8"
      using ok by (auto simp: frame_ok_def l4_header_len_def)
    then show ?thesis
      using False ports data len k by (simp add: transport_def)
  qed
qed

end
