(* ===== verification/Packet_Props.thy ===== *)
theory Packet_Props
  imports Packet_Handler
begin

text \<open>
  The properties of the packet handler: frames are turned into flow table operations with the right
  key and payload, the queue between its two threads loses and reorders nothing, and the
  notification between them can be lost.
\<close>

section \<open>Frames\<close>

lemma classifyFlows_frame:
  assumes ok: "frame_ok macs i opts rest"
    and pkt: "pk_pkt mdata = frame macs tcis i opts sp dp rest pad"
    and small: "length (frame macs tcis i opts sp dp rest pad) < 2 ^ 32"
  shows "classifyFlows now mdata ft =
    InsertOrUpdateFlows now ft (frame_key i sp dp) (frame_payload i sp dp rest) (pk_filter mdata) (pk_dir mdata)"
proof -
  let ?m = "pk_pkt mdata @ [0]" and ?e = "macs @ tags tcis"
  let ?T = "length (tags tcis)" and ?n = "length (pk_pkt mdata)"
  define k where "k = unat (ntohs (tot_len i)) + length pad"
  have macs: "length macs = 12" and tl: "unat (ntohs (tot_len i)) = 20 + length opts + 4 + length rest"
    using ok by (simp_all add: frame_ok_def)
  have n: "?n = 12 + ?T + 2 + k"
    using macs tl by (simp add: pkt frame_def k_def be16_def le16_def enc_IPHdr_def le32_def)
  have "strip_vlans ?m 12 (of_nat ?n - 12) = Inr (12 + ?T, of_nat ?n - 12 - of_nat ?T)"
    using strip_vlans_tags [OF macs, of "0x0800" tcis] by (simp add: pkt frame_def)
  moreover have "ld16 ?m (12 + ?T) = Inr (ntohs 0x0800)"
    using macs ld16_at [of "12 + ?T" ?e "hi8 0x0800" "lo8 0x0800"] by (simp add: pkt frame_def be16_def)
  moreover have l1: "of_nat ?n - 12 - of_nat ?T - 2 = (of_nat k :: u32)" by (simp add: n)
  have "k < 2 ^ 32" using small n pkt by simp
  then have "unat (of_nat k :: u32) = k" by (rule unat_of_nat_u32)
  then have "unat (ntohs (tot_len i)) \<le> unat (of_nat k :: u32)" by (simp add: k_def)
  then have "network ?m (12 + ?T + 2) (of_nat k) =
      Inr (Some (12 + ?T + 2 + 20 + length opts, of_nat (4 + length rest),
        (frame_key i 0 0)\<lparr>srcport := 0, dstport := 0\<rparr>))"
    using macs
    by (intro network_frame [OF ok, where e = "?e @ be16 0x0800"
          and r = "opts @ le16 sp @ le16 dp @ rest @ pad @ [0]"])
      (simp_all add: pkt frame_def be16_def)
  moreover have "transport ?m (12 + ?T + 2 + 20 + length opts) (of_nat (4 + length rest))
      ((frame_key i 0 0)\<lparr>srcport := 0, dstport := 0\<rparr>) =
      Inr (frame_key i sp dp, frame_payload i sp dp rest)"
    using macs transport_frame [OF ok, of "?e @ be16 0x0800 @ enc_IPHdr i @ opts" "12 + ?T + 2 + 20 + length opts"
        ?m sp dp "pad @ [0]" "(frame_key i 0 0)\<lparr>srcport := 0, dstport := 0\<rparr>"]
    by (simp add: pkt frame_def be16_def frame_key_def enc_IPHdr_def le_defs)
  ultimately show ?thesis
    using l1 by (simp add: classifyFlows_def Let_def populateFlowTable_def ETH_P_IP_def)
qed

section \<open>Draining the queue\<close>

fun classify_all :: "int \<Rightarrow> PktMdata list \<Rightarrow> flow_table \<Rightarrow> flow_table cres" where
  "classify_all now [] ft = Inr ft"
| "classify_all now (p # ps) ft = bindR (classifyFlows now p ft) (classify_all now ps)"

lemma drain_all:
  assumes "pcq_inv q" and "length (pcq_list q) < n"
  shows "\<exists>q'. pcq_inv q' \<and> pcq_list q' = [] \<and> PacketConsumer_drain n now cur q ft =
    bindR (classify_all now (pcq_list q) ft) (\<lambda>ft'. Inr (Some (q', ft')))"
  using assms
proof (induction n arbitrary: cur q ft)
  case (Suc n)
  show ?case
  proof (cases "pcq_list q")
    case Nil
    with Suc.prems show ?thesis by (intro exI [of _ q]) (simp add: pcq.empty_iff)
  next
    case (Cons x xs)
    from pcq.deq_Cons [OF Suc.prems(1) Cons] obtain q1
      where q1: "pcq_read q = Inr (Some x, q1)" "pcq_inv q1" "pcq_list q1 = xs" by blast
    have ne: "\<not> isEmpty q" using Cons pcq.empty_iff [OF Suc.prems(1)] by simp
    show ?thesis
    proof (cases "classifyFlows now x ft")
      case (Inl e)
      with ne q1 Cons show ?thesis
        using Suc.IH [of q1 x ft] Suc.prems by auto
    next
      case (Inr ft1)
      from Suc.IH [of q1 x ft1] Suc.prems q1 Cons obtain q'
        where "pcq_inv q'" "pcq_list q' = []" "PacketConsumer_drain n now x q1 ft1 =
          bindR (classify_all now xs ft1) (\<lambda>ft'. Inr (Some (q', ft')))" by auto
      with ne q1 Cons Inr show ?thesis by (intro exI [of _ q']) simp
    qed
  qed
qed simp

section \<open>The notification between the two threads\<close>

text \<open>
  The consumer tests \<open>notify\<close> with the mutex held, waits on the condition variable, drains the
  queue and clears \<open>notify\<close>; the producer writes, sets \<open>notify\<close> and signals without the mutex.
\<close>

datatype producer_at = PktIdle | PktStored | PktFlagged

datatype consumer_at = CTest | CDecided | CSleep | CDrain | CClear

record 'a handler_sys =
  hs_queue :: "'a list"
  hs_notify :: bool
  hs_producer :: producer_at
  hs_consumer :: consumer_at
  hs_written :: "'a list"
  hs_handled :: "'a list"

definition handler_init :: "'a handler_sys" where
  "handler_init = \<lparr>hs_queue = [], hs_notify = False, hs_producer = PktIdle, hs_consumer = CTest,
     hs_written = [], hs_handled = []\<rparr>"

inductive handler_step :: "'a handler_sys \<Rightarrow> 'a handler_sys \<Rightarrow> bool" where
  p_write: "hs_producer s = PktIdle \<Longrightarrow>
     handler_step s (s\<lparr>hs_producer := PktStored, hs_queue := hs_queue s @ [x], hs_written := hs_written s @ [x]\<rparr>)"
| p_flag: "hs_producer s = PktStored \<Longrightarrow> handler_step s (s\<lparr>hs_producer := PktFlagged, hs_notify := True\<rparr>)"
| p_signal: "hs_producer s = PktFlagged \<Longrightarrow>
     handler_step s (s\<lparr>hs_producer := PktIdle,
                       hs_consumer := (if hs_consumer s = CSleep then CTest else hs_consumer s)\<rparr>)"
| c_go: "hs_consumer s = CTest \<Longrightarrow> hs_notify s \<Longrightarrow> handler_step s (s\<lparr>hs_consumer := CDrain\<rparr>)"
| c_wait: "hs_consumer s = CTest \<Longrightarrow> \<not> hs_notify s \<Longrightarrow> handler_step s (s\<lparr>hs_consumer := CDecided\<rparr>)"
| c_sleep: "hs_consumer s = CDecided \<Longrightarrow> handler_step s (s\<lparr>hs_consumer := CSleep\<rparr>)"
| c_spurious: "hs_consumer s = CSleep \<Longrightarrow> handler_step s (s\<lparr>hs_consumer := CTest\<rparr>)"
| c_take: "hs_consumer s = CDrain \<Longrightarrow> hs_queue s = x # xs \<Longrightarrow>
     handler_step s (s\<lparr>hs_queue := xs, hs_handled := hs_handled s @ [x]\<rparr>)"
| c_empty: "hs_consumer s = CDrain \<Longrightarrow> hs_queue s = [] \<Longrightarrow> handler_step s (s\<lparr>hs_consumer := CClear\<rparr>)"
| c_clear: "hs_consumer s = CClear \<Longrightarrow> handler_step s (s\<lparr>hs_notify := False, hs_consumer := CTest\<rparr>)"

inductive handler_reachable :: "'a handler_sys \<Rightarrow> bool" where
  start: "handler_reachable handler_init"
| step: "handler_reachable s \<Longrightarrow> handler_step s s' \<Longrightarrow> handler_reachable s'"

lemma handler_fifo:
  assumes "handler_reachable s"
  shows "hs_written s = hs_handled s @ hs_queue s"
  using assms
proof (induction rule: handler_reachable.induct)
  case (step s s')
  from step.hyps(2) step.IH show ?case by cases auto
qed (simp add: handler_init_def)

text \<open>The consumer has seen the queue empty and is about to clear the flag.\<close>

definition clearing :: "'a list \<Rightarrow> 'a handler_sys" where
  "clearing w = \<lparr>hs_queue = [], hs_notify = True, hs_producer = PktIdle, hs_consumer = CClear,
     hs_written = w, hs_handled = w\<rparr>"

lemma clearing_reachable: "handler_reachable (clearing [x])"
proof -
  note S = handler_reachable.step
  let ?s = handler_init
  have 1: "handler_reachable (?s\<lparr>hs_producer := PktStored, hs_queue := [x], hs_written := [x]\<rparr>)"
    using S [OF start p_write [of ?s x]] by (simp add: handler_init_def)
  have 2: "handler_reachable (?s\<lparr>hs_producer := PktFlagged, hs_queue := [x], hs_written := [x], hs_notify := True\<rparr>)"
    using S [OF 1 p_flag] by (simp add: handler_init_def)
  have 3: "handler_reachable (?s\<lparr>hs_queue := [x], hs_written := [x], hs_notify := True\<rparr>)"
    using S [OF 2 p_signal] by (simp add: handler_init_def)
  have 4: "handler_reachable (?s\<lparr>hs_queue := [x], hs_written := [x], hs_notify := True, hs_consumer := CDrain\<rparr>)"
    using S [OF 3 c_go] by (simp add: handler_init_def)
  have 5: "handler_reachable (?s\<lparr>hs_handled := [x], hs_written := [x], hs_notify := True, hs_consumer := CDrain\<rparr>)"
    using S [OF 4 c_take [where x = x and xs = "[]"]] by (simp add: handler_init_def)
  show ?thesis using S [OF 5 c_empty] by (simp add: handler_init_def clearing_def)
qed

lemma lost_notification:
  "handler_reachable \<lparr>hs_queue = [y], hs_notify = False, hs_producer = PktIdle, hs_consumer = CSleep,
     hs_written = [x, y], hs_handled = [x]\<rparr>"
proof -
  note S = handler_reachable.step
  let ?c = "clearing [x]"
  have 1: "handler_reachable (?c\<lparr>hs_producer := PktStored, hs_queue := [y], hs_written := [x, y]\<rparr>)"
    using S [OF clearing_reachable p_write [of ?c y]] by (simp add: clearing_def)
  have 2: "handler_reachable (?c\<lparr>hs_producer := PktFlagged, hs_queue := [y], hs_written := [x, y]\<rparr>)"
    using S [OF 1 p_flag] by (simp add: clearing_def)
  have 3: "handler_reachable (?c\<lparr>hs_queue := [y], hs_written := [x, y]\<rparr>)"
    using S [OF 2 p_signal] by (simp add: clearing_def)
  have 4: "handler_reachable (?c\<lparr>hs_queue := [y], hs_written := [x, y], hs_notify := False, hs_consumer := CTest\<rparr>)"
    using S [OF 3 c_clear] by (simp add: clearing_def)
  have 5: "handler_reachable (?c\<lparr>hs_queue := [y], hs_written := [x, y], hs_notify := False, hs_consumer := CDecided\<rparr>)"
    using S [OF 4 c_wait] by (simp add: clearing_def)
  show ?thesis using S [OF 5 c_sleep] by (simp add: clearing_def)
qed

section \<open>Properties\<close>

text \<open>C4 A well-formed frame, with any number of VLAN tags, IP options and Ethernet padding, carrying TCP
  or UDP over IPv4, becomes exactly one flow table operation: the key has the packet's addresses,
  ports and protocol in host byte order, and the data is exactly the transport payload, without
  headers and without padding.\<close>

theorem classify_frame:
  assumes "frame_ok macs i opts rest" and "pk_pkt mdata = frame macs tcis i opts sp dp rest pad"
    and "length (frame macs tcis i opts sp dp rest pad) < 2 ^ 32"
  shows "classifyFlows now mdata ft =
    InsertOrUpdateFlows now ft (frame_key i sp dp) (frame_payload i sp dp rest) (pk_filter mdata) (pk_dir mdata)"
  using assms by (rule classifyFlows_frame)

definition udp_ip :: IPHdr where
  "udp_ip = \<lparr>ihl = 5, ip_version = 4, tos = 0, tot_len = ntohs 30, ip_id = 7, frag_off = 0, ttl = 64,
     protocol = IPPROTO_UDP, ip_check = 0, saddr = 0x0100000A, daddr = 0x0201A8C0\<rparr>"

definition udp_sample :: PktMdata where
  "udp_sample = \<lparr>pk_filter = None,
     pk_pkt = frame (replicate 12 0) [5] udp_ip [] (ntohs 40000) (ntohs 53) [0, 10, 0, 0, 1, 2] [9, 9],
     pk_dir = 1\<rparr>"

theorem classify_frame_witness:
  "classifyFlows 100 udp_sample ft_sample =
   InsertOrUpdateFlows 100 ft_sample (frame_key udp_ip (ntohs 40000) (ntohs 53)) [1, 2] None 1"
proof -
  have "frame_ok (replicate 12 0) udp_ip [] [0, 10, 0, 0, 1, 2]"
    by (simp add: frame_ok_def udp_ip_def l4_header_len_def IPPROTO_UDP_def IPPROTO_TCP_def)
  from classify_frame [OF this, of udp_sample "[5]" "ntohs 40000" "ntohs 53" "[9, 9]" 100 ft_sample]
  show ?thesis
    by (simp add: udp_sample_def frame_def tags_def be16_def le16_def enc_IPHdr_def le32_def
        frame_payload_def l4_header_len_def udp_ip_def IPPROTO_UDP_def IPPROTO_TCP_def)
qed

text \<open>The parser does not check that a frame is long enough for the headers it reads: every packet of fewer than
  13 bytes makes it read behind the packet's string.\<close>

lemma short_frame_overread:
  assumes "length (pk_pkt mdata) < 13"
  shows "classifyFlows now mdata ft = Inl OutOfBounds"
proof -
  have "ld16 (pk_pkt mdata @ [0]) 12 = Inl OutOfBounds" using assms by (simp add: ld16_def)
  then show ?thesis by (simp add: classifyFlows_def Let_def strip_vlans.simps)
qed

lemma short_frame_overread_witness:
  "classifyFlows 100 \<lparr>pk_filter = None, pk_pkt = [1, 2, 3], pk_dir = 0\<rparr> ft_sample = Inl OutOfBounds"
  using short_frame_overread [of "\<lparr>pk_filter = None, pk_pkt = [1, 2, 3], pk_dir = 0\<rparr>"] by simp

text \<open>C25 A packet accepted by the producer and everything queued before it reach the parser in the order of
  arrival: one pass of the consumer takes the whole queue, each packet once, and leaves it empty.\<close>

theorem queued_packets_classified:
  assumes "pcq_inv q" and "length (pcq_list q) < pcq_cap q" and "a + unat len \<le> length m"
    and "pm_pktPtr md = Some a" and "pcq_cap q < n"
  shows "\<exists>q1 q2. PacketProducer m md len q = Inr (True, q1) \<and> pcq_inv q2 \<and> pcq_list q2 = [] \<and>
    PacketConsumer_drain n now cur q1 ft =
      bindR (classify_all now (pcq_list q @ [\<lparr>pk_filter = pm_filterPtr md,
               pk_pkt = take (unat len) (drop a m), pk_dir = pm_dir md\<rparr>]) ft) (\<lambda>ft'. Inr (Some (q2, ft')))"
proof -
  let ?p = "\<lparr>pk_filter = pm_filterPtr md, pk_pkt = take (unat len) (drop a m), pk_dir = pm_dir md\<rparr>"
  from pcq.enq_room [OF assms(1,2)] obtain q1 where q1: "pcq_write q ?p = Inr (True, q1)" "pcq_inv q1"
    "pcq_list q1 = pcq_list q @ [?p]" "pcq_cap q1 = pcq_cap q" by blast
  have "PacketProducer m md len q = Inr (True, q1)"
    using assms(3,4) q1(1) by (simp add: PacketProducer_def rdn_def)
  moreover have "length (pcq_list q1) < n" using q1(3) assms(2,5) by simp
  ultimately show ?thesis using drain_all [OF q1(2), of n now cur ft] q1(3) by auto
qed

definition pkq_sample :: "PktMdata pcq" where
  "pkq_sample = \<lparr>qsize = 3, records = [None, None, None], readIndex = 0, writeIndex = 0\<rparr>"

theorem queued_packets_classified_witness:
  "\<exists>q1 q2. PacketProducer [7, 8, 9] \<lparr>pm_filterPtr = None, pm_pktPtr = Some 1, pm_dir = 2\<rparr> 2 pkq_sample =
       Inr (True, q1) \<and>
     PacketConsumer_drain 3 100 udp_sample q1 ft_sample =
       bindR (classify_all 100 [\<lparr>pk_filter = None, pk_pkt = [8, 9], pk_dir = 2\<rparr>] ft_sample)
         (\<lambda>ft'. Inr (Some (q2, ft')))"
proof -
  have "pcq_inv pkq_sample" "pcq_list pkq_sample = []" "pcq_cap pkq_sample = 2"
    by (simp_all add: pkq_sample_def pcq_defs live_slots_def pcq_cap_def)
      (auto simp: nth_Cons less_Suc_eq numeral_3_eq_3)
  then show ?thesis
    using queued_packets_classified [of pkq_sample 1 2 "[7, 8, 9]"
        "\<lparr>pm_filterPtr = None, pm_pktPtr = Some 1, pm_dir = 2\<rparr>" 3 100 udp_sample ft_sample]
    by auto
qed

text \<open>C35 The notification of the consumer can be lost: a state is reachable in which a packet lies in the
  queue, the producer has finished with it and the consumer sleeps with the flag cleared, so that the
  packet stays there until another one arrives.\<close>

theorem notification_can_be_lost:
  "\<exists>s :: nat handler_sys. handler_reachable s \<and> hs_queue s \<noteq> [] \<and> hs_producer s = PktIdle \<and>
     hs_consumer s = CSleep \<and> \<not> hs_notify s"
  using lost_notification [of 2 1] by fastforce

end
