(* ===== verification/DPI_Engine.thy ===== *)
theory DPI_Engine
  imports Flow_Results
begin

text \<open>
  The DPI threads of \<open>DPIEngine.cpp\<close> and the consumer of \<open>DataPathUpdate.cpp\<close>.

  Thread \<open>i\<close> runs \<open>Dequeue(i)\<close> on queue \<open>i\<close>.  One iteration of its loop is \<open>Dequeue_iter\<close>: it reads
  the flow through the two pointers of the message, so a message for an erased flow is a use after
  free.  The calls an iteration makes into the NAVL library are returned beside the new state; what
  the library answers is a record of functions, the callback of \<open>navl_classify\<close> being the arguments
  the library passes to it, if it calls it.  \<open>g\<close> is the thread's \<open>g_navlhandle_\<close>.
\<close>

section \<open>Data\<close>

definition NAVL_AF_INET :: u8 where "NAVL_AF_INET = 1"
definition NAVL_ENCAP_NONE :: int where "NAVL_ENCAP_NONE = 0"

record navl_host =
  nh_family :: u8
  nh_port :: u16
  in4_addr :: u32

record navl_callback =
  cb_handle :: int
  cb_result :: addr
  cb_state :: navl_state_t
  cb_error :: int

record navl_engine =
  ne_lib :: navl_lib
  navl_conn_create :: "int \<Rightarrow> navl_host \<Rightarrow> navl_host \<Rightarrow> u8 \<Rightarrow> int \<times> ptr"
  navl_classify :: "int \<Rightarrow> int \<Rightarrow> bytes \<Rightarrow> u16 \<Rightarrow> ptr \<Rightarrow> int \<Rightarrow> int \<times> navl_callback option"

datatype navl_call =
    NavlConnCreate int navl_host navl_host u8
  | NavlClassify int int bytes u16 ptr int

datatype dequeue_result =
    Waiting                                  \<comment> \<open>\<open>pop\<close> waits on the empty queue\<close>
  | Left flow_table                          \<comment> \<open>the loop ended at an exit message\<close>
  | Again flow_table "navl_call list"        \<comment> \<open>the loop goes on\<close>

section \<open>Operations\<close>

definition DPIEngine_new :: "int \<Rightarrow> ConnMetadata list list" where
  "DPIEngine_new numthreads = replicate (nat numthreads) []"

definition host_of :: "u32 \<Rightarrow> u16 \<Rightarrow> navl_host" where
  "host_of a p = \<lparr>nh_family = NAVL_AF_INET, nh_port = htons p, in4_addr = htonl a\<rparr>"

definition navl_classify_callback ::
  "navl_lib \<Rightarrow> int \<Rightarrow> flow_table \<Rightarrow> addr \<Rightarrow> navl_callback \<Rightarrow> (int \<times> flow_table) cres" where
  "navl_classify_callback lib now ft arg cb =
     updateFlowTableDPIData lib now ft arg (cb_handle cb) (cb_result cb) (cb_state cb) (cb_error cb)"

definition create_conn ::
  "navl_engine \<Rightarrow> int \<Rightarrow> flow_table \<Rightarrow> addr \<Rightarrow> addr \<Rightarrow> (flow_table \<times> navl_call list) cres" where
  "create_conn E g ft key info = (case ct_at (conn_table ft) key of
       None \<Rightarrow> Inl UseAfterFree
     | Some kn \<Rightarrow>
         let k = n_key kn;
             src_addr = host_of (srcaddr k) (srcport k);
             dst_addr = host_of (dstaddr k) (dstport k);
             (rc, conn) = navl_conn_create E g src_addr dst_addr (ipproto k)
         in Inr (ft\<lparr>conn_table := ct_update info (\<lambda>ci. ci\<lparr>ci_handle := g, dpi_state := conn\<rparr>) (conn_table ft)\<rparr>,
                 [NavlConnCreate g src_addr dst_addr (ipproto k)]))"

text \<open>\<open>navl_classify\<close> takes the length as an \<open>unsigned short\<close> and the direction as an \<open>int\<close>.\<close>

definition classify_msg ::
  "navl_engine \<Rightarrow> int \<Rightarrow> int \<Rightarrow> flow_table \<Rightarrow> addr \<Rightarrow> ConnInfo \<Rightarrow> ConnMetadata \<Rightarrow>
   (flow_table \<times> navl_call list) cres" where
  "classify_msg E now g ft info ci m =
     (if ci_error ci = 0 \<and> length (md_data m) \<noteq> 0 \<and> class_state ci = NAVL_STATE_INSPECTING
      then
        let len = of_nat (length (md_data m)) :: u16;
            dir = sint (md_dir m);
            calls = [NavlClassify g NAVL_ENCAP_NONE (md_data m) len (dpi_state ci) dir];
            (rc, cb) = navl_classify E g NAVL_ENCAP_NONE (md_data m) len (dpi_state ci) dir
        in (case cb of
              None \<Rightarrow> Inr (ft, calls)
            | Some c \<Rightarrow> bindR (navl_classify_callback (ne_lib E) now ft info c) (\<lambda>(_, ft'). Inr (ft', calls)))
      else Inr (ft, []))"

definition Dequeue_msg ::
  "navl_engine \<Rightarrow> int \<Rightarrow> int \<Rightarrow> flow_table \<Rightarrow> ConnMetadata \<Rightarrow> (flow_table \<times> navl_call list) cres" where
  "Dequeue_msg E now g ft m = (case md_info m of
       None \<Rightarrow> Inl NullDeref
     | Some info \<Rightarrow>
       (case ct_at (conn_table ft) info of
          None \<Rightarrow> Inl UseAfterFree
        | Some n \<Rightarrow>
            if dpi_state (n_info n) = None
            then (case md_key m of None \<Rightarrow> Inl NullDeref | Some key \<Rightarrow> create_conn E g ft key info)
            else classify_msg E now g ft info (n_info n) m))"

definition Dequeue_iter ::
  "navl_engine \<Rightarrow> int \<Rightarrow> int \<Rightarrow> nat \<Rightarrow> flow_table \<Rightarrow> dequeue_result cres" where
  "Dequeue_iter E now g i ft =
     (if i < length (dpiQueues ft)
      then case wq_pop (dpiQueues ft ! i) of
             None \<Rightarrow> Inr Waiting
           | Some (m, rest) \<Rightarrow>
               let ft1 = ft\<lparr>dpiQueues := (dpiQueues ft)[i := rest]\<rparr>
               in if md_exit_flag m \<noteq> 0 then Inr (Left ft1)
                  else bindR (Dequeue_msg E now g ft1 m) (\<lambda>(ft2, calls). Inr (Again ft2 calls))
      else Inl OutOfBounds)"

text \<open>The loop, with the library's behaviour and the time of each iteration given in a list; \<open>None\<close>
  when the thread waits or the list ends first.  The calls made are accumulated.\<close>

fun Dequeue_loop ::
  "(navl_engine \<times> int) list \<Rightarrow> int \<Rightarrow> nat \<Rightarrow> flow_table \<Rightarrow> navl_call list \<Rightarrow>
   (flow_table \<times> navl_call list) option cres" where
  "Dequeue_loop [] g i ft log = Inr None"
| "Dequeue_loop ((E, now) # es) g i ft log =
     bindR (Dequeue_iter E now g i ft) (\<lambda>r. case r of
         Waiting \<Rightarrow> Inr None
       | Left ft' \<Rightarrow> Inr (Some (ft', log))
       | Again ft' calls \<Rightarrow> Dequeue_loop es g i ft' (log @ calls))"

text \<open>The handler of \<open>std::exception\<close> around the loop.\<close>

definition Dequeue_catch :: "nat \<Rightarrow> flow_table \<Rightarrow> flow_table cres" where
  "Dequeue_catch i ft =
     (let ft1 = decrementNumQueues ft
      in bindR (bq_clear \<lparr>items = dpiQueues ft1 ! i, locked = False\<rparr>) (\<lambda>q.
           Inr (ft1\<lparr>dpiQueues := (dpiQueues ft1)[i := items q]\<rparr>)))"

text \<open>The consumer of the results: it takes records until one carries the exit flag.\<close>

definition GetDPIFlowData :: "nat \<Rightarrow> DPIFlowData bqueue \<Rightarrow> (DPIFlowData list \<times> DPIFlowData bqueue) option cres" where
  "GetDPIFlowData n q = pop_loop bq_pop fd_exit_flag n q"

end
