(* ===== verification/DPI_Props.thy ===== *)
theory DPI_Props
  imports DPI_Engine
begin

text \<open>
  What one iteration of a DPI thread does to the flow table, the states the packet handler, the DPI
  threads and the cleanup thread reach together, and the properties of the engine and of the
  consumer of its results.
\<close>

section \<open>One message\<close>

definition takes_classify :: "ConnInfo \<Rightarrow> ConnMetadata \<Rightarrow> bool" where
  "takes_classify ci m \<longleftrightarrow> ci_error ci = 0 \<and> md_data m \<noteq> [] \<and> forwards ci"

definition lib_answer :: "navl_engine \<Rightarrow> int \<Rightarrow> ConnInfo \<Rightarrow> ConnMetadata \<Rightarrow> navl_callback option" where
  "lib_answer E g ci m = (if takes_classify ci m
     then snd (navl_classify E g NAVL_ENCAP_NONE (md_data m) (of_nat (length (md_data m))) (dpi_state ci) (sint (md_dir m)))
     else None)"

definition answered :: "navl_engine \<Rightarrow> int \<Rightarrow> navl_callback option \<Rightarrow> ConnInfo \<Rightarrow> ConnInfo" where
  "answered E now r ci = (case r of None \<Rightarrow> ci
     | Some c \<Rightarrow> classified_info (ne_lib E) now (cb_handle c) (cb_result c) (cb_state c) (cb_error c) ci)"

definition opened :: "navl_engine \<Rightarrow> int \<Rightarrow> ConnKey \<Rightarrow> ConnInfo \<Rightarrow> ConnInfo" where
  "opened E g k ci = ci\<lparr>ci_handle := g, dpi_state := snd (navl_conn_create E g
     (host_of (srcaddr k) (srcport k)) (host_of (dstaddr k) (dstport k)) (ipproto k))\<rparr>"

definition dequeued_info :: "navl_engine \<Rightarrow> int \<Rightarrow> int \<Rightarrow> flow_node \<Rightarrow> ConnMetadata \<Rightarrow> ConnInfo" where
  "dequeued_info E now g n m = (if dpi_state (n_info n) = None then opened E g (n_key n) (n_info n)
     else answered E now (lib_answer E g (n_info n) m) (n_info n))"

definition dequeued_calls :: "int \<Rightarrow> flow_node \<Rightarrow> ConnMetadata \<Rightarrow> navl_call list" where
  "dequeued_calls g n m =
     (let k = n_key n in
      if dpi_state (n_info n) = None
      then [NavlConnCreate g (host_of (srcaddr k) (srcport k)) (host_of (dstaddr k) (dstport k)) (ipproto k)]
      else if takes_classify (n_info n) m
      then [NavlClassify g NAVL_ENCAP_NONE (md_data m) (of_nat (length (md_data m)))
              (dpi_state (n_info n)) (sint (md_dir m))]
      else [])"

definition final_answer :: "navl_callback option \<Rightarrow> bool" where
  "final_answer r \<longleftrightarrow> (\<exists>c. r = Some c \<and> is_done (cb_state c))"

definition reported :: "navl_engine \<Rightarrow> int \<Rightarrow> string \<Rightarrow> flow_node \<Rightarrow> navl_callback option \<Rightarrow> DPIFlowData list" where
  "reported E now buf n r = (case r of None \<Rightarrow> []
     | Some c \<Rightarrow> if is_done (cb_state c)
         then [flow_result (n_key n) (answered E now r (n_info n))
                 (result_name (ne_lib E) (cb_handle c) (cb_result c) buf)]
         else [])"

lemma table_of_inv: "ft_inv ft \<Longrightarrow> table_inv (length (dpiQueues ft)) (next_addr ft) (conn_table ft)"
  by (simp add: ft_inv_def)

lemma nodes_ok: "ft_inv ft \<Longrightarrow> x \<in> set (conn_table ft) \<Longrightarrow> node_ok (length (dpiQueues ft)) x"
  by (simp add: ft_inv_def table_inv_def)

lemma ct_update_id [simp]: "ct_update a (answered E now None) t = t"
  by (simp add: ct_update_def answered_def cong: if_cong)

lemma create_conn_live:
  assumes inv: "ft_inv ft" and refs: "refs_inv ft" and n: "n \<in> set (conn_table ft)"
  shows "\<exists>ft'. create_conn E g ft (n_addr n) (n_addr n) = Inr (ft',
       [NavlConnCreate g (host_of (srcaddr (n_key n)) (srcport (n_key n)))
          (host_of (dstaddr (n_key n)) (dstport (n_key n))) (ipproto (n_key n))]) \<and>
     conn_table ft' = ct_update (n_addr n) (opened E g (n_key n)) (conn_table ft) \<and>
     dpiQueues ft' = dpiQueues ft \<and> next_addr ft' = next_addr ft \<and> numQueues ft' = numQueues ft \<and>
     dpQueue ft' = dpQueue ft \<and> destroyed ft' = destroyed ft \<and> ft_inv ft' \<and> refs_inv ft'"
proof -
  let ?ft = "ft\<lparr>conn_table := ct_update (n_addr n) (opened E g (n_key n)) (conn_table ft)\<rparr>"
  have "node_ok (length (dpiQueues ft)) (x\<lparr>n_info := opened E g (n_key n) (n_info x)\<rparr>)"
    if "x \<in> set (conn_table ft)" for x
    using nodes_ok [OF inv that] by (simp add: opened_def node_ok_def)
  then have "table_inv (length (dpiQueues ft)) (next_addr ft) (conn_table ?ft)"
    using table_inv_update [OF table_of_inv [OF inv], of "n_addr n" "opened E g (n_key n)"] by simp
  moreover have "refs_inv ?ft"
    using refs by (rule refs_inv_ct_update [where f = "opened E g (n_key n)"]) (simp_all add: opened_def)
  moreover have "ct_at (conn_table ft) (n_addr n) = Some n" using ct_at_in [OF inv] n by simp
  then have "create_conn E g ft (n_addr n) (n_addr n) = Inr (?ft,
       [NavlConnCreate g (host_of (srcaddr (n_key n)) (srcport (n_key n)))
          (host_of (dstaddr (n_key n)) (dstport (n_key n))) (ipproto (n_key n))])"
    by (simp add: create_conn_def Let_def opened_def [abs_def] split: prod.splits)
  ultimately show ?thesis using inv by (simp add: ft_inv_def)
qed

lemma classify_msg_live:
  assumes inv: "ft_inv ft" and refs: "refs_inv ft" and n: "n \<in> set (conn_table ft)"
    and s: "dpi_state (n_info n) \<noteq> None"
  shows "\<exists>ft'. classify_msg E now g ft (n_addr n) (n_info n) m = Inr (ft', dequeued_calls g n m) \<and>
     conn_table ft' = ct_update (n_addr n) (answered E now (lib_answer E g (n_info n) m)) (conn_table ft) \<and>
     dpiQueues ft' = dpiQueues ft \<and> next_addr ft' = next_addr ft \<and> numQueues ft' = numQueues ft \<and>
     dpQueue ft' = dpQueue ft @ reported E now (ft_name ft) n (lib_answer E g (n_info n) m) \<and>
     destroyed ft' = destroyed ft @ (if final_answer (lib_answer E g (n_info n) m) then [navl_ref n] else []) \<and>
     ft_inv ft' \<and> refs_inv ft'"
proof (cases "lib_answer E g (n_info n) m")
  case None
  then show ?thesis using inv refs s
    by (auto simp: classify_msg_def lib_answer_def takes_classify_def forwards_def dequeued_calls_def
        final_answer_def reported_def Let_def split: if_splits prod.splits)
next
  case (Some c)
  then have t: "takes_classify (n_info n) m" by (simp add: lib_answer_def split: if_splits)
  let ?u = "updateFlowTableDPIData (ne_lib E) now ft (n_addr n) (cb_handle c) (cb_result c) (cb_state c) (cb_error c)"
  from callback_eq [OF inv n] obtain ft' where r: "?u = Inr (0, ft')" by blast
  have "classify_msg E now g ft (n_addr n) (n_info n) m = Inr (ft', dequeued_calls g n m)"
    using Some t s r
    by (auto simp: classify_msg_def lib_answer_def takes_classify_def forwards_def dequeued_calls_def
        navl_classify_callback_def Let_def split: prod.splits)
  with r callback_keeps [OF inv refs r] Some callback_eq [OF inv n, of "ne_lib E" now "cb_handle c"
      "cb_result c" "cb_state c" "cb_error c"]
  show ?thesis by (auto simp: answered_def [abs_def] final_answer_def reported_def split: if_splits)
qed

lemma pop_keeps:
  assumes "ft_inv ft" and "refs_inv ft" and "i < length (dpiQueues ft)" and "dpiQueues ft ! i = m # rest"
  shows "ft_inv (ft\<lparr>dpiQueues := (dpiQueues ft)[i := rest]\<rparr>) \<and> refs_inv (ft\<lparr>dpiQueues := (dpiQueues ft)[i := rest]\<rparr>)"
proof
  show "ft_inv (ft\<lparr>dpiQueues := (dpiQueues ft)[i := rest]\<rparr>)" using assms(1) by (simp add: ft_inv_def)
  have "x \<in> set (dpiQueues ft ! j)" if "x \<in> set ((dpiQueues ft)[i := rest] ! j)" "j < length (dpiQueues ft)" for x j
    using that assms(3,4) by (cases "j = i") auto
  then show "refs_inv (ft\<lparr>dpiQueues := (dpiQueues ft)[i := rest]\<rparr>)"
    using assms(2) unfolding refs_inv_def by auto
qed

text \<open>An iteration whose message is for a flow in the table.\<close>

lemma Dequeue_iter_live:
  assumes inv: "ft_inv ft" and refs: "refs_inv ft" and i: "i < length (dpiQueues ft)"
    and q: "dpiQueues ft ! i = m # rest" and e: "md_exit_flag m = 0"
    and n: "n \<in> set (conn_table ft)" "md_info m = Some (n_addr n)"
  shows "\<exists>ft' f. Dequeue_iter E now g i ft = Inr (Again ft' (dequeued_calls g n m)) \<and>
     conn_table ft' = ct_update (n_addr n) f (conn_table ft) \<and> f (n_info n) = dequeued_info E now g n m \<and>
     dpiQueues ft' = (dpiQueues ft)[i := rest] \<and> next_addr ft' = next_addr ft \<and> numQueues ft' = numQueues ft \<and>
     dpQueue ft' = dpQueue ft @ reported E now (ft_name ft) n (lib_answer E g (n_info n) m) \<and>
     destroyed ft' = destroyed ft @ (if final_answer (lib_answer E g (n_info n) m) then [navl_ref n] else []) \<and>
     ft_inv ft' \<and> refs_inv ft'"
proof -
  let ?ft = "ft\<lparr>dpiQueues := (dpiQueues ft)[i := rest]\<rparr>"
  have k: "ft_inv ?ft" "refs_inv ?ft" using pop_keeps [OF inv refs i q] by blast+
  have at: "ct_at (conn_table ft) (n_addr n) = Some n" using ct_at_in [OF inv] n by simp
  have key: "md_key m = Some (n_addr n)"
    using refs_invE [OF refs i _ e] q n(2) by (metis list.set_intros(1) option.inject)
  have iter: "Dequeue_iter E now g i ft = bindR (if dpi_state (n_info n) = None
      then create_conn E g ?ft (n_addr n) (n_addr n) else classify_msg E now g ?ft (n_addr n) (n_info n) m)
      (\<lambda>(ft2, calls). Inr (Again ft2 calls))"
    using i q e n(2) key at by (simp add: Dequeue_iter_def Dequeue_msg_def Let_def)
  show ?thesis
  proof (cases "dpi_state (n_info n) = None")
    case True
    from create_conn_live [OF k, of n E g] n(1) obtain ft' where
      "create_conn E g ?ft (n_addr n) (n_addr n) = Inr (ft', dequeued_calls g n m)"
      "conn_table ft' = ct_update (n_addr n) (opened E g (n_key n)) (conn_table ft)"
      "dpiQueues ft' = (dpiQueues ft)[i := rest]" "next_addr ft' = next_addr ft" "numQueues ft' = numQueues ft"
      "dpQueue ft' = dpQueue ft" "destroyed ft' = destroyed ft" "ft_inv ft'" "refs_inv ft'"
      using True by (auto simp: dequeued_calls_def Let_def)
    with iter True show ?thesis
      by (intro exI [of _ ft'] exI [of _ "opened E g (n_key n)"])
        (simp add: dequeued_info_def lib_answer_def takes_classify_def forwards_def final_answer_def reported_def)
  next
    case False
    from classify_msg_live [OF k, of n E now g m] n(1) False obtain ft' where
      "classify_msg E now g ?ft (n_addr n) (n_info n) m = Inr (ft', dequeued_calls g n m)"
      "conn_table ft' = ct_update (n_addr n) (answered E now (lib_answer E g (n_info n) m)) (conn_table ft)"
      "dpiQueues ft' = (dpiQueues ft)[i := rest]" "next_addr ft' = next_addr ft" "numQueues ft' = numQueues ft"
      "dpQueue ft' = dpQueue ft @ reported E now (ft_name ft) n (lib_answer E g (n_info n) m)"
      "destroyed ft' = destroyed ft @ (if final_answer (lib_answer E g (n_info n) m) then [navl_ref n] else [])"
      "ft_inv ft'" "refs_inv ft'" by auto
    moreover from False have "dequeued_info E now g n m = answered E now (lib_answer E g (n_info n) m) (n_info n)"
      by (simp only: dequeued_info_def if_False)
    ultimately show ?thesis using iter False
      by (intro exI [of _ ft'] exI [of _ "answered E now (lib_answer E g (n_info n) m)"]) simp
  qed
qed

lemma Dequeue_iter_dangling:
  assumes "ft_inv ft" and "i < length (dpiQueues ft)" and "dpiQueues ft ! i = m # rest"
    and "md_exit_flag m = 0" and "md_info m = Some a" and "a \<notin> n_addr ` set (conn_table ft)"
  shows "Dequeue_iter E now g i ft = Inl UseAfterFree"
proof -
  have "ct_at (conn_table ft) a = None"
    using assms(6) ct_at_in [OF assms(1), of a] by (metis image_eqI not_Some_eq)
  with assms show ?thesis by (simp add: Dequeue_iter_def Dequeue_msg_def Let_def)
qed

text \<open>A DPI thread works through the messages of live flows and ends at the exit message, with at most
  one library call for each of them.\<close>

lemma Dequeue_loop_ends:
  assumes "ft_inv ft" and "refs_inv ft" and "i < length (dpiQueues ft)" and "dpiQueues ft ! i = ms @ e # ys"
    and "md_exit_flag e \<noteq> 0" and "\<forall>m \<in> set ms. md_exit_flag m = 0 \<and> md_info m \<in> Some ` n_addr ` set (conn_table ft)"
    and "length ms < length es"
  shows "\<exists>ft' calls. Dequeue_loop es g i ft log = Inr (Some (ft', log @ calls)) \<and>
    dpiQueues ft' = (dpiQueues ft)[i := ys] \<and> length calls \<le> length ms"
  using assms
proof (induction ms arbitrary: ft es log)
  case Nil
  then obtain E now es' where "es = (E, now) # es'" by (cases es) auto
  with Nil show ?case by (auto simp: Dequeue_iter_def Let_def intro!: exI [of _ "[]"])
next
  case (Cons m ms)
  then obtain E now es' where es: "es = (E, now) # es'" by (cases es) auto
  from Cons.prems(6) obtain n where n: "n \<in> set (conn_table ft)" "md_info m = Some (n_addr n)" by auto
  have q: "dpiQueues ft ! i = m # ms @ e # ys" and x: "md_exit_flag m = 0" using Cons.prems(4,6) by simp_all
  from Dequeue_iter_live [OF Cons.prems(1-3) q x n, of E now g] obtain ft' f where
    R: "Dequeue_iter E now g i ft = Inr (Again ft' (dequeued_calls g n m))"
    "conn_table ft' = ct_update (n_addr n) f (conn_table ft)" "dpiQueues ft' = (dpiQueues ft)[i := ms @ e # ys]"
    "ft_inv ft'" "refs_inv ft'" by blast
  have t: "n_addr ` set (conn_table ft') = n_addr ` set (conn_table ft)" using R(2) by (metis list.set_map map_ct_update(1))
  from Cons.IH [OF R(4,5), of es' "log @ dequeued_calls g n m"] Cons.prems R(3) es obtain ft'' calls where
    "Dequeue_loop es' g i ft' (log @ dequeued_calls g n m) = Inr (Some (ft'', (log @ dequeued_calls g n m) @ calls))"
    "dpiQueues ft'' = (dpiQueues ft)[i := ys]" "length calls \<le> length ms"
    unfolding t by auto
  moreover have "length (dequeued_calls g n m) \<le> 1" by (simp add: dequeued_calls_def Let_def)
  ultimately show ?case using R(1) es by (intro exI [of _ ft''] exI [of _ "dequeued_calls g n m @ calls"]) simp
qed

text \<open>The exception handler of a thread gives up its queue; with a message queued it never returns.\<close>

lemma Dequeue_catch_outcome:
  "i < length (dpiQueues ft) \<Longrightarrow> Dequeue_catch i ft =
     (if dpiQueues ft ! i = [] then Inr (ft\<lparr>numQueues := numQueues ft - 1, dpiQueues := (dpiQueues ft)[i := []]\<rparr>)
      else Inl SelfDeadlock)"
  by (simp add: Dequeue_catch_def decrementNumQueues_def Let_def bq_clear_def bq_lock_def bq_unlock_def
      bq_clear_loop.simps bq_pop_def split: list.splits)

section \<open>The running system\<close>

text \<open>What the packet handler, the DPI threads and the cleanup thread make of the table between
  \<open>start\<close> and \<open>stop\<close>, with \<open>nq\<close> DPI threads; \<open>reclaim\<close> says whether the cleanup thread runs.\<close>

inductive dpi_reachable :: "nat \<Rightarrow> bool \<Rightarrow> flow_table \<Rightarrow> bool" for nq reclaim where
  started: "dpi_reachable nq reclaim (FlowTable_start (DPIEngine_new (int nq)) (FlowTable_new (int nq)))"
| packet: "dpi_reachable nq reclaim ft \<Longrightarrow> InsertOrUpdateFlows now ft key d flt dir = Inr ft' \<Longrightarrow>
     dpi_reachable nq reclaim ft'"
| dequeue: "dpi_reachable nq reclaim ft \<Longrightarrow> Dequeue_iter E now g i ft = Inr (Again ft' calls) \<Longrightarrow>
     dpi_reachable nq reclaim ft'"
| cleanup: "dpi_reachable nq reclaim ft \<Longrightarrow> reclaim \<Longrightarrow> cleanupFlows now False ft = Inr ft' \<Longrightarrow>
     dpi_reachable nq reclaim ft'"
| consume: "dpi_reachable nq reclaim ft \<Longrightarrow> wq_pop (dpQueue ft) = Some (x, xs) \<Longrightarrow>
     dpi_reachable nq reclaim (ft\<lparr>dpQueue := xs\<rparr>)"

definition no_exits :: "flow_table \<Rightarrow> bool" where
  "no_exits ft \<longleftrightarrow> (\<forall>x \<in> set (dpQueue ft). \<not> fd_exit_flag x) \<and> (\<forall>i < length (dpiQueues ft). \<forall>m \<in> set (dpiQueues ft ! i). md_exit_flag m = 0)"

definition sys_inv :: "nat \<Rightarrow> flow_table \<Rightarrow> bool" where
  "sys_inv nq ft \<longleftrightarrow> ft_inv ft \<and> refs_inv ft \<and> no_exits ft \<and> length (dpiQueues ft) = nq \<and> numQueues ft = int nq"

lemma sys_inv_start:
  assumes "0 < nq" and "nq < 2 ^ 31"
  shows "sys_inv nq (FlowTable_start (DPIEngine_new (int nq)) (FlowTable_new (int nq)))"
  using assms
  by (simp add: sys_inv_def ft_inv_def refs_inv_def no_exits_def table_inv_def FlowTable_start_def
      FlowTable_new_def DPIEngine_new_def)

lemma packet_msg_exit: "packet_msg ft key d = Some (i, m) \<Longrightarrow> md_exit_flag m = 0"
  by (auto simp: packet_msg_def split: option.splits if_splits)

lemma sys_inv_packet:
  assumes "sys_inv nq ft" and "0 < nq" and r: "InsertOrUpdateFlows now ft key d flt dir = Inr ft'"
  shows "sys_inv nq ft'"
proof -
  have inv: "ft_inv ft" "0 < numQueues ft" and refs: "refs_inv ft" using assms by (simp_all add: sys_inv_def)
  have q: "dpiQueues ft' = send (packet_msg ft key d) (dpiQueues ft) \<and> numQueues ft' = numQueues ft \<and> dpQueue ft' = dpQueue ft"
    using r InsertOrUpdateFlows_new [OF inv] InsertOrUpdateFlows_known [OF inv]
    by (cases "ct_find (conn_table ft) key") auto
  have "no_exits ft'"
    unfolding no_exits_def
  proof (intro conjI allI impI ballI)
    show "x \<in> set (dpQueue ft') \<Longrightarrow> \<not> fd_exit_flag x" for x using q assms(1) by (simp add: sys_inv_def no_exits_def)
  next
    fix i m
    assume "i < length (dpiQueues ft')" "m \<in> set (dpiQueues ft' ! i)"
    with q in_sent [OF inv, of i m key d] assms(1) packet_msg_exit show "md_exit_flag m = 0"
      by (auto simp: sys_inv_def no_exits_def)
  qed
  with q assms(1) InsertOrUpdateFlows_inv [OF inv r] InsertOrUpdateFlows_refs [OF inv(1) refs inv(2) r]
  show ?thesis by (simp add: sys_inv_def)
qed

lemma reported_no_exit: "x \<in> set (reported E now buf n r) \<Longrightarrow> \<not> fd_exit_flag x"
  by (auto simp: reported_def flow_result_def split: option.splits if_splits)

lemma sys_msg:
  assumes "sys_inv nq ft" and "i < nq" and "dpiQueues ft ! i = m # rest"
  obtains a where "md_exit_flag m = 0" "md_info m = Some a" "md_key m = Some a" "a < next_addr ft"
    "\<And>n. n \<in> set (conn_table ft) \<Longrightarrow> n_addr n = a \<Longrightarrow> ci_queue (n_info n) = int i"
proof -
  have e: "md_exit_flag m = 0" and l: "i < length (dpiQueues ft)" "m \<in> set (dpiQueues ft ! i)" and r: "refs_inv ft"
    using assms by (auto simp: sys_inv_def no_exits_def)
  show thesis using refs_invE [OF r l e] that e by metis
qed

text \<open>The three things an iteration of a DPI thread can do in the running system.\<close>

lemma Dequeue_iter_cases:
  assumes s: "sys_inv nq ft" and i: "i < nq"
  obtains
    (wait) "dpiQueues ft ! i = []" "Dequeue_iter E now g i ft = Inr Waiting"
  | (live) m rest n ft' f where "dpiQueues ft ! i = m # rest" "n \<in> set (conn_table ft)" "md_info m = Some (n_addr n)"
      "ci_queue (n_info n) = int i"
      "Dequeue_iter E now g i ft = Inr (Again ft' (dequeued_calls g n m))" "sys_inv nq ft'"
      "conn_table ft' = ct_update (n_addr n) f (conn_table ft)"
      "f (n_info n) = dequeued_info E now g n m" "dpiQueues ft' = (dpiQueues ft)[i := rest]"
  | (dangling) m rest a where "dpiQueues ft ! i = m # rest" "md_info m = Some a" "a < next_addr ft"
      "a \<notin> n_addr ` set (conn_table ft)" "Dequeue_iter E now g i ft = Inl UseAfterFree"
proof (cases "dpiQueues ft ! i")
  case Nil
  with assms wait show thesis by (simp add: Dequeue_iter_def sys_inv_def)
next
  case (Cons m rest)
  have l: "i < length (dpiQueues ft)" and inv: "ft_inv ft" and refs: "refs_inv ft"
    using assms by (simp_all add: sys_inv_def)
  obtain a where a: "md_exit_flag m = 0" "md_info m = Some a" "a < next_addr ft"
    "\<And>n. n \<in> set (conn_table ft) \<Longrightarrow> n_addr n = a \<Longrightarrow> ci_queue (n_info n) = int i"
    using sys_msg [OF s i Cons] by metis
  show thesis
  proof (cases "a \<in> n_addr ` set (conn_table ft)")
    case True
    then obtain n where n: "n \<in> set (conn_table ft)" "n_addr n = a" by blast
    then have mi: "md_info m = Some (n_addr n)" using a by simp
    from Dequeue_iter_live [OF inv refs l Cons a(1) n(1) mi, of E now g] obtain ft' f where
      R: "Dequeue_iter E now g i ft = Inr (Again ft' (dequeued_calls g n m))"
      "conn_table ft' = ct_update (n_addr n) f (conn_table ft)" "f (n_info n) = dequeued_info E now g n m"
      "dpiQueues ft' = (dpiQueues ft)[i := rest]" "numQueues ft' = numQueues ft" "ft_inv ft'" "refs_inv ft'"
      "dpQueue ft' = dpQueue ft @ reported E now (ft_name ft) n (lib_answer E g (n_info n) m)"
      by blast
    have "no_exits ft'" unfolding no_exits_def
    proof (intro conjI allI impI ballI)
      show "x \<in> set (dpQueue ft') \<Longrightarrow> \<not> fd_exit_flag x" for x
        using R(8) reported_no_exit s by (auto simp: sys_inv_def no_exits_def)
    next
      fix j x
      assume "j < length (dpiQueues ft')" "x \<in> set (dpiQueues ft' ! j)"
      with R(4) Cons have "j < length (dpiQueues ft)" "x \<in> set (dpiQueues ft ! j)" by (cases "j = i"; simp)+
      then show "md_exit_flag x = 0" using s by (simp add: sys_inv_def no_exits_def)
    qed
    with R s have "sys_inv nq ft'" by (simp add: sys_inv_def)
    with R live [OF Cons n(1) mi a(4) [OF n]] show thesis by blast
  next
    case False
    with dangling [OF Cons a(2,3)] Dequeue_iter_dangling [OF inv l Cons a(1,2)] show thesis by blast
  qed
qed

lemma Dequeue_iter_Again:
  assumes s: "sys_inv nq ft" and i: "i < nq" and r: "Dequeue_iter E now g i ft = Inr (Again ft' calls)"
  shows "sys_inv nq ft' \<and> (\<exists>m rest a f. dpiQueues ft ! i = m # rest \<and> dpiQueues ft' = (dpiQueues ft)[i := rest] \<and>
    conn_table ft' = ct_update a f (conn_table ft))"
  using s i
proof (cases rule: Dequeue_iter_cases [where E = E and now = now and g = g, consumes 2, case_names wait live dangling])
  case (live m rest n ft'' f)
  moreover from this have "ft'' = ft'" using r by simp
  ultimately show ?thesis by blast
qed (use r in simp_all)

lemma sys_inv_cleanup:
  assumes "sys_inv nq ft" and "cleanupFlows now False ft = Inr ft'"
  shows "sys_inv nq ft'"
proof -
  have "ft_inv ft" "refs_inv ft" using assms(1) by (simp_all add: sys_inv_def)
  with cleanupFlows_keeps [OF this assms(2)] cleanupFlows_expire [of ft now] assms show ?thesis
    by (auto simp: sys_inv_def no_exits_def)
qed

lemma dpi_reachable_inv:
  assumes "dpi_reachable nq reclaim ft" and "0 < nq" and "nq < 2 ^ 31"
  shows "sys_inv nq ft"
  using assms
proof (induction rule: dpi_reachable.induct)
  case started
  then show ?case by (simp add: sys_inv_start)
next
  case (packet ft now key d flt dir ft')
  then show ?case using sys_inv_packet by blast
next
  case (dequeue ft E now g i ft' calls)
  then have s: "sys_inv nq ft" by simp
  have "i < nq" using dequeue.hyps(2) s by (auto simp: Dequeue_iter_def sys_inv_def split: if_splits)
  from Dequeue_iter_Again [OF s this dequeue.hyps(2)] show ?case by blast
next
  case (cleanup ft now ft')
  then show ?case using sys_inv_cleanup by blast
next
  case (consume ft x xs)
  then have "dpQueue ft = x # xs" by (cases "dpQueue ft") auto
  moreover have "sys_inv nq ft" using consume by simp
  ultimately show ?case by (auto simp: sys_inv_def no_exits_def ft_inv_def refs_inv_def)
qed

text \<open>Without the cleanup thread no queued message ever points to an erased flow.\<close>

lemma live_refsD:
  "live_refs ft \<Longrightarrow> i < length (dpiQueues ft) \<Longrightarrow> m \<in> set (dpiQueues ft ! i) \<Longrightarrow> md_exit_flag m = 0 \<Longrightarrow>
   md_info m = Some a \<Longrightarrow> a \<in> n_addr ` set (conn_table ft)"
  unfolding live_refs_def by (fastforce dest: nth_mem)

lemma live_refsI:
  assumes "\<And>i m. i < length (dpiQueues ft) \<Longrightarrow> m \<in> set (dpiQueues ft ! i) \<Longrightarrow> md_exit_flag m = 0 \<Longrightarrow>
     \<exists>a \<in> n_addr ` set (conn_table ft). md_info m = Some a"
  shows "live_refs ft"
  unfolding live_refs_def using assms by (fastforce simp: in_set_conv_nth)

lemma set_addrs_update [simp]: "n_addr ` set (ct_update a f t) = n_addr ` set t"
  using map_ct_update(1) [of a f t] by (metis set_map)

lemma live_refs_packet:
  assumes "sys_inv nq ft" and "0 < nq" and live: "live_refs ft"
    and r: "InsertOrUpdateFlows now ft key d flt dir = Inr ft'"
  shows "live_refs ft'"
proof (rule live_refsI)
  have inv: "ft_inv ft" "0 < numQueues ft" using assms by (simp_all add: sys_inv_def)
  note cases = InsertOrUpdateFlows_new [OF inv] InsertOrUpdateFlows_known [OF inv]
  have q: "dpiQueues ft' = send (packet_msg ft key d) (dpiQueues ft)"
    using r cases by (cases "ct_find (conn_table ft) key") auto
  have t: "n_addr ` set (conn_table ft) \<subseteq> n_addr ` set (conn_table ft')"
    using r cases by (cases "ct_find (conn_table ft) key") auto
  have p: "\<exists>a \<in> n_addr ` set (conn_table ft'). md_info m = Some a" if "packet_msg ft key d = Some (i, m)" for i m
  proof (cases "ct_find (conn_table ft) key")
    case None
    with that r cases(1) show ?thesis by (auto simp: packet_msg_def)
  next
    case (Some it)
    with table_of_inv [OF inv(1)] have "it \<in> set (conn_table ft)" using ct_find_Some by blast
    with t have "n_addr it \<in> n_addr ` set (conn_table ft')" by blast
    moreover have "md_info m = Some (n_addr it)" using Some that by (auto simp: packet_msg_def split: if_splits)
    ultimately show ?thesis by blast
  qed
  fix i m
  assume m: "i < length (dpiQueues ft')" "m \<in> set (dpiQueues ft' ! i)" "md_exit_flag m = 0"
  then have i: "i < length (dpiQueues ft)" using q by simp
  from in_sent [OF inv i] m q consider "m \<in> set (dpiQueues ft ! i)" | "packet_msg ft key d = Some (i, m)" by auto
  then show "\<exists>a \<in> n_addr ` set (conn_table ft'). md_info m = Some a"
  proof cases
    case 1
    have "refs_inv ft" using assms(1) by (simp add: sys_inv_def)
    from refs_invE [OF this i 1 m(3)] obtain a where "md_info m = Some a" by blast
    with live_refsD [OF live i 1 m(3)] t show ?thesis by blast
  qed (use p in blast)
qed

lemma live_refs_without_cleanup:
  assumes "dpi_reachable nq False ft" and "0 < nq" and "nq < 2 ^ 31"
  shows "live_refs ft"
  using assms
proof (induction rule: dpi_reachable.induct)
  case started
  then show ?case by (simp add: live_refs_def FlowTable_start_def FlowTable_new_def DPIEngine_new_def)
next
  case (packet ft now key d flt dir ft')
  then show ?case using live_refs_packet dpi_reachable_inv by blast
next
  case (dequeue ft E now g i ft' calls)
  then have s: "sys_inv nq ft" using dpi_reachable_inv by blast
  have i: "i < nq" using dequeue.hyps(2) s by (auto simp: Dequeue_iter_def sys_inv_def split: if_splits)
  from Dequeue_iter_Again [OF s i dequeue.hyps(2)] obtain m rest a f
    where q: "dpiQueues ft ! i = m # rest" "dpiQueues ft' = (dpiQueues ft)[i := rest]"
      and t: "conn_table ft' = ct_update a f (conn_table ft)" by blast
  have "set ((dpiQueues ft)[i := rest] ! j) \<subseteq> set (dpiQueues ft ! j)" if "j < length (dpiQueues ft)" for j
    using q that by (cases "j = i") auto
  with q t have sub: "j < length (dpiQueues ft) \<and> x \<in> set (dpiQueues ft ! j)"
    if "j < length (dpiQueues ft')" "x \<in> set (dpiQueues ft' ! j)" for j x using that by auto
  have "refs_inv ft" using s by (simp add: sys_inv_def)
  with t sub dequeue show ?case
    by (intro live_refsI) (metis live_refsD refs_invE set_addrs_update)
next
  case (consume ft x xs)
  then show ?case by (simp add: live_refs_def)
qed simp

end
