(* ===== verification/DPI_Claims.thy ===== *)
theory DPI_Claims
  imports DPI_Props
begin

text \<open>
  The properties of the DPI threads, of the system they form with the packet handler and the
  cleanup thread, and of its shutdown.
\<close>

section \<open>Sample states\<close>

definition engine_sample :: navl_engine where
  "engine_sample = \<lparr>ne_lib = \<lparr>navl_app_get = (\<lambda>_ _. (5, 90)), navl_proto_get_name = (\<lambda>_ _ _. ''HTTP'')\<rparr>,
     navl_conn_create = (\<lambda>_ _ _ _. (0, Some 7)),
     navl_classify = (\<lambda>_ _ _ _ _ _. (0, Some \<lparr>cb_handle = 1, cb_result = 0, cb_state = NAVL_STATE_CLASSIFIED, cb_error = 0\<rparr>))\<rparr>"

definition msg_sample :: ConnMetadata where
  "msg_sample = \<lparr>md_key = Some 0, md_info = Some 0, md_pktnum = 0, md_dir = 0, md_data = [71, 69, 84], md_exit_flag = 0\<rparr>"

text \<open>One DPI thread, one flow, its first packet still queued.\<close>

definition node_new :: flow_node where
  "node_new = \<lparr>n_addr = 0, n_key = key_sample, n_info = new_info 100 1 key_sample None 0\<rparr>"

definition ft_queued :: flow_table where
  "ft_queued = (FlowTable_start (DPIEngine_new 1) (FlowTable_new 1))
     \<lparr>conn_table := [node_new], next_addr := 1, dpiQueues := [[msg_sample]]\<rparr>"

lemma sample_fields: "conn_table ft_queued = [node_new]" "dpiQueues ft_queued = [[msg_sample]]"
  "n_addr node_new = 0" "md_info msg_sample = Some 0" "md_exit_flag msg_sample = 0" "dpQueue ft_queued = []"
  by (simp_all add: ft_queued_def node_new_def msg_sample_def FlowTable_start_def FlowTable_new_def)

lemma queued_reachable: "dpi_reachable 1 r ft_queued"
proof -
  let ?s = "FlowTable_start (DPIEngine_new 1) (FlowTable_new 1)"
  have s: "sys_inv 1 ?s" using sys_inv_start [of 1] by simp
  have "InsertOrUpdateFlows 100 ?s key_sample [71, 69, 84] None 0 = Inr ft_queued"
  proof -
    have "ft_inv ?s" "0 < numQueues ?s" "ct_find (conn_table ?s) key_sample = None"
      using s by (simp_all add: sys_inv_def FlowTable_start_def FlowTable_new_def ct_find_def)
    from InsertOrUpdateFlows_new [OF this, of 100 "[71, 69, 84]" None 0] this(3) show ?thesis
      by (simp add: ft_queued_def node_new_def msg_sample_def packet_msg_def send_def FlowTable_start_def
          FlowTable_new_def DPIEngine_new_def)
  qed
  with packet [OF started [of 1 r]] show ?thesis by simp
qed

lemma queued_inv: "sys_inv 1 ft_queued"
  using dpi_reachable_inv [OF queued_reachable [of True]] by simp

section \<open>Properties\<close>

text \<open>C5 An iteration of a DPI thread whose message is for a flow in the table takes exactly that message from
  its queue and does not fault.  It opens the library connection on the flow's first message, with the
  addresses and ports of the flow's key in network order, and hands the payload of a later one to the
  classifier only if the flow is still under inspection without an error.  It changes the information
  of that flow only, and a final answer of the library is reported exactly once.\<close>

theorem dequeue_refines:
  assumes "ft_inv ft" and "refs_inv ft" and "i < length (dpiQueues ft)" and "dpiQueues ft ! i = m # rest"
    and "md_exit_flag m = 0" and "n \<in> set (conn_table ft)" and "md_info m = Some (n_addr n)"
  shows "\<exists>ft'. Dequeue_iter E now g i ft = Inr (Again ft' (dequeued_calls g n m)) \<and>
    (\<forall>k. flow_map ft' k = (if ConnKeyEqual k (n_key n) then Some (dequeued_info E now g n m) else flow_map ft k)) \<and>
    dpiQueues ft' = (dpiQueues ft)[i := rest] \<and>
    dpQueue ft' = dpQueue ft @ reported E now (ft_name ft) n (lib_answer E g (n_info n) m) \<and>
    ft_inv ft' \<and> refs_inv ft'"
  using Dequeue_iter_live [OF assms, of E now g] flow_map_update_node [OF assms(1,6)] by metis

theorem dequeue_refines_witness:
  "\<exists>ft'. Dequeue_iter engine_sample 101 3 0 ft_queued = Inr (Again ft' [NavlConnCreate 3
       \<lparr>nh_family = 1, nh_port = htons 40000, in4_addr = htonl 0x0A000001\<rparr>
       \<lparr>nh_family = 1, nh_port = htons 443, in4_addr = htonl 0xC0A80102\<rparr> 6]) \<and> dpiQueues ft' = [[]]"
proof -
  have "ft_inv ft_queued" "refs_inv ft_queued" using queued_inv by (simp_all add: sys_inv_def)
  moreover have "dequeued_calls 3 node_new msg_sample = [NavlConnCreate 3
       \<lparr>nh_family = 1, nh_port = htons 40000, in4_addr = htonl 0x0A000001\<rparr>
       \<lparr>nh_family = 1, nh_port = htons 443, in4_addr = htonl 0xC0A80102\<rparr> 6]"
    by (simp add: dequeued_calls_def node_new_def new_info_def ConnInfo_new_def key_sample_def host_of_def
        NAVL_AF_INET_def)
  ultimately show ?thesis
    using dequeue_refines [of ft_queued 0 msg_sample "[]" node_new engine_sample 101 3]
    by (auto simp: sample_fields)
qed



text \<open>C32 The cleanup thread does erase flows that are still in use: when it runs while a message waits in a
  DPI queue for a flow that has been silent for more than ten seconds, or that is classified
  with its packet count reset, the thread of that queue uses the erased flow.\<close>

theorem cleanup_leaves_dangling:
  assumes "dpi_reachable nq True ft" and "0 < nq" and "nq < 2 ^ 31" and "i < nq" and "dpiQueues ft ! i = m # rest"
    and "n \<in> set (conn_table ft)" and "md_info m = Some (n_addr n)" and "stale now n \<or> reclaimable n"
  shows "\<exists>ft'. cleanupFlows now False ft = Inr ft' \<and> dpi_reachable nq True ft' \<and>
    Dequeue_iter E now' g i ft' = Inl UseAfterFree"
proof -
  have s: "sys_inv nq ft" by (rule dpi_reachable_inv [OF assms(1-3)])
  then have inv: "ft_inv ft" by (simp add: sys_inv_def)
  from cleanupFlows_expire [OF inv, of now] obtain ft' where c: "cleanupFlows now False ft = Inr ft'"
    and t: "conn_table ft' = filter (\<lambda>n. \<not> reclaimable n \<and> \<not> stale now n) (conn_table ft)"
    and q: "dpiQueues ft' = dpiQueues ft" by simp
  have r: "dpi_reachable nq True ft'" using cleanup [OF assms(1) _ c] by simp
  have s': "sys_inv nq ft'" using dpi_reachable_inv [OF r assms(2,3)] .
  have "n_addr n \<notin> n_addr ` set (conn_table ft')"
    using t assms(6,8) same_addr_same_node [OF table_of_inv [OF inv]] by fastforce
  moreover have "md_exit_flag m = 0" using sys_msg [OF s assms(4,5)] by metis
  ultimately have "Dequeue_iter E now' g i ft' = Inl UseAfterFree"
    using s' assms(4,5,7) q by (intro Dequeue_iter_dangling) (auto simp: sys_inv_def)
  with c r show ?thesis by blast
qed

theorem cleanup_leaves_dangling_witness:
  "\<exists>ft'. cleanupFlows 111 False ft_queued = Inr ft' \<and> Dequeue_iter engine_sample 112 3 0 ft' = Inl UseAfterFree"
proof -
  have "stale 111 node_new" by (simp add: stale_def node_new_def new_info_def ConnInfo_new_def)
  then show ?thesis
    using cleanup_leaves_dangling [OF queued_reachable, of 0 msg_sample "[]" node_new 111 engine_sample 112 3]
    by (auto simp: sample_fields)
qed

text \<open>C34 Stopping the flow table ends a DPI thread at its next iteration when its queue is empty, but
  \<open>stop\<close> erases every flow before it sends the exit messages: a thread with a backlog uses an erased flow.\<close>

theorem stop_with_backlog:
  assumes "dpi_reachable nq reclaim ft" and "0 < nq" and "nq < 2 ^ 31" and "i < nq"
  shows "\<exists>ft'. FlowTable_stop now ft = Inr ft' \<and> Dequeue_iter E now' g i ft' =
    (if dpiQueues ft ! i = [] then Inr (Left (ft'\<lparr>dpiQueues := (dpiQueues ft')[i := []]\<rparr>)) else Inl UseAfterFree)"
proof -
  have s: "sys_inv nq ft" by (rule dpi_reachable_inv [OF assms(1-3)])
  from s FlowTable_stop_eq [of ft now] obtain ft' where c: "FlowTable_stop now ft = Inr ft'" and
    t: "conn_table ft' = []" and q: "dpiQueues ft' = map (\<lambda>q. q @ [exit_metadata]) (dpiQueues ft)"
    by (auto simp: sys_inv_def)
  have qi: "dpiQueues ft' ! i = dpiQueues ft ! i @ [exit_metadata]" and l: "i < length (dpiQueues ft')"
    using q s assms(4) by (simp_all add: sys_inv_def)
  show ?thesis
  proof (cases "dpiQueues ft ! i")
    case Nil
    with c qi l show ?thesis by (simp add: Dequeue_iter_def exit_metadata_def Let_def)
  next
    case (Cons m rest)
    obtain a where "md_exit_flag m = 0" "md_info m = Some a" using sys_msg [OF s assms(4) Cons] by metis
    with c qi l t Cons show ?thesis by (simp add: Dequeue_iter_def Dequeue_msg_def Let_def ct_at_def)
  qed
qed

theorem stop_with_backlog_witness:
  "\<exists>ft'. FlowTable_stop 101 ft_queued = Inr ft' \<and> Dequeue_iter engine_sample 102 3 0 ft' = Inl UseAfterFree"
  using stop_with_backlog [OF queued_reachable [of True], of 0 101 engine_sample 102 3] by (simp add: sample_fields)

text \<open>C31 After the flow table is stopped the consumer of the results takes every result reported before, in
  order and each once, and then ends at the exit record.\<close>

theorem results_consumed:
  assumes "dpi_reachable nq reclaim ft" and "0 < nq" and "nq < 2 ^ 31" and "length (dpQueue ft) < fuel"
  shows "\<exists>ft' q'. FlowTable_stop now ft = Inr ft' \<and> items q' = [] \<and>
    GetDPIFlowData fuel \<lparr>items = dpQueue ft', locked = False\<rparr> = Inr (Some (dpQueue ft, q'))"
proof -
  have s: "sys_inv nq ft" by (rule dpi_reachable_inv [OF assms(1-3)])
  from s FlowTable_stop_eq [of ft now] obtain ft' where c: "FlowTable_stop now ft = Inr ft'" and
    q: "dpQueue ft' = dpQueue ft @ [exit_flow_data]" by (auto simp: sys_inv_def)
  have "\<forall>x \<in> set (dpQueue ft). \<not> fd_exit_flag x" using s by (simp add: sys_inv_def no_exits_def)
  with bq.pop_loop_until_exit [of "\<lparr>items = dpQueue ft', locked = False\<rparr>" "dpQueue ft" exit_flow_data "[]"
      fd_exit_flag fuel] q assms(4) c
  show ?thesis by (auto simp: GetDPIFlowData_def exit_flow_data_def)
qed

theorem results_consumed_witness:
  "\<exists>ft' q'. FlowTable_stop 101 ft_queued = Inr ft' \<and>
    GetDPIFlowData 1 \<lparr>items = dpQueue ft', locked = False\<rparr> = Inr (Some ([], q'))"
  using results_consumed [OF queued_reachable [of True], of 1 101] by (auto simp: sample_fields)

end
