(* ===== verification/Callback_Steps.thy ===== *)
theory Callback_Steps
  imports DPI_Claims
begin

text \<open>
  The classification callback at the grain of its accesses to the flow table.  \<open>updateFlowTableDPIData\<close> runs on a DPI
  thread without \<open>ftbl_mutex\<close>, so the cleanup thread and the packet thread can run between its statements.
  \<open>cb_step\<close> is one group of statements between two calls into the library or two accesses that others
  can see; undisturbed it is \<open>updateFlowTableDPIData\<close>, and an interleaved cleanup takes the flow away from under it.
\<close>

section \<open>Steps\<close>

record cb_call =
  cc_lib :: navl_lib
  cc_handle :: int
  cc_result :: addr
  cc_state :: navl_state_t
  cc_error :: int

text \<open>What the callback does next; the address is that of \<open>info\<close> and then of the node found.\<close>

datatype cb_pc = AtFind addr | AtCount addr | AtState addr | AtResult addr | AtFinal addr | Returned

definition at_node ::
  "flow_table \<Rightarrow> addr \<Rightarrow> (flow_node \<Rightarrow> (cb_pc \<times> flow_table) cres) \<Rightarrow> (cb_pc \<times> flow_table) cres" where
  "at_node ft a f = (case ct_at (conn_table ft) a of None \<Rightarrow> Inl UseAfterFree | Some n \<Rightarrow> f n)"

definition set_info :: "flow_table \<Rightarrow> addr \<Rightarrow> (ConnInfo \<Rightarrow> ConnInfo) \<Rightarrow> flow_table" where
  "set_info ft a f = ft\<lparr>conn_table := ct_update a f (conn_table ft)\<rparr>"

definition count_info :: "ConnInfo \<Rightarrow> ConnInfo" where
  "count_info ci = ci\<lparr>pkt_ref_cnt := (if class_state ci = NAVL_STATE_INSPECTING then 0 else pkt_ref_cnt ci - 1)\<rparr>"

fun cb_step :: "cb_call \<Rightarrow> int \<Rightarrow> cb_pc \<Rightarrow> flow_table \<Rightarrow> (cb_pc \<times> flow_table) cres" where
  "cb_step c now (AtFind info) ft = at_node ft info (\<lambda>p.
     Inr (case ct_find (conn_table ft) (ci_key (n_info p)) of None \<Rightarrow> Returned | Some it \<Rightarrow> AtCount (n_addr it), ft))"
| "cb_step c now (AtCount a) ft = at_node ft a (\<lambda>n. Inr (AtState a, set_info ft a count_info))"
| "cb_step c now (AtState a) ft = at_node ft a (\<lambda>n.
     Inr (AtResult a, set_info ft a (\<lambda>ci. ci\<lparr>ci_error := cc_error c, class_state := cc_state c\<rparr>)))"
| "cb_step c now (AtResult a) ft = at_node ft a (\<lambda>n.
     let (app, conf) = navl_app_get (cc_lib c) (cc_handle c) (cc_result c)
     in Inr (if is_done (class_state (n_info n)) then AtFinal a else Returned,
             set_info ft a (\<lambda>ci. ci\<lparr>dpi_result := word_of_int app, dpi_confidence := conf\<rparr>)))"
| "cb_step c now (AtFinal a) ft = at_node ft a (\<lambda>n.
     let ci = n_info n;
         ci' = ci\<lparr>classified_timestamp := now\<rparr>;
         buf = (if dpi_result ci \<noteq> 0 then navl_proto_get_name (cc_lib c) (cc_handle c) (dpi_result ci) (ft_name ft)
                else ft_name ft);
         name = (if dpi_result ci \<noteq> 0 then c_string buf else ''UNKNOWN'')
     in Inr (Returned, (set_info ft a (\<lambda>_. ci'))\<lparr>destroyed := destroyed ft @ [(ci_handle ci, dpi_state ci)],
             ft_counter := ft_counter ft + 1, ft_name := buf,
             dpQueue := wq_push (dpQueue ft) (flow_result (n_key n) ci' name)\<rparr>))"
| "cb_step c now Returned ft = Inr (Returned, ft)"

fun cb_run :: "nat \<Rightarrow> cb_call \<Rightarrow> int \<Rightarrow> cb_pc \<Rightarrow> flow_table \<Rightarrow> (cb_pc \<times> flow_table) cres" where
  "cb_run 0 c now pc ft = Inr (pc, ft)"
| "cb_run (Suc k) c now pc ft = bindR (cb_step c now pc ft) (\<lambda>(pc', ft'). cb_run k c now pc' ft')"

section \<open>Undisturbed runs\<close>

lemma ct_at_update: "ct_at (ct_update a f t) a = map_option (\<lambda>n. n\<lparr>n_info := f (n_info n)\<rparr>) (ct_at t a)"
  by (induction t) (auto simp: ct_at_def ct_update_def)

lemma ct_update_update: "ct_update a f (ct_update a g t) = ct_update a (f \<circ> g) t"
  by (induction t) (auto simp: ct_update_def)

lemma set_info_simps [simp]:
  "conn_table (set_info ft a f) = ct_update a f (conn_table ft)" "destroyed (set_info ft a f) = destroyed ft"
  "dpQueue (set_info ft a f) = dpQueue ft" "ft_name (set_info ft a f) = ft_name ft"
  "ft_counter (set_info ft a f) = ft_counter ft" "dpiQueues (set_info ft a f) = dpiQueues ft"
  "set_info (set_info ft a f) a g = set_info ft a (g \<circ> f)"
  by (simp_all add: set_info_def ct_update_update)

lemma ft_inv_set_info:
  assumes "ft_inv ft" and "\<And>n. node_ok (length (dpiQueues ft)) n \<Longrightarrow> node_ok (length (dpiQueues ft)) (n\<lparr>n_info := f (n_info n)\<rparr>)"
  shows "ft_inv (set_info ft a f)"
  using assms table_inv_update [of "length (dpiQueues ft)" "next_addr ft" "conn_table ft" a f]
  by (auto simp: ft_inv_def set_info_def table_inv_def)

lemma cb_run_found:
  assumes inv: "ft_inv ft" and n: "n \<in> set (conn_table ft)"
  shows "cb_run 3 c now (AtFind (n_addr n)) ft =
    Inr (AtResult (n_addr n), set_info ft (n_addr n)
      ((\<lambda>ci. ci\<lparr>ci_error := cc_error c, class_state := cc_state c\<rparr>) \<circ> count_info))"
proof -
  have "ct_at (conn_table ft) (n_addr n) = Some n" using inv n by (simp add: ct_at_in)
  with find_own_key [OF inv n] show ?thesis
    by (simp add: numeral_3_eq_3 at_node_def ct_at_update)
qed

lemma cb_run_one: "cb_run (Suc 0) c now pc ft = cb_step c now pc ft"
  by (cases "cb_step c now pc ft") auto

lemma cb_run_add:
  "cb_run (j + k) c now pc ft = bindR (cb_run j c now pc ft) (\<lambda>(pc', ft'). cb_run k c now pc' ft')"
  by (induction j arbitrary: pc ft) (auto simp: bindR_assoc case_prod_beta intro!: bindR_cong)

lemma cb_run_is_callback:
  assumes inv: "ft_inv ft" and n: "n \<in> set (conn_table ft)"
  shows "\<exists>ft'. cb_run 5 c now (AtFind (n_addr n)) ft = Inr (Returned, ft') \<and>
    updateFlowTableDPIData (cc_lib c) now ft (n_addr n) (cc_handle c) (cc_result c) (cc_state c) (cc_error c) = Inr (0, ft')"
proof -
  let ?a = "n_addr n"
  let ?f = "classified_info (cc_lib c) now (cc_handle c) (cc_result c) (cc_state c) (cc_error c)"
  have a: "ct_at (conn_table ft) ?a = Some n" using inv n by (simp add: ct_at_in)
  obtain app conf where g: "navl_app_get (cc_lib c) (cc_handle c) (cc_result c) = (app, conf)" by fastforce
  have t: "table_inv (length (dpiQueues ft)) (next_addr ft) (conn_table ft)"
    using inv by (simp add: ft_inv_def)
  let ?r = "\<lambda>ci. ci\<lparr>dpi_result := word_of_int app, dpi_confidence := conf\<rparr>"
  let ?e = "\<lambda>ci. ci\<lparr>ci_error := cc_error c, class_state := cc_state c\<rparr>"
  have r: "cb_run 5 c now (AtFind ?a) ft = cb_run 2 c now (AtResult ?a) (set_info ft ?a (?e \<circ> count_info))"
    using cb_run_add [of 3 2 c now "AtFind ?a" ft] cb_run_found [OF inv n, of c now] by simp
  have two: "cb_run 2 c now pc ft = bindR (cb_step c now pc ft) (\<lambda>(pc', ft'). cb_step c now pc' ft')" for pc ft
    by (cases "cb_step c now pc ft") (auto simp: numeral_2_eq_2 cb_run_one simp del: cb_run.simps(2) intro: trans [OF cb_run.simps(2)])
  show ?thesis
  proof (cases "is_done (cc_state c)")
    case True
    have i: "(?r (?e (count_info ci)))\<lparr>classified_timestamp := now\<rparr> = ?f ci" for ci
      using True g by (simp add: classified_info_def count_info_def)
    have k: "ct_update ?a (\<lambda>_. ?f (n_info n)) (conn_table ft) = ct_update ?a ?f (conn_table ft)"
      using ct_update_const [OF t n, of ?f] by simp
    have c: "ci_handle (count_info ci) = ci_handle ci" "dpi_state (count_info ci) = dpi_state ci" for ci
      by (simp_all add: count_info_def)
    show ?thesis using a g True unfolding r two callback_eq [OF inv n]
      by (simp add: at_node_def ct_at_update Let_def i c comp_def)
        (simp add: set_info_def k navl_ref_def result_buf_def result_name_def wq_push_def)
  next
    case False
    have i: "?r \<circ> (?e \<circ> count_info) = ?f"
      using False g by (auto simp: classified_info_def count_info_def fun_eq_iff)
    show ?thesis using a g False i unfolding r two callback_eq [OF inv n]
      by (simp add: at_node_def ct_at_update Let_def) (simp add: set_info_def)
  qed
qed

section \<open>Disturbed runs\<close>

text \<open>Once the step before has stored a final state, the flow counts as finished with no packet
  outstanding, and a round of the cleanup thread erases it, however fresh it is.\<close>

lemma cleanup_in_window:
  assumes inv: "ft_inv ft" and n: "n \<in> set (conn_table ft)" and i: "class_state (n_info n) = NAVL_STATE_INSPECTING"
    and d: "is_done (cc_state c)"
    and r: "cb_run 3 c now (AtFind (n_addr n)) ft = Inr (pc, ft3)"
  shows "\<exists>ft4. cleanupFlows now' False ft3 = Inr ft4 \<and> ct_at (conn_table ft4) (n_addr n) = None"
proof -
  let ?f = "(\<lambda>ci. ci\<lparr>ci_error := cc_error c, class_state := cc_state c\<rparr>) \<circ> count_info"
  have ft3: "ft3 = set_info ft (n_addr n) ?f" using r cb_run_found [OF inv n, of c now] by simp
  have inv3: "ft_inv ft3" unfolding ft3 by (rule ft_inv_set_info [OF inv]) (simp add: node_ok_def count_info_def)
  have same: "m = n" if "m \<in> set (conn_table ft)" "n_addr m = n_addr n" for m
    using that n ct_at_in [OF inv, of "n_addr n" m] ct_at_in [OF inv, of "n_addr n" n] by simp
  have "reclaimable m" if m: "m \<in> set (conn_table ft3)" "n_addr m = n_addr n" for m
  proof -
    from m(1) obtain k where k: "k \<in> set (conn_table ft)"
      "m = (if n_addr k = n_addr n then k\<lparr>n_info := ?f (n_info k)\<rparr> else k)"
      unfolding ft3 set_info_simps in_ct_update by blast
    with m(2) have "n_addr k = n_addr n" by (cases "n_addr k = n_addr n") simp_all
    with same [OF k(1)] k(2) have "m = n\<lparr>n_info := ?f (n_info n)\<rparr>" by simp
    then show ?thesis using i d by (simp add: reclaimable_def count_info_def)
  qed
  then have "ct_at (filter (\<lambda>m. \<not> reclaimable m \<and> \<not> stale now' m) (conn_table ft3)) (n_addr n) = None"
    by (auto simp: ct_at_def find_None_iff)
  with cleanupFlows_expire [OF inv3, of now'] show ?thesis by auto
qed

section \<open>Properties\<close>


definition call_sample :: cb_call where
  "call_sample = \<lparr>cc_lib = \<lparr>navl_app_get = (\<lambda>_ _. (5, 90)), navl_proto_get_name = (\<lambda>_ _ _. ''HTTP'')\<rparr>,
     cc_handle = 1, cc_result = 0, cc_state = NAVL_STATE_CLASSIFIED, cc_error = 0\<rparr>"

lemma busy_node: "node_sample \<in> set (conn_table ft_busy)" "n_addr node_sample = 0"
  "class_state (n_info node_sample) = NAVL_STATE_INSPECTING"
  by (simp_all add: ft_busy_facts node_sample_def new_info_def ConnInfo_new_def)


text \<open>C33 (safety).  The callback is not safe beside the cleanup thread: for every flow under inspection and every final
  result there is a moment in the callback when a round of the cleanup erases the flow, at any time and with
  packets of the flow just seen, and the callback's next access is to the erased flow.\<close>

theorem callback_races_cleanup:
  assumes "ft_inv ft" and "n \<in> set (conn_table ft)" and "class_state (n_info n) = NAVL_STATE_INSPECTING"
    and "is_done (cc_state c)"
  shows "\<exists>pc ft3 ft4. cb_run 3 c now (AtFind (n_addr n)) ft = Inr (pc, ft3) \<and>
    cleanupFlows now' False ft3 = Inr ft4 \<and> cb_step c now pc ft4 = Inl UseAfterFree"
proof -
  obtain ft3 where r: "cb_run 3 c now (AtFind (n_addr n)) ft = Inr (AtResult (n_addr n), ft3)"
    using cb_run_found [OF assms(1,2)] by blast
  from cleanup_in_window [OF assms r] obtain ft4 where
    "cleanupFlows now' False ft3 = Inr ft4" "ct_at (conn_table ft4) (n_addr n) = None" by blast
  with r show ?thesis by (auto simp: at_node_def)
qed

theorem callback_races_cleanup_witness:
  "\<exists>pc ft3 ft4. cb_run 3 call_sample 100 (AtFind 0) ft_busy = Inr (pc, ft3) \<and>
     cleanupFlows 100 False ft3 = Inr ft4 \<and> cb_step call_sample 100 pc ft4 = Inl UseAfterFree"
proof -
  have "is_done (cc_state call_sample)" by (simp add: call_sample_def is_done_def)
  from callback_races_cleanup [OF ft_busy_facts(1) busy_node(1,3) this, of 100 100] show ?thesis
    by (simp add: busy_node(2))
qed

end
