(* ===== verification/Packet_Path.thy ===== *)
theory Packet_Path
  imports Dvf_Props Packet_Props Callback_Steps
begin

text \<open>
  The way of a packet through the parts: the filter service hands it to the packet handler, whose consumer parses it for the flow
  table, and a DPI thread passes its payload to the NAVL library.  \<open>StaticPacketProducer\<close> is the function the
  service is given at its start; \<open>packet_in\<close> is the service's callback with that function.
\<close>

section \<open>From the service to the packet handler\<close>

lemma unat_of_nat_u16: "n < 65536 \<Longrightarrow> unat (of_nat n :: u32) = n"
  by (simp add: unsigned_of_nat take_bit_nat_eq_self_iff)

fun StaticPacketProducer ::
  "bytes \<Rightarrow> 'p pkt_event \<Rightarrow> PktMdata pcq \<Rightarrow> (bool \<times> PktMdata pcq) cres" where
  "StaticPacketProducer m (PacketCb md len) q = PacketProducer m md len q"
| "StaticPacketProducer m _ q = Inr (True, q)"

fun deliver :: "bytes \<Rightarrow> 'p pkt_event list \<Rightarrow> PktMdata pcq \<Rightarrow> (bool \<times> PktMdata pcq) cres" where
  "deliver m [] q = Inr (True, q)"
| "deliver m (e # es) q = bindR (StaticPacketProducer m e q) (\<lambda>(ok, q').
     if ok then deliver m es q' else Inr (False, q'))"

text \<open>The service runs with \<open>ACTION_COPY\<close>; \<open>False\<close> means that the queue is full and the producer still spins.\<close>

definition packet_in ::
  "('s, 'p) dvlib \<Rightarrow> 's \<Rightarrow> bytes \<Rightarrow> addr \<Rightarrow> addr \<Rightarrow> filter \<Rightarrow> 'p \<Rightarrow> DVFilterDirection \<Rightarrow> PktMdata pcq \<Rightarrow>
   (bool \<times> PktMdata pcq) cres option" where
  "packet_in lib s m fptr buf f pkt d q =
     map_option (\<lambda>r. bindR r (\<lambda>p. deliver (pr_mem p) (pr_events p) q))
       (ProcessPacket 0 lib ACTION_COPY s m fptr buf buf f pkt d)"

lemma deliver_copy: "deliver m [PacketCb md len, FreePkt p] q = PacketProducer m md len q"
  by (cases "PacketProducer m md len q") auto

lemma PktDirectRef_head:
  assumes "lib_frags lib s p ((a, n) # fs)" and "26 \<le> n"
  shows "\<exists>dc. PktDirectRef lib s m p 0 (of_nat sizeof_Eth_Header) (DirectContextInit b k) = Inr (Some a, dc, m)"
  using assms by (auto simp: PktDirectRef_def DirectContextInit_def lib_frags_def eth_sizes)

lemma packet_in_head:
  assumes "lib_frags lib s pkt ((a, n) # fs)" and "26 \<le> n" and "frags_len ((a, n) # fs) < 65536"
    and "magic f = FILTER_MAGIC"
  shows "packet_in lib s m fptr buf f pkt d q =
    Some (PacketProducer m \<lparr>pm_filterPtr = Some fptr, pm_pktPtr = Some a, pm_dir = direction_code d\<rparr>
            (of_nat (frags_len ((a, n) # fs))) q)"
proof -
  from PktDirectRef_head [OF assms(1,2)] obtain dc where
    r: "PktDirectRef lib s m pkt 0 (of_nat sizeof_Eth_Header) (DirectContextInit buf 128) = Inr (Some a, dc, m)"
    by blast
  define w :: u16 where "w = ucast (DVFilter_GetPktLen lib s pkt)"
  have "unat w = frags_len ((a, n) # fs)"
    using assms(1,3) by (simp add: w_def lib_frags_def unsigned_ucast_eq take_bit_nat_eq_self_iff)
  moreover have "(ucast w :: u32) = of_nat (unat w)" by simp
  ultimately have w: "(ucast w :: u32) = of_nat (frags_len ((a, n) # fs))" by simp
  show ?thesis using r assms(4) deliver_copy unfolding w [symmetric] w_def
    by (simp add: packet_in_def ProcessPacket_def Let_def del: deliver.simps)
qed

section \<open>From the packet handler to the flow table\<close>

text \<open>A frame in one fragment reaches the flow table under its key, with its payload.\<close>

lemma packet_to_table:
  assumes ok: "frame_ok macs i opts rest" and fr: "fr = frame macs tcis i opts sp dp rest pad"
    and lib: "lib_frags lib s pkt [(length pre, length fr)]" and m: "m = pre @ fr @ post"
    and len: "26 \<le> length fr" "length fr < 65536" and f: "magic f = FILTER_MAGIC"
    and q: "pcq_inv q" "pcq_list q = []" "0 < pcq_cap q" "pcq_cap q < k"
  shows "\<exists>q1 q2. packet_in lib s m fptr buf f pkt d q = Some (Inr (True, q1)) \<and> pcq_list q2 = [] \<and>
    PacketConsumer_drain k now cur q1 ft =
      bindR (InsertOrUpdateFlows now ft (frame_key i sp dp) (frame_payload i sp dp rest) (Some fptr) (direction_code d))
        (\<lambda>ft'. Inr (Some (q2, ft')))"
proof -
  let ?md = "\<lparr>pm_filterPtr = Some fptr, pm_pktPtr = Some (length pre), pm_dir = direction_code d\<rparr>"
  let ?pk = "\<lparr>pk_filter = Some fptr, pk_pkt = fr, pk_dir = direction_code d\<rparr>"
  have n: "unat (of_nat (length fr) :: u32) = length fr" by (rule unat_of_nat_u16 [OF len(2)])
  have "packet_in lib s m fptr buf f pkt d q = Some (PacketProducer m ?md (of_nat (length fr)) q)"
    using packet_in_head [OF lib len(1) _ f] len(2) by (simp add: frags_len_def)
  moreover from pcq.enq_room [OF q(1), of ?pk] q obtain q1 where q1: "pcq_write q ?pk = Inr (True, q1)" "pcq_inv q1"
    "pcq_list q1 = [?pk]" by auto
  moreover have "PacketProducer m ?md (of_nat (length fr)) q = Inr (True, q1)"
    using q1(1) n by (simp add: PacketProducer_def rdn_def m)
  moreover have "classify_all now [] = Inr" by (simp add: fun_eq_iff)
  then obtain q2 where q2: "pcq_list q2 = []"
    "PacketConsumer_drain k now cur q1 ft = bindR (bindR (classifyFlows now ?pk ft) Inr) (\<lambda>ft'. Inr (Some (q2, ft')))"
    using drain_all [OF q1(2), of k now cur ft] q q1(3) by auto
  moreover have "classifyFlows now ?pk ft = InsertOrUpdateFlows now ft (frame_key i sp dp)
      (frame_payload i sp dp rest) (Some fptr) (direction_code d)"
    using classifyFlows_frame [OF ok, of ?pk tcis sp dp pad now ft] fr len(2) by simp
  moreover have "bindR x Inr = x" for x :: "flow_table cres" by (cases x) auto
  ultimately show ?thesis by auto
qed

section \<open>From the flow table to the library\<close>

definition flow_queue :: "flow_table \<Rightarrow> ConnKey \<Rightarrow> nat" where
  "flow_queue ft key = (case ct_find (conn_table ft) key of
       None \<Rightarrow> nat (uint (ConnKeyHasher key) mod numQueues ft)
     | Some n \<Rightarrow> nat (ci_queue (n_info n)))"

text \<open>What the library is asked about a packet: to open a connection for a flow seen first, to classify
  the payload of a flow whose connection is open.\<close>

definition library_call :: "int \<Rightarrow> flow_table \<Rightarrow> ConnKey \<Rightarrow> bytes \<Rightarrow> navl_call" where
  "library_call g ft key payload = (case ct_find (conn_table ft) key of
       None \<Rightarrow> NavlConnCreate g (host_of (srcaddr key) (srcport key)) (host_of (dstaddr key) (dstport key)) (ipproto key)
     | Some n \<Rightarrow> NavlClassify g NAVL_ENCAP_NONE payload (of_nat (length payload)) (dpi_state (n_info n))
                  (if srcaddr key = srcaddr (n_key n) then 0 else 1))"

text \<open>The direction of a packet in its flow.\<close>

definition flow_dir :: "ConnKey \<Rightarrow> ConnInfo \<Rightarrow> int" where
  "flow_dir key ci = (if srcaddr key = srcaddr (ci_key ci) then 0 else 1)"

text \<open>A packet that causes a message leaves it alone on the queue of its flow.\<close>

lemma packet_queued:
  assumes inv: "ft_inv ft" "0 < numQueues ft" and empty: "dpiQueues ft ! flow_queue ft key = []"
    and ins: "InsertOrUpdateFlows now ft key payload flt dir = Inr ft1"
    and sends: "case flow_map ft key of None \<Rightarrow> True | Some ci \<Rightarrow> forwards ci"
  shows "\<exists>n m. n \<in> set (conn_table ft1) \<and> ConnKeyEqual key (n_key n) \<and> n_info n = packet_info now ft key flt dir \<and>
    flow_queue ft key < length (dpiQueues ft1) \<and> dpiQueues ft1 = (dpiQueues ft)[flow_queue ft key := [m]] \<and>
    md_info m = Some (n_addr n) \<and> md_exit_flag m = 0 \<and> md_data m = payload \<and>
    sint (md_dir m) = (case flow_map ft key of None \<Rightarrow> 0 | Some ci \<Rightarrow> flow_dir key ci) \<and>
    n_key n = (case flow_map ft key of None \<Rightarrow> key | Some ci \<Rightarrow> ci_key ci)"
proof (cases "ct_find (conn_table ft) key")
  case None
  let ?n = "\<lparr>n_addr = next_addr ft, n_key = key, n_info = new_info now (numQueues ft) key flt dir\<rparr>"
  let ?m = "\<lparr>md_key = Some (next_addr ft), md_info = Some (next_addr ft), md_pktnum = 0, md_dir = 0,
     md_data = payload, md_exit_flag = 0\<rparr>"
  have nq: "numQueues ft \<le> int (length (dpiQueues ft))" using inv(1) by (simp add: ft_inv_def)
  have i: "flow_queue ft key < length (dpiQueues ft)"
    using None mod_less_len [OF inv(2) nq, of "uint (ConnKeyHasher key)"]
      pos_mod_sign [OF inv(2), of "uint (ConnKeyHasher key)"] by (simp add: flow_queue_def)
  have ft1: "conn_table ft1 = conn_table ft @ [?n]" "dpiQueues ft1 = (dpiQueues ft)[flow_queue ft key := [?m]]"
    using ins InsertOrUpdateFlows_new [OF inv None, of now payload flt dir] None empty
    by (auto simp: packet_msg_def send_def flow_queue_def)
  have "flow_map ft key = None" using None by (simp add: flow_map_def)
  with ft1 i show ?thesis by (intro exI [of _ ?n] exI [of _ ?m]) (simp add: packet_info_def ConnKeyEqual_alt)
next
  case (Some n)
  let ?n = "n\<lparr>n_info := seen_info now (n_info n)\<rparr>"
  let ?m = "\<lparr>md_key = Some (n_addr n), md_info = Some (n_addr n), md_pktnum = packetnum (n_info n) + 1,
     md_dir = (if srcaddr key = srcaddr (n_key n) then 0 else 1), md_data = payload, md_exit_flag = 0\<rparr>"
  have map: "flow_map ft key = Some (n_info n)" using Some by (simp add: flow_map_def)
  have n: "n \<in> set (conn_table ft)" "ConnKeyEqual key (n_key n)" and fw: "forwards (n_info n)"
    using Some sends map ct_find_Some [OF table_of_inv [OF inv(1)]] by auto
  then have i: "flow_queue ft key < length (dpiQueues ft)" and key: "ci_key (n_info n) = n_key n"
    using nodes_ok [OF inv(1) n(1)] Some by (auto simp: flow_queue_def node_ok_def)
  have ft1: "conn_table ft1 = ct_update (n_addr n) (seen_info now) (conn_table ft)"
    "dpiQueues ft1 = (dpiQueues ft)[flow_queue ft key := [?m]]"
    using ins InsertOrUpdateFlows_known [OF inv Some, of now payload flt dir] Some empty fw
    by (auto simp: packet_msg_def send_def flow_queue_def)
  have "?n \<in> set (conn_table ft1)" using n(1) by (auto simp: ft1(1) in_ct_update intro!: bexI [of _ n])
  with ft1 i n key map show ?thesis
    by (intro exI [of _ ?n] exI [of _ ?m]) (simp add: packet_info_def flow_dir_def)
qed

lemma table_to_library:
  assumes inv: "ft_inv ft" "refs_inv ft" "0 < numQueues ft"
    and known: "\<forall>n. ct_find (conn_table ft) key = Some n \<longrightarrow> forwards (n_info n) \<and> ci_error (n_info n) = 0"
    and pl: "payload \<noteq> []" and empty: "dpiQueues ft ! flow_queue ft key = []"
    and ins: "InsertOrUpdateFlows now ft key payload flt dir = Inr ft1"
  shows "\<exists>ft2. Dequeue_iter E now' g (flow_queue ft key) ft1 = Inr (Again ft2 [library_call g ft key payload])"
proof -
  let ?i = "flow_queue ft key"
  have inv1: "ft_inv ft1" "refs_inv ft1"
    using InsertOrUpdateFlows_inv [OF inv(1,3) ins] InsertOrUpdateFlows_refs [OF inv ins] by simp_all
  have sends: "case flow_map ft key of None \<Rightarrow> True | Some ci \<Rightarrow> forwards ci"
    using known by (auto simp: flow_map_def split: option.splits)
  from packet_queued [OF inv(1,3) empty ins sends] obtain n m where
    n: "n \<in> set (conn_table ft1)" "n_info n = packet_info now ft key flt dir"
      "n_key n = (case flow_map ft key of None \<Rightarrow> key | Some ci \<Rightarrow> ci_key ci)" and
    q: "?i < length (dpiQueues ft1)" "dpiQueues ft1 = (dpiQueues ft)[?i := [m]]" and
    m: "md_info m = Some (n_addr n)" "md_exit_flag m = 0" "md_data m = payload"
      "sint (md_dir m) = (case flow_map ft key of None \<Rightarrow> 0 | Some ci \<Rightarrow> flow_dir key ci)" by blast
  have qi: "dpiQueues ft1 ! ?i = [m]" using q by simp
  have "dequeued_calls g n m = [library_call g ft key payload]"
  proof (cases "ct_find (conn_table ft) key")
    case None
    with n(2,3) show ?thesis
      by (simp add: flow_map_def packet_info_def dequeued_calls_def library_call_def new_info_def ConnInfo_new_def Let_def)
  next
    case (Some n0)
    then have "n0 \<in> set (conn_table ft)" using ct_find_Some [OF table_of_inv [OF inv(1)]] by blast
    then have "ci_key (n_info n0) = n_key n0" using nodes_ok [OF inv(1)] by (auto simp: node_ok_def)
    with Some known pl n(2,3) m(3,4) show ?thesis
      by (auto simp: flow_map_def packet_info_def dequeued_calls_def takes_classify_def library_call_def forwards_def
          seen_info_def flow_dir_def Let_def)
  qed
  with Dequeue_iter_live [OF inv1 q(1) qi m(2) n(1) m(1), of E now' g] show ?thesis by auto
qed

section \<open>Properties\<close>


definition wire_sample :: bytes where
  "wire_sample = frame (replicate 12 0) [5] udp_ip [] (ntohs 40000) (ntohs 53) [0, 10, 0, 0, 1, 2] [9, 9]"

lemma wire_sample_facts: "length wire_sample = 50" "frame_ok (replicate 12 0) udp_ip [] [0, 10, 0, 0, 1, 2]"
  "frame_payload udp_ip (ntohs 40000) (ntohs 53) [0, 10, 0, 0, 1, 2] = [1, 2]"
  by (simp_all add: wire_sample_def frame_def tags_def be16_def le16_def le_defs enc_IPHdr_def frame_ok_def udp_ip_def
      l4_header_len_def IPPROTO_UDP_def IPPROTO_TCP_def frame_payload_def)

lemma pkq_sample_facts: "pcq_inv pkq_sample" "pcq_list pkq_sample = []" "pcq_cap pkq_sample = 2"
  by (simp_all add: pkq_sample_def pcq_defs live_slots_def pcq_cap_def)
    (auto simp: nth_Cons less_Suc_eq numeral_3_eq_3)


text \<open>The service does not check that it got the packet's data: a packet whose first fragment is shorter than an
  Ethernet header with a VLAN tag and LLC (26 bytes) makes the packet handler copy from a null pointer.\<close>

lemma short_fragment_null:
  fixes lib :: "('s, 'p) dvlib"
  assumes "lib_frags lib s pkt ((a, n) # fs)" and "0 < n" and "n < 26" and "frags_len ((a, n) # fs) < 65536"
    and "magic f = FILTER_MAGIC"
  shows "packet_in lib s m fptr buf f pkt d q = Some (Inl NullDeref)"
proof -
  have r: "PktDirectRef lib s m pkt 0 (of_nat sizeof_Eth_Header) (DirectContextInit buf 128) =
      Inr (None, DirectContextInit buf 128, m)"
    using assms(1-3) by (auto simp: PktDirectRef_def DirectContextInit_def lib_frags_def eth_sizes)
  define w :: u16 where "w = ucast (DVFilter_GetPktLen lib s pkt)"
  have "unat w = frags_len ((a, n) # fs)"
    using assms(1,4) by (simp add: w_def lib_frags_def unsigned_ucast_eq take_bit_nat_eq_self_iff)
  then have "0 < unat w" "unat w < 65536" using assms(2,4) by (simp_all add: frags_len_def)
  moreover have "(ucast w :: u32) = of_nat (unat w)" by simp
  ultimately have "(ucast w :: u32) \<noteq> 0" using unat_of_nat_u16 [of "unat w"] by auto
  with r assms(5) show ?thesis
    unfolding w_def by (simp add: packet_in_def ProcessPacket_def Let_def PacketProducer_def)
qed

lemma short_fragment_null_witness:
  "packet_in (lib_of [(2, 20), (40, 30)]) () (replicate 80 0) 800 60 filter_sample () DVFILTER_TO_SWITCH pkq_sample =
     Some (Inl NullDeref)"
proof -
  have "lib_frags (lib_of [(2, 20), (40, 30)]) () () [(2, 20), (40, 30)]" by (rule lib_of_frags) (simp add: frags_len_def)
  then show ?thesis by (rule short_fragment_null) (simp_all add: frags_len_def filter_sample_def)
qed

text \<open>C37 (bounds).  The packet handler copies the whole packet's length from the first fragment: of a packet in several
  fragments it queues the first fragment followed by whatever lies behind it in memory, or reads outside
  memory.\<close>

theorem fragments_misread:
  fixes lib :: "('s, 'p) dvlib"
  assumes "lib_frags lib s pkt ((a, n) # fs)" and "26 \<le> n" and "frags_len ((a, n) # fs) < 65536"
    and "magic f = FILTER_MAGIC" and "pcq_inv q" and "length (pcq_list q) < pcq_cap q"
  shows "if a + n + frags_len fs \<le> length m
    then \<exists>q1. packet_in lib s m fptr buf f pkt d q = Some (Inr (True, q1)) \<and>
       pcq_list q1 = pcq_list q @ [\<lparr>pk_filter = Some fptr,
         pk_pkt = take n (drop a m) @ take (frags_len fs) (drop (a + n) m), pk_dir = direction_code d\<rparr>]
    else packet_in lib s m fptr buf f pkt d q = Some (Inl OutOfBounds)"
proof -
  have t: "frags_len ((a, n) # fs) = n + frags_len fs" by (simp add: frags_len_def)
  have u: "unat (of_nat (frags_len ((a, n) # fs)) :: u32) = n + frags_len fs"
    using assms(3) unat_of_nat_u16 t by metis
  have s: "take (n + frags_len fs) (drop a m) = take n (drop a m) @ take (frags_len fs) (drop (a + n) m)"
    by (simp add: take_add add.commute)
  let ?p = "\<lparr>pk_filter = Some fptr, pk_pkt = take n (drop a m) @ take (frags_len fs) (drop (a + n) m),
    pk_dir = direction_code d\<rparr>"
  from pcq.enq_room [OF assms(5,6), of ?p] obtain q1 where
    q1: "pcq_write q ?p = Inr (True, q1)" "pcq_list q1 = pcq_list q @ [?p]" by blast
  note p = packet_in_head [OF assms(1-4), of m fptr buf d q]
  show ?thesis
    using q1 p u s by (auto simp: PacketProducer_def rdn_def add.assoc)
qed

theorem fragments_misread_witness:
  "\<exists>q1. packet_in (lib_of [(2, 30), (40, 3)]) () (replicate 40 7 @ [1, 2, 3]) 800 60 filter_sample () DVFILTER_TO_SWITCH
       pkq_sample = Some (Inr (True, q1)) \<and> map pk_pkt (pcq_list q1) = [replicate 33 7]"
proof -
  have "lib_frags (lib_of [(2, 30), (40, 3)]) () () [(2, 30), (40, 3)]" by (rule lib_of_frags) (simp add: frags_len_def)
  from fragments_misread [OF this _ _ _ pkq_sample_facts(1), of filter_sample "replicate 40 7 @ [1, 2, 3]" 800 60 DVFILTER_TO_SWITCH]
  show ?thesis using pkq_sample_facts
    by (auto simp: frags_len_def filter_sample_def replicate_add [symmetric])
qed

end
