(* ===== verification/Filter_Registry.thy ===== *)
theory Filter_Registry
  imports Dvf_Types
begin

text \<open>
  The filters of \<open>netx_sample_service.c\<close>: creation, configuration, lookup and destruction, and their
  saved state.  Filter objects live in a heap from addresses to records; \<open>filterList\<close> is the
  array of \<open>filterListSize\<close> pointers (\<open>None\<close>: never written) and \<open>filterListCount\<close> says how many of
  them are in use.  The library calls that describe a filter are the fields of \<open>filter_lib\<close>; a call
  that fills a buffer maps its old contents to the new ones.
\<close>

section \<open>State\<close>

record filter_lib =
  DVFilter_GetName :: "ptr \<Rightarrow> bytes \<Rightarrow> bytes"
  DVFilter_GetEndPointType :: "ptr \<Rightarrow> DVFilterEndPointType \<Rightarrow> DVFilterStatus \<times> DVFilterEndPointType"
  DVFilter_GetVcUuid :: "ptr \<Rightarrow> bytes \<Rightarrow> DVFilterStatus \<times> bytes"
  DVFilter_GetVnicIndex :: "ptr \<Rightarrow> u32 \<Rightarrow> DVFilterStatus \<times> u32"

record registry =
  heap :: "addr \<rightharpoonup> filter"
  fresh_addr :: addr
  filterList :: "ptr list"
  filterListCount :: nat
  filterListSize :: nat
  failedFilterName :: bytes

definition registry_init :: "nat \<Rightarrow> registry" where
  "registry_init n = \<lparr>heap = Map.empty, fresh_addr = 1, filterList = replicate n None,
     filterListCount = 0, filterListSize = n, failedFilterName = replicate FILTERNAME_MAXLEN 0\<rparr>"

definition filter_zero :: filter where
  "filter_zero = \<lparr>magic = 0, f_handle = None, f_state = filterState_zero,
     filterName = replicate FILTERNAME_MAXLEN 0, vcUUID = replicate DVFILTER_MAX_VC_UUID_LEN 0,
     endPointType = DVFILTER_ENDPOINT_VNIC, vNicIndex = 0\<rparr>"

section \<open>Operations\<close>

definition deref :: "registry \<Rightarrow> ptr \<Rightarrow> filter cres" where
  "deref r p = (case p of None \<Rightarrow> Inl NullDeref
     | Some a \<Rightarrow> (case heap r a of None \<Rightarrow> Inl UseAfterFree | Some f \<Rightarrow> Inr f))"

definition list_at :: "registry \<Rightarrow> nat \<Rightarrow> ptr cres" where
  "list_at r i = (if i < length (filterList r)
     then case filterList r ! i of None \<Rightarrow> Inl Uninitialised | Some a \<Rightarrow> Inr (Some a)
     else Inl OutOfBounds)"

fun LookupFilter_loop :: "registry \<Rightarrow> bytes \<Rightarrow> u32 \<Rightarrow> nat \<Rightarrow> nat \<Rightarrow> ptr cres" where
  "LookupFilter_loop r uuid nic i 0 = Inr None"
| "LookupFilter_loop r uuid nic i (Suc n) =
     bindR (list_at r i) (\<lambda>p. bindR (deref r p) (\<lambda>f.
       if strncmp_eq (vcUUID f) uuid DVFILTER_MAX_VC_UUID_LEN \<and> vNicIndex f = nic then Inr p
       else LookupFilter_loop r uuid nic (i + 1) n))"

definition LookupFilter :: "registry \<Rightarrow> bytes \<Rightarrow> u32 \<Rightarrow> ptr cres" where
  "LookupFilter r uuid nic = LookupFilter_loop r uuid nic 0 (filterListCount r)"

text \<open>The configuration parameters are read into a local buffer and only logged.\<close>

definition UpdateFilterConfiguration :: "filter_lib \<Rightarrow> filter \<Rightarrow> filter cres" where
  "UpdateFilterConfiguration lib f =
     (let (status, ep) = DVFilter_GetEndPointType lib (f_handle f) (endPointType f)
      in if status \<noteq> DVFILTER_STATUS_OK then Inl AssertFailed
         else let (_, uuid) = DVFilter_GetVcUuid lib (f_handle f) (vcUUID f);
                  (_, nic) = DVFilter_GetVnicIndex lib (f_handle f) (vNicIndex f)
              in Inr (f\<lparr>endPointType := ep, vcUUID := uuid, vNicIndex := nic\<rparr>))"

definition CreateFilter ::
  "filter_lib \<Rightarrow> bool \<Rightarrow> ptr \<Rightarrow> registry \<Rightarrow> (DVFilterStatus \<times> ptr \<times> registry) cres" where
  "CreateFilter lib calloc_ok handle r =
     (if \<not> calloc_ok then Inr (DVFILTER_STATUS_ERROR, None, r)
      else
        let a = fresh_addr r;
            f0 = filter_zero\<lparr>filterName := DVFilter_GetName lib handle (filterName filter_zero)\<rparr>
        in if strncmp_eq (filterName f0) (failedFilterName r) FILTERNAME_MAXLEN
           then Inr (DVFILTER_STATUS_ERROR, None, r\<lparr>fresh_addr := a + 1\<rparr>)
           else bindR (UpdateFilterConfiguration lib (f0\<lparr>magic := FILTER_MAGIC, f_handle := handle\<rparr>)) (\<lambda>f.
                let r1 = r\<lparr>heap := (heap r)(a \<mapsto> f), fresh_addr := a + 1\<rparr>
                in if filterListCount r + 1 = filterListSize r
                   then Inr (DVFILTER_STATUS_OK, Some a, r1)
                   else if filterListCount r < length (filterList r)
                   then Inr (DVFILTER_STATUS_OK, Some a,
                             r1\<lparr>filterList := (filterList r)[filterListCount r := Some a],
                                filterListCount := filterListCount r + 1\<rparr>)
                   else Inl OutOfBounds))"

definition with_magic :: "registry \<Rightarrow> addr \<Rightarrow> filter cres" where
  "with_magic r a = bindR (deref r (Some a)) (\<lambda>f.
     if magic f = FILTER_MAGIC then Inr f else Inl AssertFailed)"

definition ConfigurationChanged :: "filter_lib \<Rightarrow> addr \<Rightarrow> registry \<Rightarrow> registry cres" where
  "ConfigurationChanged lib a r = bindR (with_magic r a) (\<lambda>f.
     bindR (UpdateFilterConfiguration lib f) (\<lambda>f'. Inr (r\<lparr>heap := (heap r)(a \<mapsto> f')\<rparr>)))"

text \<open>The loop of \<open>DestroyFilter\<close> over the used part of the list, from \<open>i\<close> on, \<open>n\<close> rounds left.\<close>

fun DestroyFilter_loop :: "addr \<Rightarrow> nat \<Rightarrow> nat \<Rightarrow> nat \<Rightarrow> ptr list \<Rightarrow> ptr list cres" where
  "DestroyFilter_loop a cnt i 0 l = Inr l"
| "DestroyFilter_loop a cnt i (Suc n) l =
     (if length l \<le> i \<or> length l < cnt then Inl OutOfBounds
      else DestroyFilter_loop a cnt (i + 1) n
             (if l ! i = Some a then l[i := l ! (cnt - 1)] else l))"

definition DestroyFilter :: "addr \<Rightarrow> registry \<Rightarrow> (DVFilterStatus \<times> registry) cres" where
  "DestroyFilter a r = bindR (with_magic r a) (\<lambda>f.
     if filterListCount r = 0 then Inl AssertFailed
     else bindR (if filterListCount r > 1
                 then DestroyFilter_loop a (filterListCount r) 0 (filterListCount r) (filterList r)
                 else Inr (filterList r)) (\<lambda>l.
          Inr (DVFILTER_STATUS_OK,
               r\<lparr>filterList := l, filterListCount := filterListCount r - 1,
                 heap := (heap r)(a := None)\<rparr>)))"

section \<open>Saved state\<close>

definition sizeof_filterState :: nat where "sizeof_filterState = 17"

text \<open>The packed struct as the bytes \<open>memcpy\<close> moves.\<close>

definition enc_state :: "filterState \<Rightarrow> bytes" where
  "enc_state s = [filterToSwitch s, filterFromSwitch s, filterICMP s] @ le16 (filterUDPPortNBO s) @
     le16 (filterTCPPortNBO s) @ [copyPackets s] @ le32 (delayPacketsMs s) @ [reorderPackets s] @
     le16 (dnaptPortNBO s) @ le16 (fakeProcessingUsecs s)"

definition dec_state :: "bytes \<Rightarrow> filterState cres" where
  "dec_state m = bindR (rd8 m 0) (\<lambda>a. bindR (rd8 m 1) (\<lambda>b. bindR (rd8 m 2) (\<lambda>c.
     bindR (ld16 m 3) (\<lambda>d. bindR (ld16 m 5) (\<lambda>e. bindR (rd8 m 7) (\<lambda>f. bindR (ld32 m 8) (\<lambda>g.
     bindR (rd8 m 12) (\<lambda>h. bindR (ld16 m 13) (\<lambda>i. bindR (ld16 m 15) (\<lambda>j.
     Inr \<lparr>filterToSwitch = a, filterFromSwitch = b, filterICMP = c, filterUDPPortNBO = d,
          filterTCPPortNBO = e, copyPackets = f, delayPacketsMs = g, reorderPackets = h,
          dnaptPortNBO = i, fakeProcessingUsecs = j\<rparr>))))))))))"

definition GetSavedStateLen :: "nat \<Rightarrow> addr \<Rightarrow> registry \<Rightarrow> (DVFilterStatus \<times> u32) cres" where
  "GetSavedStateLen rand a r = bindR (with_magic r a) (\<lambda>f.
     Inr (DVFILTER_STATUS_OK, of_nat (sizeof_filterState + rand mod 128)))"

definition SaveState :: "addr \<Rightarrow> bytes \<Rightarrow> u32 \<Rightarrow> registry \<Rightarrow> (DVFilterStatus \<times> bytes \<times> u32) cres" where
  "SaveState a buf len r = bindR (with_magic r a) (\<lambda>f.
     if unat len < sizeof_filterState then Inr (DVFILTER_STATUS_ERROR, buf, len)
     else bindR (wrn buf 0 (enc_state (f_state f))) (\<lambda>buf'.
            Inr (DVFILTER_STATUS_OK, buf', of_nat sizeof_filterState)))"

definition RestoreState :: "addr \<Rightarrow> bytes \<Rightarrow> u32 \<Rightarrow> registry \<Rightarrow> (DVFilterStatus \<times> registry) cres" where
  "RestoreState a buf len r = bindR (with_magic r a) (\<lambda>f.
     if unat len \<noteq> sizeof_filterState then Inr (DVFILTER_STATUS_ERROR, r)
     else bindR (dec_state buf) (\<lambda>st.
            Inr (DVFILTER_STATUS_OK, r\<lparr>heap := (heap r)(a \<mapsto> f\<lparr>f_state := st\<rparr>)\<rparr>)))"

end
