(* ===== verification/Filter_Props.thy ===== *)
theory Filter_Props
  imports Filter_Registry
begin

text \<open>
  The registry of filters as a set of live objects: every operation keeps the list and the heap
  consistent, lookups find exactly the registered filters, and the saved state round trips.
\<close>

section \<open>Invariant\<close>

definition listed :: "registry \<Rightarrow> ptr list" where
  "listed r = take (filterListCount r) (filterList r)"

definition live :: "registry \<Rightarrow> ptr \<Rightarrow> bool" where
  "live r p \<longleftrightarrow> (\<exists>a f. p = Some a \<and> heap r a = Some f \<and> magic f = FILTER_MAGIC)"

definition reg_inv :: "registry \<Rightarrow> bool" where
  "reg_inv r \<longleftrightarrow> length (filterList r) = filterListSize r \<and> filterListCount r < filterListSize r \<and>
     distinct (listed r) \<and> (\<forall>p \<in> set (listed r). live r p) \<and>
     (\<forall>a. fresh_addr r \<le> a \<longrightarrow> heap r a = None) \<and>
     (\<forall>a f. heap r a = Some f \<longrightarrow> magic f = FILTER_MAGIC)"

definition identifies :: "registry \<Rightarrow> bytes \<Rightarrow> u32 \<Rightarrow> ptr \<Rightarrow> bool" where
  "identifies r uuid nic p \<longleftrightarrow> (\<exists>f. deref r p = Inr f \<and>
     strncmp_eq (vcUUID f) uuid DVFILTER_MAX_VC_UUID_LEN \<and> vNicIndex f = nic)"

lemma live_deref: "live r p \<Longrightarrow> \<exists>f. deref r p = Inr f"
  by (auto simp: live_def deref_def)

lemma list_at_live:
  "reg_inv r \<Longrightarrow> i < filterListCount r \<Longrightarrow> list_at r i = Inr (listed r ! i) \<and> live r (listed r ! i)"
proof -
  assume inv: "reg_inv r" and i: "i < filterListCount r"
  then have "listed r ! i \<in> set (listed r)" by (auto simp: reg_inv_def listed_def in_set_conv_nth)
  with inv have l: "live r (listed r ! i)" by (simp add: reg_inv_def)
  with inv i show ?thesis by (auto simp: list_at_def reg_inv_def listed_def live_def)
qed

section \<open>Lookup\<close>

lemma LookupFilter_loop_find:
  assumes "reg_inv r" and "i + n = filterListCount r"
  shows "LookupFilter_loop r uuid nic i n =
    Inr (case find (identifies r uuid nic) (drop i (listed r)) of None \<Rightarrow> None | Some p \<Rightarrow> p)"
  using assms(2)
proof (induction n arbitrary: i)
  case 0
  with assms(1) show ?case by (simp add: listed_def)
next
  case (Suc n)
  then have i: "i < filterListCount r" by simp
  have "length (listed r) = filterListCount r" using assms(1) by (simp add: reg_inv_def listed_def)
  then have d: "drop i (listed r) = listed r ! i # drop (i + 1) (listed r)"
    using i by (simp add: Cons_nth_drop_Suc)
  note at = list_at_live [OF assms(1) i]
  with live_deref obtain f where "deref r (listed r ! i) = Inr f" by blast
  with at d Suc.IH [of "i + 1"] Suc.prems show ?case by (auto simp: identifies_def)
qed

lemma LookupFilter_find:
  "reg_inv r \<Longrightarrow> LookupFilter r uuid nic =
     Inr (case find (identifies r uuid nic) (listed r) of None \<Rightarrow> None | Some p \<Rightarrow> p)"
  by (simp add: LookupFilter_def LookupFilter_loop_find)

section \<open>Creation\<close>

lemma live_upd:
  "live r p \<Longrightarrow> magic f = FILTER_MAGIC \<Longrightarrow> heap r' = (heap r)(a \<mapsto> f) \<Longrightarrow> live r' p"
  by (cases p) (auto simp: live_def)

lemma UpdateFilterConfiguration_keeps:
  "UpdateFilterConfiguration lib f = Inr f' \<Longrightarrow> magic f' = magic f \<and> f_handle f' = f_handle f \<and>
     filterName f' = filterName f \<and> f_state f' = f_state f"
  by (auto simp: UpdateFilterConfiguration_def Let_def split: prod.splits if_splits)

lemma listed_snoc:
  assumes "filterListCount r < length (filterList r)"
  shows "listed (r\<lparr>heap := h, fresh_addr := n, filterList := (filterList r)[filterListCount r := p],
                   filterListCount := filterListCount r + 1\<rparr>) = listed r @ [p]"
  using assms by (simp add: listed_def take_Suc_conv_app_nth)

text \<open>\<open>accepts\<close>: the library gives the new filter a name and an end point.\<close>

definition accepts :: "filter_lib \<Rightarrow> ptr \<Rightarrow> registry \<Rightarrow> bool" where
  "accepts lib handle r \<longleftrightarrow>
     \<not> strncmp_eq (DVFilter_GetName lib handle (filterName filter_zero)) (failedFilterName r) FILTERNAME_MAXLEN \<and>
     fst (DVFilter_GetEndPointType lib handle (endPointType filter_zero)) = DVFILTER_STATUS_OK"

definition new_filter :: "filter_lib \<Rightarrow> ptr \<Rightarrow> filter" where
  "new_filter lib handle = filter_zero\<lparr>magic := FILTER_MAGIC, f_handle := handle,
     filterName := DVFilter_GetName lib handle (filterName filter_zero),
     endPointType := snd (DVFilter_GetEndPointType lib handle (endPointType filter_zero)),
     vcUUID := snd (DVFilter_GetVcUuid lib handle (vcUUID filter_zero)),
     vNicIndex := snd (DVFilter_GetVnicIndex lib handle (vNicIndex filter_zero))\<rparr>"

lemma CreateFilter_eq:
  assumes "reg_inv r" and "accepts lib handle r"
  shows "CreateFilter lib True handle r = Inr (DVFILTER_STATUS_OK, Some (fresh_addr r),
    if filterListCount r + 1 = filterListSize r
    then r\<lparr>heap := (heap r)(fresh_addr r \<mapsto> new_filter lib handle), fresh_addr := fresh_addr r + 1\<rparr>
    else r\<lparr>heap := (heap r)(fresh_addr r \<mapsto> new_filter lib handle), fresh_addr := fresh_addr r + 1,
           filterList := (filterList r)[filterListCount r := Some (fresh_addr r)],
           filterListCount := filterListCount r + 1\<rparr>)"
  using assms
  by (auto simp: CreateFilter_def accepts_def reg_inv_def UpdateFilterConfiguration_def new_filter_def
      filter_zero_def Let_def split: prod.splits)

lemma CreateFilter_inv:
  assumes inv: "reg_inv r" and acc: "accepts lib handle r"
    and c: "CreateFilter lib True handle r = Inr (st, p, r')"
  shows "reg_inv r' \<and> listed r' = listed r @
     (if filterListCount r + 1 = filterListSize r then [] else [Some (fresh_addr r)])"
proof -
  let ?f = "new_filter lib handle"
  have f: "magic ?f = FILTER_MAGIC" by (simp add: new_filter_def filter_zero_def)
  have fresh: "Some (fresh_addr r) \<notin> set (listed r)"
    using inv by (force simp: reg_inv_def live_def)
  show ?thesis
  proof (cases "filterListCount r + 1 = filterListSize r")
    case True
    then have r': "r' = r\<lparr>heap := (heap r)(fresh_addr r \<mapsto> ?f), fresh_addr := fresh_addr r + 1\<rparr>"
      using c CreateFilter_eq [OF inv acc] by auto
    have "listed r' = listed r" by (simp add: r' listed_def)
    moreover have "\<forall>p \<in> set (listed r). live r' p"
      using inv f live_upd [of r _ ?f r' "fresh_addr r"] by (simp add: reg_inv_def r')
    ultimately show ?thesis using True inv f by (auto simp: reg_inv_def r')
  next
    case False
    then have r': "r' = r\<lparr>heap := (heap r)(fresh_addr r \<mapsto> ?f), fresh_addr := fresh_addr r + 1,
        filterList := (filterList r)[filterListCount r := Some (fresh_addr r)],
        filterListCount := filterListCount r + 1\<rparr>"
      using c CreateFilter_eq [OF inv acc] by auto
    have cnt: "filterListCount r < length (filterList r)" using inv by (simp add: reg_inv_def)
    have l: "listed r' = listed r @ [Some (fresh_addr r)]" unfolding r' by (rule listed_snoc [OF cnt])
    have "\<forall>p \<in> set (listed r). live r' p"
      using inv f live_upd [of r _ ?f r' "fresh_addr r"] by (simp add: reg_inv_def r')
    moreover have "live r' (Some (fresh_addr r))" using f by (simp add: live_def r')
    moreover have "\<forall>a. fresh_addr r' \<le> a \<longrightarrow> heap r' a = None"
      "\<forall>a f. heap r' a = Some f \<longrightarrow> magic f = FILTER_MAGIC"
      using inv f by (auto simp: reg_inv_def r')
    ultimately show ?thesis
      using False inv fresh l by (auto simp: reg_inv_def r')
  qed
qed

section \<open>Destruction\<close>

text \<open>With the object at most once in the used part, the loop overwrites it by the last entry.\<close>

lemma DestroyFilter_loop_eq:
  assumes "i + n = cnt" and "cnt \<le> length l" and "0 < cnt"
  shows "\<exists>l'. DestroyFilter_loop a cnt i n l = Inr l' \<and> length l' = length l \<and>
    (\<forall>j < length l. l' ! j = (if i \<le> j \<and> j < cnt \<and> l ! j = Some a then l ! (cnt - 1) else l ! j))"
  using assms
proof (induction n arbitrary: i l)
  case (Suc n)
  define l1 where "l1 = (if l ! i = Some a then l[i := l ! (cnt - 1)] else l)"
  have len: "length l1 = length l" by (simp add: l1_def)
  have last: "l1 ! (cnt - 1) = l ! (cnt - 1)"
    using Suc.prems by (auto simp: l1_def nth_list_update)
  obtain l' where l': "DestroyFilter_loop a cnt (i + 1) n l1 = Inr l'" "length l' = length l"
    "\<forall>j < length l. l' ! j = (if i + 1 \<le> j \<and> j < cnt \<and> l1 ! j = Some a then l1 ! (cnt - 1) else l1 ! j)"
    using Suc.IH [of "i + 1" l1] Suc.prems len by auto
  have "DestroyFilter_loop a cnt i (Suc n) l = Inr l'"
    using Suc.prems l'(1) by (simp add: l1_def)
  moreover have "\<forall>j < length l. l' ! j =
      (if i \<le> j \<and> j < cnt \<and> l ! j = Some a then l ! (cnt - 1) else l ! j)"
  proof (intro allI impI)
    fix j
    assume j: "j < length l"
    show "l' ! j = (if i \<le> j \<and> j < cnt \<and> l ! j = Some a then l ! (cnt - 1) else l ! j)"
      using l'(3) j last Suc.prems by (cases "j = i") (auto simp: l1_def nth_list_update split: if_splits)
  qed
  ultimately show ?case using l'(2) by blast
next
  case 0
  then show ?case by (intro exI [of _ l]) auto
qed

lemma with_magic_live: "heap r a = Some f \<Longrightarrow> magic f = FILTER_MAGIC \<Longrightarrow> with_magic r a = Inr f"
  by (simp add: with_magic_def deref_def)

text \<open>The used part of the list after the call, for an object that is in it at \<open>k\<close>.\<close>

lemma destroyed_list:
  assumes "distinct (take cnt l)" and "cnt \<le> length l" and "k < cnt" and "l ! k = Some a"
    and "length l' = length l"
    and "\<forall>j < length l. l' ! j = (if j < cnt \<and> l ! j = Some a then l ! (cnt - 1) else l ! j)"
  shows "distinct (take (cnt - 1) l')" and "set (take (cnt - 1) l') = set (take cnt l) - {Some a}"
proof -
  have uniq: "j = k" if "j < cnt" "l ! j = Some a" for j
    using assms(1-4) that nth_eq_iff_index_eq [OF assms(1), of j k] by simp
  have l': "take (cnt - 1) l' = (take (cnt - 1) l)[k := l ! (cnt - 1)]"
  proof (rule nth_equalityI)
    fix j
    assume "j < length (take (cnt - 1) l')"
    then have j: "j < cnt - 1" "j < length l" using assms(5) by auto
    then have "l' ! j = (if l ! j = Some a then l ! (cnt - 1) else l ! j)"
      using assms(6) by (simp add: less_diff_conv)
    also have "l ! j = Some a \<longleftrightarrow> j = k" using uniq [of j] j assms(4) by auto
    finally show "take (cnt - 1) l' ! j = (take (cnt - 1) l)[k := l ! (cnt - 1)] ! j"
      using j by (simp add: nth_list_update)
  qed (use assms(5) in simp)
  have split: "take cnt l = take (cnt - 1) l @ [l ! (cnt - 1)]"
    using assms(2,3) take_Suc_conv_app_nth [of "cnt - 1" l] by simp
  show "distinct (take (cnt - 1) l')"
    using assms(1) unfolding l' split by (intro distinct_list_update) auto
  show "set (take (cnt - 1) l') = set (take cnt l) - {Some a}"
  proof (cases "k < cnt - 1")
    case True
    have "take (cnt - 1) l ! k = Some a" using True assms(4) by simp
    moreover have "Some a \<in> set (take (cnt - 1) l)"
      using True assms(2,4) by (auto simp: in_set_conv_nth intro!: exI [of _ k])
    ultimately show ?thesis
      using True assms(1,2) unfolding l' split by (subst set_update_distinct) auto
  next
    case False
    then have "k = cnt - 1" using assms(3) by simp
    with assms(1,2,4) show ?thesis unfolding l' split by (auto simp: list_update_beyond)
  qed
qed

lemma DestroyFilter_listed:
  assumes inv: "reg_inv r" and a: "Some a \<in> set (listed r)"
  shows "\<exists>r'. DestroyFilter a r = Inr (DVFILTER_STATUS_OK, r') \<and> reg_inv r' \<and>
    set (listed r') = set (listed r) - {Some a} \<and> heap r' = (heap r)(a := None)"
proof -
  let ?cnt = "filterListCount r" and ?l = "filterList r"
  obtain k where k: "k < ?cnt" "?l ! k = Some a" "?cnt \<le> length ?l"
    using a inv by (auto simp: listed_def in_set_conv_nth reg_inv_def)
  obtain f where f: "heap r a = Some f" "magic f = FILTER_MAGIC"
    using inv a by (auto simp: reg_inv_def live_def)
  have d: "distinct (take ?cnt ?l)" using inv by (simp add: reg_inv_def listed_def)
  have "\<exists>l'. (if ?cnt > 1 then DestroyFilter_loop a ?cnt 0 ?cnt ?l else Inr ?l) = Inr l' \<and> length l' = length ?l \<and>
    (\<forall>j < length ?l. l' ! j = (if j < ?cnt \<and> ?l ! j = Some a then ?l ! (?cnt - 1) else ?l ! j))"
  proof (cases "?cnt > 1")
    case True
    with DestroyFilter_loop_eq [of 0 ?cnt ?cnt ?l a] k show ?thesis by simp
  next
    case False
    with k have "?cnt = 1" by simp
    then show ?thesis by (intro exI [of _ ?l]) (simp add: less_Suc_eq)
  qed
  then obtain l' where l': "(if ?cnt > 1 then DestroyFilter_loop a ?cnt 0 ?cnt ?l else Inr ?l) = Inr l'"
    "length l' = length ?l"
    "\<forall>j < length ?l. l' ! j = (if j < ?cnt \<and> ?l ! j = Some a then ?l ! (?cnt - 1) else ?l ! j)" by blast
  define r' where "r' = r\<lparr>filterList := l', filterListCount := ?cnt - 1, heap := (heap r)(a := None)\<rparr>"
  have "DestroyFilter a r = Inr (DVFILTER_STATUS_OK, r')"
    using with_magic_live [OF f] k(1) l'(1) by (simp add: DestroyFilter_def r'_def)
  moreover have lst: "distinct (listed r')" "set (listed r') = set (listed r) - {Some a}"
    using destroyed_list [OF d k(3,1,2) l'(2,3)] by (simp_all add: listed_def r'_def)
  moreover have "\<forall>p \<in> set (listed r'). live r' p"
  proof
    fix p
    assume "p \<in> set (listed r')"
    then have "live r p" "p \<noteq> Some a" using inv lst(2) by (auto simp: reg_inv_def)
    then show "live r' p" by (auto simp: live_def r'_def)
  qed
  then have "reg_inv r'" using inv lst(1) l'(2) by (auto simp: reg_inv_def r'_def)
  ultimately show ?thesis by (auto simp: r'_def)
qed

section \<open>Saved state\<close>

text \<open>What a component with persistent state promises a migration: what was saved can be restored.\<close>

locale persistent_state =
  fixes save :: "'st \<Rightarrow> bytes" and restore :: "bytes \<Rightarrow> 'st cres" and len :: nat
  assumes length_save: "length (save s) = len"
    and restore_save: "restore (save s) = Inr s"
begin

lemma restore_prefix_put:
  "len \<le> length buf \<Longrightarrow> restore (take len (put buf 0 (save s))) = Inr s"
  by (simp add: put_def length_save restore_save)

lemma save_inj: "save s = save t \<Longrightarrow> s = t"
  using restore_save by (metis sum.inject(2))

end

interpretation saved: persistent_state enc_state dec_state sizeof_filterState
  by unfold_locales
    (simp_all add: enc_state_def dec_state_def sizeof_filterState_def le_defs rd_defs)

section \<open>Properties\<close>

definition reg_sample :: registry where
  "reg_sample = (registry_init 3)\<lparr>heap := [1 \<mapsto> filter_zero\<lparr>magic := FILTER_MAGIC, vNicIndex := 7\<rparr>,
       2 \<mapsto> filter_zero\<lparr>magic := FILTER_MAGIC, vNicIndex := 8\<rparr>],
     fresh_addr := 3, filterList := [Some 1, Some 2, None], filterListCount := 2\<rparr>"

definition filter_lib_sample :: filter_lib where
  "filter_lib_sample = \<lparr>DVFilter_GetName = (\<lambda>_ b. b[0 := 65]),
     DVFilter_GetEndPointType = (\<lambda>_ e. (DVFILTER_STATUS_OK, e)),
     DVFilter_GetVcUuid = (\<lambda>_ b. (DVFILTER_STATUS_OK, b[0 := 50])),
     DVFilter_GetVnicIndex = (\<lambda>_ _. (DVFILTER_STATUS_OK, 9))\<rparr>"

lemma filter_lib_sample_accepts: "accepts filter_lib_sample h (registry_init n)"
proof -
  have "\<not> strncmp_eq ((replicate (Suc k) 0)[0 := 65]) (replicate (Suc k) 0) (Suc k)" for k by simp
  from this [of 99] show ?thesis
    by (simp add: accepts_def filter_lib_sample_def registry_init_def filter_zero_def FILTERNAME_MAXLEN_def)
qed

lemma reg_sample_inv: "reg_inv reg_sample"
  by (auto simp: reg_inv_def reg_sample_def registry_init_def listed_def live_def)

lemma reg_sample_listed: "listed reg_sample = [Some 1, Some 2]"
  by (simp add: listed_def reg_sample_def)

text \<open>Looking a filter up by the VM's identifier and virtual NIC never faults in a consistent registry
  and is exact: a result is a registered filter with that identity, and NULL means that no
  registered filter has it.\<close>

lemma lookup_exact:
  assumes "reg_inv r"
  shows "\<exists>p. LookupFilter r uuid nic = Inr p \<and>
    (p \<noteq> None \<longrightarrow> p \<in> set (listed r) \<and> identifies r uuid nic p) \<and>
    (p = None \<longrightarrow> (\<forall>q \<in> set (listed r). \<not> identifies r uuid nic q))"
proof -
  have "\<forall>q \<in> set (listed r). q \<noteq> None" using assms by (auto simp: reg_inv_def live_def)
  then show ?thesis
    using LookupFilter_find [OF assms, of uuid nic]
    by (cases "find (identifies r uuid nic) (listed r)")
      (auto simp: find_None_iff dest: find_SomeD)
qed

lemma lookup_exact_witness:
  "\<exists>p. LookupFilter reg_sample (replicate 128 0) 8 = Inr p \<and> p \<noteq> None"
proof -
  have "identifies reg_sample (replicate 128 0) 8 (Some 2)"
    by (simp add: identifies_def deref_def reg_sample_def filter_zero_def DVFILTER_MAX_VC_UUID_LEN_def)
  with lookup_exact [OF reg_sample_inv, of "replicate 128 0" 8] show ?thesis
    by (auto simp: reg_sample_listed)
qed

text \<open>Creating a filter keeps the registry consistent and, while the list has room, registers exactly
  the new object, which a lookup by its identity then finds unless an older filter has the same
  one; when the list is full the filter is created but not registered.\<close>

lemma create_registers:
  assumes "reg_inv r" and "accepts lib handle r"
  shows "\<exists>r'. CreateFilter lib True handle r = Inr (DVFILTER_STATUS_OK, Some (fresh_addr r), r') \<and>
    reg_inv r' \<and> heap r' = (heap r)(fresh_addr r \<mapsto> new_filter lib handle) \<and>
    listed r' = listed r @
      (if filterListCount r + 1 = filterListSize r then [] else [Some (fresh_addr r)]) \<and>
    (filterListCount r + 1 \<noteq> filterListSize r \<and>
     (\<forall>q \<in> set (listed r). \<not> identifies r' (vcUUID (new_filter lib handle)) (vNicIndex (new_filter lib handle)) q)
       \<longrightarrow> LookupFilter r' (vcUUID (new_filter lib handle)) (vNicIndex (new_filter lib handle)) =
           Inr (Some (fresh_addr r)))"
proof -
  obtain r' where c: "CreateFilter lib True handle r = Inr (DVFILTER_STATUS_OK, Some (fresh_addr r), r')"
    and h: "heap r' = (heap r)(fresh_addr r \<mapsto> new_filter lib handle)"
    using CreateFilter_eq [OF assms] by (auto split: if_splits)
  note inv = CreateFilter_inv [OF assms c]
  have "identifies r' (vcUUID (new_filter lib handle)) (vNicIndex (new_filter lib handle)) (Some (fresh_addr r))"
    by (simp add: identifies_def deref_def h)
  then have "find (identifies r' (vcUUID (new_filter lib handle)) (vNicIndex (new_filter lib handle))) (listed r') =
      Some (Some (fresh_addr r))"
    if "filterListCount r + 1 \<noteq> filterListSize r"
      "\<forall>q \<in> set (listed r). \<not> identifies r' (vcUUID (new_filter lib handle)) (vNicIndex (new_filter lib handle)) q"
    using that inv by (auto simp: find_append find_None_iff split: option.splits dest: find_SomeD)
  with c h inv show ?thesis using LookupFilter_find [of r'] by auto
qed

lemma create_registers_witness:
  "\<exists>r'. CreateFilter filter_lib_sample True (Some 5) (registry_init 3) =
          Inr (DVFILTER_STATUS_OK, Some 1, r') \<and> listed r' = [Some 1]"
proof -
  have "reg_inv (registry_init 3)" by (simp add: reg_inv_def registry_init_def listed_def)
  moreover have "accepts filter_lib_sample (Some 5) (registry_init 3)" by (rule filter_lib_sample_accepts)
  ultimately show ?thesis
    using create_registers [of "registry_init 3" filter_lib_sample "Some 5"]
    by (auto simp: registry_init_def listed_def)
qed

text \<open>C27 Destroying a registered filter removes exactly that filter: the others stay registered, in some
  order, the object is freed, and the registry stays consistent, so no lookup can reach the freed
  object.\<close>

theorem destroy_exact:
  assumes "reg_inv r" and "Some a \<in> set (listed r)"
  shows "\<exists>r'. DestroyFilter a r = Inr (DVFILTER_STATUS_OK, r') \<and> reg_inv r' \<and>
    set (listed r') = set (listed r) - {Some a} \<and> heap r' = (heap r)(a := None) \<and>
    (\<forall>uuid nic. LookupFilter r' uuid nic \<noteq> Inr (Some a))"
proof -
  obtain r' where r': "DestroyFilter a r = Inr (DVFILTER_STATUS_OK, r')" "reg_inv r'"
    "set (listed r') = set (listed r) - {Some a}" "heap r' = (heap r)(a := None)"
    using DestroyFilter_listed [OF assms] by blast
  have "LookupFilter r' uuid nic \<noteq> Inr (Some a)" for uuid nic
    using LookupFilter_find [OF r'(2), of uuid nic] r'(3)
    by (auto split: option.splits dest: find_SomeD)
  with r' show ?thesis by blast
qed

theorem destroy_exact_witness:
  "\<exists>r'. DestroyFilter 1 reg_sample = Inr (DVFILTER_STATUS_OK, r') \<and> set (listed r') = {Some 2}"
  using destroy_exact [OF reg_sample_inv, of 1] by (auto simp: reg_sample_listed)

text \<open>C28 Saving a filter's state into a buffer of the advertised size and restoring it, on this or
  another host, gives the filter the same state; a buffer of any other length is refused
  and leaves the filter as it was.\<close>

theorem state_roundtrip:
  assumes "heap r a = Some f" and "magic f = FILTER_MAGIC"
    and "heap r2 b = Some g" and "magic g = FILTER_MAGIC"
  shows "\<exists>n buf'. GetSavedStateLen rand a r = Inr (DVFILTER_STATUS_OK, n) \<and>
    SaveState a (replicate (unat n) 0) n r = Inr (DVFILTER_STATUS_OK, buf', of_nat sizeof_filterState) \<and>
    RestoreState b (take sizeof_filterState buf') (of_nat sizeof_filterState) r2 =
      Inr (DVFILTER_STATUS_OK, r2\<lparr>heap := (heap r2)(b \<mapsto> g\<lparr>f_state := f_state f\<rparr>)\<rparr>) \<and>
    (\<forall>bad buf. unat bad \<noteq> sizeof_filterState \<longrightarrow>
       RestoreState b buf bad r2 = Inr (DVFILTER_STATUS_ERROR, r2))"
proof -
  define k where "k = sizeof_filterState + rand mod 128"
  have "k < 17 + 128" by (simp add: k_def sizeof_filterState_def)
  then have "k < 2 ^ 32" by (rule order_less_trans) simp
  then have k: "unat (of_nat k :: u32) = k" "sizeof_filterState \<le> k"
    by (simp add: unsigned_of_nat take_bit_nat_eq_self_iff, simp add: k_def)
  have z: "unat (of_nat sizeof_filterState :: u32) = sizeof_filterState" by (simp add: sizeof_filterState_def)
  let ?buf = "put (replicate k 0) 0 (enc_state (f_state f))"
  have "wrn (replicate k 0) 0 (enc_state (f_state f)) = Inr ?buf"
    using k(2) by (simp add: wrn_def saved.length_save)
  moreover have "dec_state (take sizeof_filterState ?buf) = Inr (f_state f)"
    using k(2) by (intro saved.restore_prefix_put) simp
  ultimately show ?thesis
    using with_magic_live [OF assms(1,2)] with_magic_live [OF assms(3,4)] k z
    by (auto simp: GetSavedStateLen_def SaveState_def RestoreState_def k_def [symmetric] not_less)
qed

theorem state_roundtrip_witness:
  "\<exists>n buf'. GetSavedStateLen 5 1 reg_sample = Inr (DVFILTER_STATUS_OK, n) \<and>
     SaveState 1 (replicate (unat n) 0) n reg_sample =
       Inr (DVFILTER_STATUS_OK, buf', of_nat sizeof_filterState)"
  using state_roundtrip [of reg_sample 1 "filter_zero\<lparr>magic := FILTER_MAGIC, vNicIndex := 7\<rparr>" reg_sample 2
      "filter_zero\<lparr>magic := FILTER_MAGIC, vNicIndex := 8\<rparr>" 5]
  by (auto simp: reg_sample_def)

text \<open>Destroying a filter that never made it into the full list takes another filter out of
  service: the count goes down although nothing was removed, so the filter registered last is no longer found.\<close>

lemma destroy_unlisted_drops_last:
  assumes "reg_inv r" and "heap r a = Some f" and "Some a \<notin> set (listed r)" and "0 < filterListCount r"
  shows "\<exists>r'. DestroyFilter a r = Inr (DVFILTER_STATUS_OK, r') \<and> listed r' = butlast (listed r)"
proof -
  let ?cnt = "filterListCount r" and ?l = "filterList r"
  have len: "?cnt \<le> length ?l" and mg: "magic f = FILTER_MAGIC" using assms(1,2) by (auto simp: reg_inv_def)
  have no: "\<forall>j < ?cnt. ?l ! j \<noteq> Some a"
    using assms(3) len by (auto simp: listed_def in_set_conv_nth)
  obtain l' where l': "DestroyFilter_loop a ?cnt 0 ?cnt ?l = Inr l'" "length l' = length ?l"
    "\<forall>j < length ?l. l' ! j = (if 0 \<le> j \<and> j < ?cnt \<and> ?l ! j = Some a then ?l ! (?cnt - 1) else ?l ! j)"
    using DestroyFilter_loop_eq [of 0 ?cnt ?cnt ?l a] assms(4) len by auto
  have "l' = ?l" using l'(2,3) no by (intro nth_equalityI) auto
  then show ?thesis
    using with_magic_live [OF assms(2) mg] l'(1) assms(4) len
    by (auto simp: DestroyFilter_def listed_def butlast_take)
qed

lemma destroy_unlisted_drops_last_witness:
  "\<exists>r'. DestroyFilter 3 (reg_sample\<lparr>heap := (heap reg_sample)(3 \<mapsto> filter_zero\<lparr>magic := FILTER_MAGIC\<rparr>),
           fresh_addr := 4\<rparr>) = Inr (DVFILTER_STATUS_OK, r') \<and> listed r' = [Some 1]"
proof -
  let ?r = "reg_sample\<lparr>heap := (heap reg_sample)(3 \<mapsto> filter_zero\<lparr>magic := FILTER_MAGIC\<rparr>), fresh_addr := 4\<rparr>"
  have "reg_inv ?r"
    by (auto simp: reg_inv_def reg_sample_def registry_init_def listed_def live_def)
  from destroy_unlisted_drops_last [OF this, of 3 "filter_zero\<lparr>magic := FILTER_MAGIC\<rparr>"]
  show ?thesis by (auto simp: listed_def reg_sample_def)
qed

end
