(* ===== verification/Netx_Reply.thy ===== *)
theory Netx_Reply
  imports Filter_Registry
begin

text \<open>
  The NetX side of \<open>netx_sample_service.c\<close>: the message layouts of \<open>include/netx_lib_types.h\<close>, the
  callback for replies of the NetX library and the ioctl requests.  A payload is a byte list;
  reading past its end is a fault.  Printing is modelled as far as it reads memory.
\<close>

section \<open>Messages\<close>

definition NETXCMD_GET_CONNTRACK_COUNT :: u32 where "NETXCMD_GET_CONNTRACK_COUNT = 2"
definition NETXCMD_GET_CONNTRACK_ALL_BRIEF :: u32 where "NETXCMD_GET_CONNTRACK_ALL_BRIEF = 4"
definition NETXCMD_GET_SERVICE_PROFILE_ID :: u32 where "NETXCMD_GET_SERVICE_PROFILE_ID = 5"
definition NETXCMD_SET_CONNTRACK_ACTION_BRIEF :: u32 where "NETXCMD_SET_CONNTRACK_ACTION_BRIEF = 8"
definition NETXCMD_GET_SERVICE_INFO :: u32 where "NETXCMD_GET_SERVICE_INFO = 10"

lemmas netxcmd_defs = NETXCMD_GET_CONNTRACK_COUNT_def NETXCMD_GET_CONNTRACK_ALL_BRIEF_def
  NETXCMD_GET_SERVICE_PROFILE_ID_def NETXCMD_SET_CONNTRACK_ACTION_BRIEF_def
  NETXCMD_GET_SERVICE_INFO_def

definition NETX_NOTICE_SERVICE_INFO :: u32 where "NETX_NOTICE_SERVICE_INFO = 2"

text \<open>\<open>Netx_Msg_Hdr_t\<close>: \<open>cmd\<close> at 0, \<open>count\<close> at 4, \<open>payload_len\<close> at 8.\<close>

definition sizeof_Netx_Msg_Hdr :: nat where "sizeof_Netx_Msg_Hdr = 12"

record Netx_Msg_Hdr_t =
  hdr_cmd :: u32
  hdr_count :: u32
  hdr_payload_len :: u32

definition load_hdr :: "bytes \<Rightarrow> Netx_Msg_Hdr_t cres" where
  "load_hdr m = bindR (ld32 m 0) (\<lambda>c. bindR (ld32 m 4) (\<lambda>n. bindR (ld32 m 8) (\<lambda>l.
     Inr \<lparr>hdr_cmd = c, hdr_count = n, hdr_payload_len = l\<rparr>)))"

text \<open>Sizes on a 64-bit machine: \<open>pf_rule_dpi_t\<close> ends in a pointer and is padded, the packed
  \<open>Netx_Conn_Info_Brief_t\<close> holds it and \<open>pf_rule_dpi_attr_t\<close>; \<open>action\<close> lies at 50.\<close>

definition sizeof_pf_rule_dpi :: nat where "sizeof_pf_rule_dpi = 4 + 8 * 4 + 4 + 4 + 4 + 8"
definition sizeof_pf_rule_dpi_attr :: nat where "sizeof_pf_rule_dpi_attr = 4 + 8 * 8"
definition cib_action :: nat where "cib_action = 8 + 1 + 1 + 16 + 16 + 2 + 2 + 4"
definition sizeof_cib :: nat where
  "sizeof_cib = cib_action + 4 + sizeof_pf_rule_dpi + sizeof_pf_rule_dpi_attr"

lemma sizeof_cib_val [simp]: "sizeof_cib = 178" "cib_action = 50"
  by (simp_all add: sizeof_cib_def cib_action_def sizeof_pf_rule_dpi_def sizeof_pf_rule_dpi_attr_def)

text \<open>Payload offsets in \<open>Netx_Conn_Count_Data_t\<close> and \<open>Netx_Conn_Data_t\<close>, and of the strings in
  \<open>Netx_SP_t\<close> and \<open>Netx_Service_Data_t\<close>.\<close>

definition count_payload :: nat where "count_payload = sizeof_Netx_Msg_Hdr"
definition conn_payload :: nat where "conn_payload = sizeof_Netx_Msg_Hdr + 4 + 8"
definition sizeof_Netx_Service_Info :: nat where "sizeof_Netx_Service_Info = 64 + 64"
definition sizeof_Netx_Notice_Msg :: nat where "sizeof_Netx_Notice_Msg = 4 + 4"

section \<open>Replies of the library\<close>

record netx_state =
  num_conn_g :: int
  conn_set_g :: "bytes option"
  conn_set_g_size :: int
  num_conn_set_g :: int
  pvt_data_g :: "(int \<times> int) option"

definition netx_init :: netx_state where
  "netx_init = \<lparr>num_conn_g = 0, conn_set_g = None, conn_set_g_size = 0, num_conn_set_g = 0,
                pvt_data_g = None\<rparr>"

text \<open>\<open>printf("%s")\<close> of the string at \<open>a\<close>.\<close>

definition print_str :: "bytes \<Rightarrow> nat \<Rightarrow> unit cres" where
  "print_str m a = (if 0 \<in> set (drop a m) then Inr () else Inl OutOfBounds)"

text \<open>Storing the connections of a reply.  The product with \<open>sizeof\<close> is computed in \<open>size_t\<close> and
  stored in an \<open>int\<close>; \<open>malloc\<close> and \<open>memcpy\<close> take that \<open>int\<close> as \<open>size_t\<close> again.\<close>

definition store_conns :: "bool \<Rightarrow> bytes \<Rightarrow> u32 \<Rightarrow> netx_state \<Rightarrow> netx_state cres" where
  "store_conns malloc_ok payload count st =
     (let num = sint count;
          size = sint (ucast ((scast count :: u64) * of_nat sizeof_cib) :: u32);
          bytes = unat (word_of_int size :: u64);
          st1 = st\<lparr>num_conn_set_g := num, conn_set_g_size := size\<rparr>
      in if malloc_ok
         then bindR (rdn payload conn_payload bytes) (\<lambda>cs. Inr (st1\<lparr>conn_set_g := Some cs\<rparr>))
         else Inr (st1\<lparr>conn_set_g := None\<rparr>))"

definition Netx_LibReply_Callback :: "bool \<Rightarrow> bytes \<Rightarrow> netx_state \<Rightarrow> netx_state cres" where
  "Netx_LibReply_Callback malloc_ok payload st =
     (if length payload < sizeof_Netx_Msg_Hdr then Inr st
      else bindR (load_hdr payload) (\<lambda>hdr.
        if hdr_cmd hdr = NETXCMD_GET_CONNTRACK_COUNT
        then bindR (ld32 payload count_payload) (\<lambda>n. Inr (st\<lparr>num_conn_g := sint n\<rparr>))
        else if hdr_cmd hdr = NETXCMD_GET_CONNTRACK_ALL_BRIEF
        then store_conns malloc_ok payload (hdr_count hdr) st
        else if hdr_cmd hdr = NETXCMD_SET_CONNTRACK_ACTION_BRIEF then Inr st
        else if hdr_cmd hdr = NETXCMD_GET_SERVICE_PROFILE_ID
        then bindR (print_str payload sizeof_Netx_Msg_Hdr) (\<lambda>_. Inr st)
        else if hdr_cmd hdr = NETXCMD_GET_SERVICE_INFO
        then bindR (print_str payload sizeof_Netx_Msg_Hdr) (\<lambda>_.
             bindR (print_str payload (sizeof_Netx_Msg_Hdr + 64)) (\<lambda>_. Inr st))
        else Inr st))"

section \<open>Ioctl requests\<close>

text \<open>The loop tests \<open>*s\<close>, the first byte, in every round.\<close>

fun toupper_loop :: "nat \<Rightarrow> nat \<Rightarrow> bytes \<Rightarrow> bytes" where
  "toupper_loop i 0 s = s"
| "toupper_loop i (Suc n) s =
     (if s ! 0 \<noteq> 0 then toupper_loop (i + 1) n (s[i := toupper (s ! i)]) else s)"

text \<open>The request's payload, \<open>None\<close> for a null pointer; the result is the payload of the reply.\<close>

definition ProcessFilterIoctlRequest ::
  "filter \<Rightarrow> u32 \<Rightarrow> bytes option \<Rightarrow> bytes option cres" where
  "ProcessFilterIoctlRequest f requestId payload =
     (if magic f \<noteq> FILTER_MAGIC then Inl AssertFailed
      else case payload of None \<Rightarrow> Inl AssertFailed
      | Some p \<Rightarrow>
        if length p < sizeof_Netx_Notice_Msg then Inr None
        else bindR (ld32 p 0) (\<lambda>notice. bindR (ld32 p 4) (\<lambda>payload_len.
          if notice = NETX_NOTICE_SERVICE_INFO \<and>
             (length p < sizeof_Netx_Notice_Msg + sizeof_Netx_Service_Info \<or>
              unat payload_len \<noteq> sizeof_Netx_Service_Info)
          then Inr None
          else if requestId \<noteq> DVFILTER_INVALID_IOCTL_REQUEST_ID
          then Inr (Some (toupper_loop 0 (length p) p))
          else Inr None)))"

definition ProcessSlowPathIoctlRequest :: "u32 \<Rightarrow> bytes option \<Rightarrow> u32 \<times> bytes option" where
  "ProcessSlowPathIoctlRequest requestId payload = (requestId, payload)"

end
