(* ===== verification/Netx_Cli.thy ===== *)
theory Netx_Cli
  imports Netx_Reply
begin

text \<open>
  The command channel and the event loop of \<open>netx_sample_service.c\<close>, and starting and stopping the
  service.  The NetX library answers a call with a status; calls are recorded in order.  System
  calls (\<open>recv\<close>, \<open>accept\<close>, \<open>select\<close>) are inputs, \<open>close\<close> is recorded.
\<close>

section \<open>Command channel\<close>

definition INVALID_FD :: int where "INVALID_FD = -1"

text \<open>\<open>NetxCtlMsg_t\<close>: \<open>filterName\<close> at 0, \<open>action\<close> at 128, \<open>cmd\<close> at 132.\<close>

definition NETX_CTL_STR_SIZE :: nat where "NETX_CTL_STR_SIZE = 128"
definition sizeof_NetxCtlMsg :: nat where "sizeof_NetxCtlMsg = NETX_CTL_STR_SIZE + 4 + 4"

definition NETX_CTL_GET_CONNTRACK_COUNT :: u32 where "NETX_CTL_GET_CONNTRACK_COUNT = 2"
definition NETX_CTL_GET_CONNTRACK_ALL_BRIEF :: u32 where "NETX_CTL_GET_CONNTRACK_ALL_BRIEF = 4"
definition NETX_CTL_GET_SERVICE_PROFILE_ID :: u32 where "NETX_CTL_GET_SERVICE_PROFILE_ID = 5"
definition NETX_CTL_SET_CONNTRACK_ACTION_BRIEF :: u32 where "NETX_CTL_SET_CONNTRACK_ACTION_BRIEF = 7"
definition NETX_CTL_SET_DEFAULT_ACTION_ON_VMOTION :: u32 where "NETX_CTL_SET_DEFAULT_ACTION_ON_VMOTION = 8"
definition NETX_CTL_GET_SERVICE_INFO :: u32 where "NETX_CTL_GET_SERVICE_INFO = 9"

lemmas netx_ctl_defs = NETX_CTL_GET_CONNTRACK_COUNT_def NETX_CTL_GET_CONNTRACK_ALL_BRIEF_def
  NETX_CTL_GET_SERVICE_PROFILE_ID_def NETX_CTL_SET_CONNTRACK_ACTION_BRIEF_def
  NETX_CTL_SET_DEFAULT_ACTION_ON_VMOTION_def NETX_CTL_GET_SERVICE_INFO_def

record filterCliChannel =
  cliChannelFd :: int
  ch_msg :: bytes
  msgLength :: nat

definition InitCliChannel :: filterCliChannel where
  "InitCliChannel = \<lparr>cliChannelFd = INVALID_FD, ch_msg = replicate sizeof_NetxCtlMsg 0, msgLength = 0\<rparr>"

datatype netx_call =
    Netx_SetDefaultConnAction ptr u32
  | Netx_GetServiceProfileId ptr "int \<times> int"
  | Netx_GetConnCount ptr "int \<times> int"
  | Netx_GetConnInfoBrief ptr int "int \<times> int"
  | Netx_GetServiceInfo ptr "int \<times> int"
  | Netx_SetConnInfoBrief ptr bytes int int "int \<times> int"

record cli_state =
  cli_netx :: netx_state
  cli_calls :: "netx_call list"
  cli_closed :: "int list"

text \<open>Writing \<open>id\<close> and \<open>val\<close> through \<open>pvt_data_g\<close>, then the call; its status only leads to a message.\<close>

definition with_pvt :: "int \<Rightarrow> (int \<times> int \<Rightarrow> netx_call) \<Rightarrow> cli_state \<Rightarrow> cli_state cres" where
  "with_pvt k call st = (case pvt_data_g (cli_netx st) of
       None \<Rightarrow> Inl NullDeref
     | Some _ \<Rightarrow> Inr (st\<lparr>cli_netx := (cli_netx st)\<lparr>pvt_data_g := Some (k, k)\<rparr>,
                          cli_calls := cli_calls st @ [call (k, k)]\<rparr>))"

fun set_actions :: "u32 \<Rightarrow> nat \<Rightarrow> nat \<Rightarrow> bytes \<Rightarrow> bytes cres" where
  "set_actions act i 0 cs = Inr cs"
| "set_actions act i (Suc n) cs =
     bindR (wrn cs (i * sizeof_cib + cib_action) (le32 act)) (set_actions act (i + 1) n)"

definition set_conn_actions ::
  "(netx_call \<Rightarrow> bool) \<Rightarrow> ptr \<Rightarrow> u32 \<Rightarrow> cli_state \<Rightarrow> cli_state cres" where
  "set_conn_actions ok handle act st =
     (case conn_set_g (cli_netx st) of
        None \<Rightarrow> Inr st
      | Some cs \<Rightarrow>
        bindR (set_actions act 0 (nat (num_conn_set_g (cli_netx st))) cs) (\<lambda>cs'.
        bindR (with_pvt 10 (Netx_SetConnInfoBrief handle cs' (conn_set_g_size (cli_netx st))
                               (num_conn_set_g (cli_netx st))) st) (\<lambda>st1.
        let freed = ok (last (cli_calls st1))
        in Inr (st1\<lparr>cli_netx := (cli_netx st1)\<lparr>conn_set_g := if freed then None else Some cs'\<rparr>\<rparr>))))"

definition cli_command ::
  "(netx_call \<Rightarrow> bool) \<Rightarrow> ptr \<Rightarrow> u32 \<Rightarrow> u32 \<Rightarrow> cli_state \<Rightarrow> cli_state cres" where
  "cli_command ok handle cmd act st =
     (if cmd = NETX_CTL_SET_DEFAULT_ACTION_ON_VMOTION
      then Inr (st\<lparr>cli_calls := cli_calls st @ [Netx_SetDefaultConnAction handle act]\<rparr>)
      else if cmd = NETX_CTL_GET_SERVICE_PROFILE_ID then with_pvt 20 (Netx_GetServiceProfileId handle) st
      else if cmd = NETX_CTL_GET_CONNTRACK_COUNT then with_pvt 2 (Netx_GetConnCount handle) st
      else if cmd = NETX_CTL_GET_CONNTRACK_ALL_BRIEF
      then with_pvt 5 (Netx_GetConnInfoBrief handle (num_conn_g (cli_netx st))) st
      else if cmd = NETX_CTL_GET_SERVICE_INFO then with_pvt 120 (Netx_GetServiceInfo handle) st
      else if cmd = NETX_CTL_SET_CONNTRACK_ACTION_BRIEF then set_conn_actions ok handle act st
      else Inr st)"

fun find_by_name :: "registry \<Rightarrow> bytes \<Rightarrow> nat \<Rightarrow> nat \<Rightarrow> filter option cres" where
  "find_by_name r nm i 0 = Inr None"
| "find_by_name r nm i (Suc n) =
     bindR (list_at r i) (\<lambda>p. bindR (deref r p) (\<lambda>f.
       if strncmp_eq (filterName f) nm FILTERNAME_MAXLEN then Inr (Some f)
       else find_by_name r nm (i + 1) n))"

text \<open>\<open>CliChannelEvent\<close>; \<open>readVal\<close> and \<open>data\<close> are what \<open>recv\<close> returns.  The first component is the
  return value.\<close>

definition CliChannelEvent ::
  "(netx_call \<Rightarrow> bool) \<Rightarrow> registry \<Rightarrow> int \<Rightarrow> bytes \<Rightarrow> filterCliChannel \<Rightarrow> cli_state \<Rightarrow>
   (int \<times> filterCliChannel \<times> cli_state) cres" where
  "CliChannelEvent ok r readVal data ch st =
     (if readVal \<le> 0
      then Inr (-1, ch\<lparr>cliChannelFd := INVALID_FD\<rparr>,
                st\<lparr>cli_closed := cli_closed st @ [cliChannelFd ch]\<rparr>)
      else bindR (wrn (ch_msg ch) (msgLength ch) data) (\<lambda>msg.
        let ch1 = ch\<lparr>ch_msg := msg\<rparr>
        in bindR (rd8 msg 0) (\<lambda>b0.
        if b0 = 0 then Inr (-1, ch1, st)
        else bindR (ld32 msg NETX_CTL_STR_SIZE) (\<lambda>act.
          let nm = strncpy (take NETX_CTL_STR_SIZE msg) NETX_CTL_STR_SIZE
          in bindR (find_by_name r nm 0 (filterListCount r)) (\<lambda>res.
          case res of None \<Rightarrow> Inr (-1, ch1, st)
          | Some f \<Rightarrow>
              bindR (ld32 msg (NETX_CTL_STR_SIZE + 4)) (\<lambda>cmd.
              bindR (cli_command ok (f_handle f) cmd act st) (\<lambda>st'.
              Inr (0, ch1\<lparr>msgLength := msgLength ch + nat readVal\<rparr>, st'))))))))"

section \<open>Event loop\<close>

record select_result =
  sel_num :: int
  sel_eintr :: bool
  sel_status :: DVFilterStatus
  sel_cli :: bool
  sel_server :: bool
  sel_recv :: "int \<times> bytes"
  sel_accept :: int

text \<open>One round of \<open>selectEventLoop\<close>: \<open>None\<close> when the loop ends.\<close>

definition select_round ::
  "(netx_call \<Rightarrow> bool) \<Rightarrow> registry \<Rightarrow> bool \<Rightarrow> select_result \<Rightarrow> filterCliChannel \<Rightarrow> cli_state \<Rightarrow>
   (filterCliChannel \<times> cli_state) option cres" where
  "select_round ok r running ev ch st =
     (let fd = cliChannelFd ch in
      if \<not> running then Inr None
      else if sel_num ev > 0
      then if sel_status ev = DVFILTER_STATUS_DISCONNECT then Inr None
           else
             bindR (if fd \<noteq> INVALID_FD \<and> sel_cli ev
                    then bindR (CliChannelEvent ok r (fst (sel_recv ev)) (snd (sel_recv ev)) ch st)
                           (\<lambda>(ret, ch1, st1).
                              if ret = -1 then Inr (InitCliChannel, st1\<lparr>cli_closed := cli_closed st1 @ [fd]\<rparr>)
                              else Inr (ch1, st1))
                    else Inr (ch, st)) (\<lambda>(ch2, st2).
             if fd = INVALID_FD \<and> sel_server ev
             then Inr (Some (InitCliChannel\<lparr>cliChannelFd := if sel_accept ev < 0 then INVALID_FD
                                                           else sel_accept ev\<rparr>, st2))
             else Inr (Some (ch2, st2)))
      else Inr (Some (ch, st)))"

fun selectEventLoop ::
  "(netx_call \<Rightarrow> bool) \<Rightarrow> registry \<Rightarrow> (bool \<times> select_result) list \<Rightarrow> filterCliChannel \<Rightarrow> cli_state \<Rightarrow>
   (bool \<times> filterCliChannel \<times> cli_state) cres" where
  "selectEventLoop ok r [] ch st = Inr (False, ch, st)"
| "selectEventLoop ok r ((running, ev) # evs) ch st =
     bindR (select_round ok r running ev ch st) (\<lambda>res. case res of
       None \<Rightarrow> Inr (True, ch, st)
     | Some (ch', st') \<Rightarrow> selectEventLoop ok r evs ch' st')"

section \<open>Starting and stopping\<close>

record service_env =
  env_pvt_malloc :: bool
  env_list_malloc :: bool
  env_dvfilter_init :: DVFilterStatus
  env_netx_init :: bool
  env_socket :: int
  env_setsockopt :: int
  env_bind :: int
  env_listen :: int

datatype service_step =
    StepDVFilterInit | StepNetxInit | StepSocket | StepSetsockopt | StepBind | StepListen
  | StepEventLoop | StepCloseServer | StepDVFilterCleanup | StepFreeList | StepFreePvt

text \<open>The calls after \<open>DVFilter_Init\<close>, with the status at the label \<open>filter_cleanup\<close>.\<close>

definition service_setup :: "service_env \<Rightarrow> DVFilterStatus \<times> service_step list" where
  "service_setup env =
     (if env_dvfilter_init env \<noteq> DVFILTER_STATUS_OK then (env_dvfilter_init env, [StepDVFilterInit])
      else if \<not> env_netx_init env
      then (DVFILTER_STATUS_ERROR, [StepDVFilterInit, StepNetxInit])
      else if env_socket env < 0
      then (DVFILTER_STATUS_OK, [StepDVFilterInit, StepNetxInit, StepSocket])
      else if env_setsockopt env < 0
      then (DVFILTER_STATUS_OK, [StepDVFilterInit, StepNetxInit, StepSocket, StepSetsockopt, StepCloseServer])
      else if env_bind env < 0
      then (DVFILTER_STATUS_OK, [StepDVFilterInit, StepNetxInit, StepSocket, StepSetsockopt, StepBind])
      else if env_listen env < 0
      then (DVFILTER_STATUS_OK,
            [StepDVFilterInit, StepNetxInit, StepSocket, StepSetsockopt, StepBind, StepListen])
      else (DVFILTER_STATUS_OK,
            [StepDVFilterInit, StepNetxInit, StepSocket, StepSetsockopt, StepBind, StepListen, StepEventLoop]))"

definition start_netx_service :: "service_env \<Rightarrow> DVFilterStatus \<times> sAction \<times> service_step list" where
  "start_netx_service env =
     (if \<not> env_list_malloc env then (DVFILTER_STATUS_ERROR, ACTION_COPY, [])
      else let (status, steps) = service_setup env
           in (status, ACTION_COPY, steps @ [StepDVFilterCleanup, StepFreeList] @
                                 (if env_pvt_malloc env then [StepFreePvt] else [])))"

definition stop_netx_service :: "bool \<Rightarrow> bool" where
  "stop_netx_service running = False"

end
