(* ===== verification/Netx_Props.thy ===== *)
theory Netx_Props
  imports Netx_Cli Filter_Props
begin

text \<open>What the NetX replies, the ioctls and the command channel of the service do.\<close>

section \<open>Replies\<close>

lemma ld32_put_le32 [simp]: "a + 4 \<le> length m \<Longrightarrow> ld32 (put m a (le32 w)) a = Inr w"
  by (simp add: ld32_def nth_put le32_def)

lemma length_le32 [simp]: "length (le32 w) = 4"
  by (simp add: le32_def)

lemma ld32_le32: "a = length xs \<Longrightarrow> ld32 (xs @ le32 w @ ys) a = Inr w"
  using ld32_at [of a xs] by (simp add: le32_def)

definition enc_hdr :: "u32 \<Rightarrow> u32 \<Rightarrow> u32 \<Rightarrow> bytes" where
  "enc_hdr cmd count len = le32 cmd @ le32 count @ le32 len"

lemma load_hdr_enc:
  "load_hdr (enc_hdr c n l @ r) = Inr \<lparr>hdr_cmd = c, hdr_count = n, hdr_payload_len = l\<rparr>"
  using ld32_le32 [of 0 "[]" c "le32 n @ le32 l @ r"] ld32_le32 [of 4 "le32 c" n "le32 l @ r"]
    ld32_le32 [of 8 "le32 c @ le32 n" l r]
  by (simp add: load_hdr_def enc_hdr_def)

lemma length_enc_hdr [simp]: "length (enc_hdr c n l) = 12"
  by (simp add: enc_hdr_def)

text \<open>A count small enough for its connections to fit an \<open>int\<close> of bytes is not changed on the way.\<close>

lemma unat_ucast_small: "unat (x :: u64) < 2 ^ 32 \<Longrightarrow> unat (ucast x :: u32) = unat x"
  by (simp add: unsigned_ucast_eq take_bit_nat_eq_self_iff)

lemma unat_of_int_u64: "k < 2 ^ 64 \<Longrightarrow> unat (word_of_int (int k) :: u64) = k"
  by (simp add: unsigned_of_nat take_bit_nat_eq_self_iff)

lemma conn_size:
  fixes count :: u32
  assumes "unat count * sizeof_cib < 2 ^ 31"
  shows "sint (ucast ((scast count :: u64) * of_nat sizeof_cib) :: u32) = int (unat count * sizeof_cib)"
    and "sint count = int (unat count)"
    and "unat (word_of_int (int (unat count * sizeof_cib)) :: u64) = unat count * sizeof_cib"
proof -
  have c: "unat count < 2 ^ 31" using assms by simp
  show "sint count = int (unat count)" using sint_nonneg_u32 [OF c] by simp
  have s: "unat (scast count :: u64) = unat count" by (rule unat_scast_u32 [OF c])
  have m: "unat ((scast count :: u64) * of_nat sizeof_cib) = unat count * sizeof_cib"
    using assms s by (subst unat_mult_lem [THEN iffD1]) simp_all
  define w :: u32 where "w = ucast ((scast count :: u64) * of_nat sizeof_cib)"
  have w: "unat w = unat count * sizeof_cib"
    unfolding w_def using assms m unat_ucast_small [of "scast count * of_nat sizeof_cib"]
    by (simp only: m) simp
  have "unat w < 2 ^ 31" unfolding w by (rule assms)
  from sint_nonneg_u32 [OF this] have "sint w = int (unat w)" by simp
  then show "sint (ucast ((scast count :: u64) * of_nat sizeof_cib) :: u32) = int (unat count * sizeof_cib)"
    unfolding w_def [symmetric] w .
  show "unat (word_of_int (int (unat count * sizeof_cib)) :: u64) = unat count * sizeof_cib"
  proof (rule unat_of_int_u64)
    show "unat count * sizeof_cib < 2 ^ 64" using assms by (rule order_less_trans) simp
  qed
qed

lemma store_conns_eq:
  assumes "unat count * sizeof_cib < 2 ^ 31" and "length conns = unat count * sizeof_cib"
    and "length h = conn_payload"
  shows "store_conns True (h @ conns @ r) count st =
    Inr (st\<lparr>num_conn_set_g := int (unat count), conn_set_g_size := int (length conns),
            conn_set_g := Some conns\<rparr>)"
proof -
  have "rdn (h @ conns @ r) conn_payload (unat count * sizeof_cib) = Inr conns"
    using assms(2,3) by (intro rdn_at) simp_all
  with conn_size [OF assms(1)] show ?thesis
    unfolding store_conns_def Let_def assms(2) by (simp only:) simp
qed

section \<open>Connection actions\<close>

definition action_of :: "bytes \<Rightarrow> nat \<Rightarrow> u32 cres" where
  "action_of cs i = ld32 cs (i * sizeof_cib + cib_action)"

lemma ld32_put_other:
  "a + length bs \<le> length m \<Longrightarrow> b + 4 \<le> a \<or> a + length bs \<le> b \<Longrightarrow> ld32 (put m a bs) b = ld32 m b"
  by (auto simp: ld32_def nth_put)

text \<open>Rounds \<open>i\<close> to \<open>i + n - 1\<close> set the action of those connections and touch nothing else.\<close>

lemma set_actions_ok:
  assumes "(i + n) * sizeof_cib \<le> length cs"
  shows "\<exists>cs'. set_actions act i n cs = Inr cs' \<and> length cs' = length cs \<and>
    (\<forall>j. i \<le> j \<and> j < i + n \<longrightarrow> action_of cs' j = Inr act) \<and>
    (\<forall>k < length cs. \<not> (\<exists>j. i \<le> j \<and> j < i + n \<and> j * 178 + 50 \<le> k \<and> k < j * 178 + 54) \<longrightarrow> cs' ! k = cs ! k)"
  using assms
proof (induction n arbitrary: i cs)
  case (Suc n)
  have room: "i * 178 + 54 \<le> length cs" "(i + 1 + n) * 178 \<le> length cs" using Suc.prems by auto
  define c1 where "c1 = put cs (i * 178 + 50) (le32 act)"
  have w: "wrn cs (i * sizeof_cib + cib_action) (le32 act) = Inr c1"
    using room by (simp add: wrn_def c1_def)
  have len: "length c1 = length cs" using room by (simp add: c1_def)
  obtain cs' where r: "set_actions act (i + 1) n c1 = Inr cs'" "length cs' = length cs"
    "\<forall>j. i + 1 \<le> j \<and> j < i + 1 + n \<longrightarrow> action_of cs' j = Inr act"
    "\<forall>k < length cs. \<not> (\<exists>j. i + 1 \<le> j \<and> j < i + 1 + n \<and> j * 178 + 50 \<le> k \<and> k < j * 178 + 54) \<longrightarrow> cs' ! k = c1 ! k"
    using Suc.IH [of "i + 1" c1] room len by auto
  have keep: "cs' ! k = c1 ! k" if "k < i * 178 + 54" for k
  proof -
    have "\<not> (\<exists>j. i + 1 \<le> j \<and> j < i + 1 + n \<and> j * 178 + 50 \<le> k \<and> k < j * 178 + 54)"
      using that by (auto simp: not_less dest!: mult_le_mono1 [of "i + 1" _ 178])
    then show ?thesis using r(4) that room by simp
  qed
  have "action_of cs' i = ld32 c1 (i * 178 + 50)"
    using r(2) len room by (simp add: action_of_def ld32_def keep)
  then have own: "action_of cs' i = Inr act" using room by (simp add: c1_def)
  have acts: "\<forall>j. i \<le> j \<and> j < i + Suc n \<longrightarrow> action_of cs' j = Inr act"
  proof (intro allI impI)
    fix j
    assume "i \<le> j \<and> j < i + Suc n"
    then show "action_of cs' j = Inr act" using own r(3) by (cases "j = i") auto
  qed
  have frame: "cs' ! k = cs ! k"
    if k: "k < length cs" "\<not> (\<exists>j. i \<le> j \<and> j < i + Suc n \<and> j * 178 + 50 \<le> k \<and> k < j * 178 + 54)" for k
  proof -
    have out: "\<not> (i * 178 + 50 \<le> k \<and> k < i * 178 + 54)" using k(2) by auto
    have "cs' ! k = c1 ! k" using r(4) k by auto
    also have "\<dots> = cs ! k" using out k(1) room by (auto simp: c1_def nth_put)
    finally show ?thesis .
  qed
  show ?case using w r(1,2) acts frame by auto
qed auto

section \<open>Ioctls\<close>

lemma toupper_nonzero [simp]: "toupper c = 0 \<longleftrightarrow> c = 0"
proof
  assume z: "toupper c = 0"
  show "c = 0"
  proof (cases "97 \<le> c \<and> c \<le> 122")
    case True
    then have "c = 32" using z by (simp add: toupper_def)
    with True show ?thesis by simp
  next
    case False
    then have "toupper c = c" unfolding toupper_def by (rule if_not_P)
    with z show ?thesis by simp
  qed
qed (simp add: toupper_def)

lemma toupper_loop_eq:
  assumes "i + n = length s" and "s \<noteq> []"
  shows "toupper_loop i n s = (if s ! 0 \<noteq> 0 then take i s @ map toupper (drop i s) else s)"
  using assms
proof (induction n arbitrary: i s)
  case (Suc n)
  let ?t = "s[i := toupper (s ! i)]"
  have i: "i < length s" using Suc.prems by simp
  have z: "?t ! 0 \<noteq> 0 \<longleftrightarrow> s ! 0 \<noteq> 0" using i by (cases i) auto
  have "take (i + 1) ?t @ map toupper (drop (i + 1) ?t) = take i s @ map toupper (drop i s)"
    using i by (simp add: take_Suc_conv_app_nth Cons_nth_drop_Suc [symmetric])
  with Suc z show ?case by auto
qed simp

section \<open>Command channel\<close>

definition named :: "registry \<Rightarrow> bytes \<Rightarrow> ptr \<Rightarrow> bool" where
  "named r nm p \<longleftrightarrow> (\<exists>f. deref r p = Inr f \<and> strncmp_eq (filterName f) nm FILTERNAME_MAXLEN)"

lemma find_by_name_find:
  assumes "reg_inv r" and "i + n = filterListCount r"
  shows "find_by_name r nm i n = (case find (named r nm) (drop i (listed r)) of None \<Rightarrow> Inr None
     | Some p \<Rightarrow> bindR (deref r p) (\<lambda>f. Inr (Some f)))"
  using assms(2)
proof (induction n arbitrary: i)
  case 0
  with assms(1) show ?case by (simp add: listed_def)
next
  case (Suc n)
  then have i: "i < filterListCount r" by simp
  have "length (listed r) = filterListCount r" using assms(1) by (simp add: reg_inv_def listed_def)
  then have d: "drop i (listed r) = listed r ! i # drop (i + 1) (listed r)"
    using i by (simp add: Cons_nth_drop_Suc)
  note at = list_at_live [OF assms(1) i]
  with live_deref obtain f where "deref r (listed r ! i) = Inr f" by blast
  with at d Suc.IH [of "i + 1"] Suc.prems show ?case by (auto simp: named_def)
qed

lemma named_strncpy:
  assumes "FILTERNAME_MAXLEN \<le> k"
  shows "named r (strncpy nm k) p \<longleftrightarrow> named r nm p"
  using strncmp_eq_strncpy [OF assms] strncmp_eq_trans strncmp_eq_sym unfolding named_def by meson

definition ctl_message :: "bytes \<Rightarrow> u32 \<Rightarrow> u32 \<Rightarrow> bytes" where
  "ctl_message nm act cmd = nm @ le32 act @ le32 cmd"

definition idle_channel :: "filterCliChannel \<Rightarrow> bool" where
  "idle_channel ch \<longleftrightarrow> msgLength ch = 0 \<and> length (ch_msg ch) = sizeof_NetxCtlMsg"

lemma CliChannelEvent_message:
  assumes inv: "reg_inv r" and ch: "idle_channel ch" and nm: "length nm = 128" "nm ! 0 \<noteq> 0"
  shows "CliChannelEvent ok r 136 (ctl_message nm act cmd) ch st =
    (case find (named r nm) (listed r) of
       None \<Rightarrow> Inr (-1, ch\<lparr>ch_msg := ctl_message nm act cmd\<rparr>, st)
     | Some p \<Rightarrow> bindR (deref r p) (\<lambda>f. bindR (cli_command ok (f_handle f) cmd act st) (\<lambda>st'.
         Inr (0, ch\<lparr>ch_msg := ctl_message nm act cmd, msgLength := 136\<rparr>, st'))))"
proof -
  let ?m = "ctl_message nm act cmd"
  have len: "length ?m = 136" using nm(1) by (simp add: ctl_message_def)
  have w: "wrn (ch_msg ch) (msgLength ch) ?m = Inr ?m"
    using ch len by (simp add: idle_channel_def wrn_def put_def sizeof_NetxCtlMsg_def NETX_CTL_STR_SIZE_def)
  have b0: "rd8 ?m 0 = Inr (nm ! 0)" using nm(1) by (simp add: rd8_def ctl_message_def nth_append)
  have act: "ld32 ?m NETX_CTL_STR_SIZE = Inr act"
    using ld32_le32 [of 128 nm act "le32 cmd"] nm(1) by (simp add: ctl_message_def NETX_CTL_STR_SIZE_def)
  have cmd: "ld32 ?m (NETX_CTL_STR_SIZE + 4) = Inr cmd"
    using ld32_le32 [of 132 "nm @ le32 act" cmd "[]"] nm(1)
    by (simp add: ctl_message_def NETX_CTL_STR_SIZE_def)
  have "named r (strncpy nm 128) = named r nm"
    by (rule ext) (simp add: named_strncpy FILTERNAME_MAXLEN_def)
  then have "find (named r (strncpy (take 128 ?m) 128)) (listed r) = find (named r nm) (listed r)"
    using nm(1) by (simp add: ctl_message_def)
  then have f: "find_by_name r (strncpy (take NETX_CTL_STR_SIZE ?m) NETX_CTL_STR_SIZE) 0 (filterListCount r) =
      (case find (named r nm) (listed r) of None \<Rightarrow> Inr None
       | Some p \<Rightarrow> bindR (deref r p) (\<lambda>f. Inr (Some f)))"
    using find_by_name_find [OF inv, of 0] by (simp add: NETX_CTL_STR_SIZE_def)
  have "msgLength ch = 0" using ch by (simp add: idle_channel_def)
  then show ?thesis
    using w b0 act cmd f nm(2)
    by (auto simp: CliChannelEvent_def Let_def bindR_assoc split: option.splits)
qed

end
