(* ===== verification/Service_Ops.thy ===== *)
theory Service_Ops
  imports Packet_Path Filter_Props Netx_Props
begin

text \<open>
  The filter service as the DVFilter library sees it: the callbacks of \<open>DVFilterSlowPathOps\<close>, which \<open>start_netx_service\<close>
  fills in, run one after the other on the registry of filters and the queue of the packet handler, while the
  consumer takes packets out of that queue.
\<close>

section \<open>The callbacks\<close>

text \<open>One constructor for each field of the structure, with the arguments of its function type.  The first argument of
  \<open>createFilter\<close> tells whether \<open>calloc\<close> succeeds, that of \<open>getSavedStateLen\<close> is what \<open>rand\<close> returns.\<close>

datatype 'p slowpath_call =
    createFilter bool ptr
  | destroyFilter addr
  | getSavedStateLen nat addr
  | saveState addr bytes u32
  | restoreState addr bytes u32
  | processPacket addr 'p DVFilterDirection
  | filterIoctlRequest addr u32 "bytes option"
  | slowPathIoctlRequest u32 "bytes option"
  | configurationChanged addr

datatype slowpath_answer =
    Status DVFilterStatus
  | Created DVFilterStatus ptr
  | StateLen DVFilterStatus u32
  | Saved DVFilterStatus bytes u32
  | Queued bool
  | IoctlReply u32 "bytes option"
  | Done

record service =
  sv_reg :: registry
  sv_queue :: "PktMdata pcq"

text \<open>The functions assigned to the fields.  A packet arrives in the library's memory \<open>m\<close>, with the library in state
  \<open>s\<close>; \<open>Queued False\<close> means that the queue is full and the producer still spins.\<close>

fun dispatch ::
  "filter_lib \<Rightarrow> ('s, 'p) dvlib \<Rightarrow> 's \<Rightarrow> bytes \<Rightarrow> addr \<Rightarrow> 'p slowpath_call \<Rightarrow> service \<Rightarrow>
   (slowpath_answer \<times> service) cres option" where
  "dispatch fl lib s m buf (createFilter ok h) sv = Some (bindR (CreateFilter fl ok h (sv_reg sv)) (\<lambda>(st, p, r).
     Inr (Created st p, sv\<lparr>sv_reg := r\<rparr>)))"
| "dispatch fl lib s m buf (destroyFilter a) sv = Some (bindR (DestroyFilter a (sv_reg sv)) (\<lambda>(st, r).
     Inr (Status st, sv\<lparr>sv_reg := r\<rparr>)))"
| "dispatch fl lib s m buf (getSavedStateLen rnd a) sv = Some (bindR (GetSavedStateLen rnd a (sv_reg sv)) (\<lambda>(st, n).
     Inr (StateLen st n, sv)))"
| "dispatch fl lib s m buf (saveState a b len) sv = Some (bindR (SaveState a b len (sv_reg sv)) (\<lambda>(st, b', n).
     Inr (Saved st b' n, sv)))"
| "dispatch fl lib s m buf (restoreState a b len) sv = Some (bindR (RestoreState a b len (sv_reg sv)) (\<lambda>(st, r).
     Inr (Status st, sv\<lparr>sv_reg := r\<rparr>)))"
| "dispatch fl lib s m buf (processPacket a pkt d) sv = (case deref (sv_reg sv) (Some a) of
       Inl e \<Rightarrow> Some (Inl e)
     | Inr f \<Rightarrow> map_option (\<lambda>res. bindR res (\<lambda>(ok, q). Inr (Queued ok, sv\<lparr>sv_queue := q\<rparr>)))
                 (packet_in lib s m a buf f pkt d (sv_queue sv)))"
| "dispatch fl lib s m buf (filterIoctlRequest a req p) sv = Some (bindR (deref (sv_reg sv) (Some a)) (\<lambda>f.
     bindR (ProcessFilterIoctlRequest f req p) (\<lambda>rep. Inr (IoctlReply req rep, sv))))"
| "dispatch fl lib s m buf (slowPathIoctlRequest req p) sv =
     Some (Inr ((\<lambda>(i, rep). IoctlReply i rep) (ProcessSlowPathIoctlRequest req p), sv))"
| "dispatch fl lib s m buf (configurationChanged a) sv = Some (bindR (ConfigurationChanged fl a (sv_reg sv)) (\<lambda>r.
     Inr (Done, sv\<lparr>sv_reg := r\<rparr>)))"

section \<open>What the library promises\<close>

text \<open>A filter argument is one that was created and not yet destroyed, buffers have the length that is passed with them,
  an ioctl of a filter carries a payload, and a packet lies in one fragment.\<close>

fun permitted :: "('s, 'p) dvlib \<Rightarrow> 's \<Rightarrow> bytes \<Rightarrow> 'p slowpath_call \<Rightarrow> registry \<Rightarrow> bool" where
  "permitted lib s m (createFilter ok h) r = True"
| "permitted lib s m (destroyFilter a) r = live r (Some a)"
| "permitted lib s m (getSavedStateLen rnd a) r = live r (Some a)"
| "permitted lib s m (saveState a b len) r = (live r (Some a) \<and> length b = unat len)"
| "permitted lib s m (restoreState a b len) r = (live r (Some a) \<and> length b = unat len)"
| "permitted lib s m (processPacket a pkt d) r = (live r (Some a) \<and>
     (\<exists>b n. lib_frags lib s pkt [(b, n)] \<and> 26 \<le> n \<and> n < 65536 \<and> b + n \<le> length m))"
| "permitted lib s m (filterIoctlRequest a req p) r = (live r (Some a) \<and> p \<noteq> None)"
| "permitted lib s m (slowPathIoctlRequest req p) r = True"
| "permitted lib s m (configurationChanged a) r = live r (Some a)"

definition end_points_known :: "filter_lib \<Rightarrow> bool" where
  "end_points_known fl \<longleftrightarrow> (\<forall>h e. fst (DVFilter_GetEndPointType fl h e) = DVFILTER_STATUS_OK)"

definition service_init :: "service cres" where
  "service_init = bindR (ProducerConsumerQueue True 500000) (\<lambda>q. Inr \<lparr>sv_reg = registry_init 100, sv_queue = q\<rparr>)"

inductive service_reachable :: "filter_lib \<Rightarrow> ('s, 'p) dvlib \<Rightarrow> service \<Rightarrow> bool" for fl lib where
  Start: "service_init = Inr sv \<Longrightarrow> service_reachable fl lib sv"
| Call: "service_reachable fl lib sv \<Longrightarrow> permitted lib s m c (sv_reg sv) \<Longrightarrow>
     dispatch fl lib s m buf c sv = Some (Inr (ans, sv')) \<Longrightarrow> service_reachable fl lib sv'"
| Consume: "service_reachable fl lib sv \<Longrightarrow> pcq_read (sv_queue sv) = Inr (x, q) \<Longrightarrow>
     service_reachable fl lib (sv\<lparr>sv_queue := q\<rparr>)"

section \<open>Invariant\<close>

definition service_inv :: "service \<Rightarrow> bool" where
  "service_inv sv \<longleftrightarrow> reg_inv (sv_reg sv) \<and> pcq_inv (sv_queue sv)"

lemma live_filter: "live r (Some a) \<Longrightarrow> \<exists>f. heap r a = Some f \<and> magic f = FILTER_MAGIC \<and> with_magic r a = Inr f \<and>
    deref r (Some a) = Inr f"
  by (auto simp: live_def with_magic_live deref_def)

lemma reg_inv_fresh: "reg_inv r \<Longrightarrow> reg_inv (r\<lparr>fresh_addr := fresh_addr r + 1\<rparr>)"
  by (simp add: reg_inv_def listed_def live_def)

lemma reg_inv_replace:
  assumes "reg_inv r" and "heap r a = Some f" and "magic f' = FILTER_MAGIC"
  shows "reg_inv (r\<lparr>heap := (heap r)(a \<mapsto> f')\<rparr>)"
proof -
  let ?r = "r\<lparr>heap := (heap r)(a \<mapsto> f')\<rparr>"
  have "live r p \<Longrightarrow> live ?r p" for p using live_upd [of r p f' ?r a] assms(3) by simp
  with assms show ?thesis by (auto simp: reg_inv_def listed_def)
qed

text \<open>A filter that is not in the list, because the list was full when it was created, takes another one's place
  with it; the list stays consistent.\<close>

lemma DestroyFilter_unlisted:
  assumes "reg_inv r" and "heap r a = Some f" and "Some a \<notin> set (listed r)" and "0 < filterListCount r"
  shows "\<exists>r'. DestroyFilter a r = Inr (DVFILTER_STATUS_OK, r') \<and> reg_inv r' \<and> filterListCount r' = filterListCount r - 1"
proof -
  let ?cnt = "filterListCount r" and ?l = "filterList r"
  have len: "?cnt \<le> length ?l" and mg: "magic f = FILTER_MAGIC" using assms(1,2) by (auto simp: reg_inv_def)
  have no: "\<forall>j < ?cnt. ?l ! j \<noteq> Some a"
    using assms(3) len by (auto simp: listed_def in_set_conv_nth)
  obtain l' where l': "DestroyFilter_loop a ?cnt 0 ?cnt ?l = Inr l'" "length l' = length ?l"
    "\<forall>j < length ?l. l' ! j = (if 0 \<le> j \<and> j < ?cnt \<and> ?l ! j = Some a then ?l ! (?cnt - 1) else ?l ! j)"
    using DestroyFilter_loop_eq [of 0 ?cnt ?cnt ?l a] assms(4) len by auto
  have l: "l' = ?l" using l'(2,3) no by (intro nth_equalityI) auto
  let ?r = "r\<lparr>filterListCount := ?cnt - 1, heap := (heap r)(a := None)\<rparr>"
  have "DestroyFilter a r = Inr (DVFILTER_STATUS_OK, ?r)"
    using with_magic_live [OF assms(2) mg] l'(1) assms(4) l by (simp add: DestroyFilter_def)
  moreover have sub: "listed ?r = butlast (listed r)" using len by (simp add: listed_def butlast_take)
  have "live ?r p" if "p \<in> set (listed ?r)" for p
  proof -
    from that have "p \<in> set (listed r)" unfolding sub by (rule in_set_butlastD)
    then have "live r p" "p \<noteq> Some a" using assms(1,3) by (auto simp: reg_inv_def)
    then show ?thesis by (auto simp: live_def)
  qed
  moreover have "distinct (listed ?r)" using assms(1) sub by (simp add: reg_inv_def distinct_butlast)
  ultimately show ?thesis using assms(1) by (auto simp: reg_inv_def)
qed

lemma DestroyFilter_empty:
  "live r (Some a) \<Longrightarrow> filterListCount r = 0 \<Longrightarrow> DestroyFilter a r = Inl AssertFailed"
  using live_filter [of r a] by (auto simp: DestroyFilter_def)

lemma DestroyFilter_some:
  assumes "reg_inv r" and "live r (Some a)" and "0 < filterListCount r"
  shows "\<exists>r'. DestroyFilter a r = Inr (DVFILTER_STATUS_OK, r') \<and> reg_inv r'"
  using DestroyFilter_listed [OF assms(1), of a] DestroyFilter_unlisted [OF assms(1), of a] assms(2,3)
  by (cases "Some a \<in> set (listed r)") (auto simp: live_def)

lemma CreateFilter_any:
  assumes "reg_inv r" and "end_points_known fl"
  shows "\<exists>st p r'. CreateFilter fl ok h r = Inr (st, p, r') \<and> reg_inv r'"
proof (cases "ok \<and> accepts fl h r")
  case True
  with CreateFilter_eq [of r fl h] CreateFilter_inv [of r fl h] assms(1) show ?thesis by auto
next
  case False
  with assms reg_inv_fresh [OF assms(1)] show ?thesis
    by (auto simp: CreateFilter_def accepts_def end_points_known_def Let_def)
qed

lemma UpdateFilterConfiguration_known:
  "end_points_known fl \<Longrightarrow> \<exists>f'. UpdateFilterConfiguration fl f = Inr f' \<and> magic f' = magic f"
  by (auto simp: UpdateFilterConfiguration_def end_points_known_def Let_def split: prod.splits)
    (metis fst_conv)

lemma ConfigurationChanged_live:
  assumes "reg_inv r" and "end_points_known fl" and "live r (Some a)"
  shows "\<exists>r'. ConfigurationChanged fl a r = Inr r' \<and> reg_inv r'"
proof -
  from live_filter [OF assms(3)] obtain f where f: "heap r a = Some f" "magic f = FILTER_MAGIC" "with_magic r a = Inr f"
    by blast
  with UpdateFilterConfiguration_known [OF assms(2), of f] reg_inv_replace [OF assms(1) f(1)] show ?thesis
    by (auto simp: ConfigurationChanged_def)
qed

lemma dec_state_total: "length b = sizeof_filterState \<Longrightarrow> \<exists>st. dec_state b = Inr st"
  by (auto simp: dec_state_def sizeof_filterState_def rd8_def ld16_def ld32_def)

lemma RestoreState_live:
  assumes "reg_inv r" and "live r (Some a)" and "length b = unat len"
  shows "\<exists>st r'. RestoreState a b len r = Inr (st, r') \<and> reg_inv r'"
proof -
  from live_filter [OF assms(2)] obtain f where f: "heap r a = Some f" "magic f = FILTER_MAGIC" "with_magic r a = Inr f"
    by blast
  with dec_state_total [of b] reg_inv_replace [OF assms(1) f(1)] assms show ?thesis
    by (auto simp: RestoreState_def)
qed

lemma SaveState_live:
  assumes "live r (Some a)" and "length b = unat len"
  shows "\<exists>res. SaveState a b len r = Inr res"
  using live_filter [OF assms(1)] assms(2)
  by (auto simp: SaveState_def wrn_def saved.length_save not_less)

lemma filter_ioctl_live:
  assumes "magic f = FILTER_MAGIC"
  shows "\<exists>rep. ProcessFilterIoctlRequest f req (Some p) = Inr rep"
  using assms by (auto simp: ProcessFilterIoctlRequest_def sizeof_Netx_Notice_Msg_def ld32_def rd8_def not_less)

lemma packet_in_one:
  assumes "lib_frags lib s pkt [(b, n)]" and "26 \<le> n" and "n < 65536" and "b + n \<le> length m"
    and "magic f = FILTER_MAGIC" and "pcq_inv q"
  shows "\<exists>ok q'. packet_in lib s m fptr buf f pkt d q = Some (Inr (ok, q')) \<and> pcq_inv q'"
proof -
  let ?p = "\<lparr>pk_filter = Some fptr, pk_pkt = take n (drop b m), pk_dir = direction_code d\<rparr>"
  have "packet_in lib s m fptr buf f pkt d q = Some (pcq_write q ?p)"
    using packet_in_head [OF assms(1,2) _ assms(5)] assms(3,4) unat_of_nat_u16 [OF assms(3)]
    by (simp add: frags_len_def PacketProducer_def rdn_def)
  with pcq.enq_room [OF assms(6), of ?p] pcq.enq_full [OF assms(6), of ?p] assms(6) show ?thesis
    by (cases "length (pcq_list q) < pcq_cap q") auto
qed

text \<open>A permitted call succeeds and keeps the invariant; the exception is the assertion of \<open>DestroyFilter\<close>.\<close>

lemma dispatch_ok:
  assumes "service_inv sv" and "end_points_known fl" and "permitted lib s m c (sv_reg sv)"
    and "\<And>a. c = destroyFilter a \<Longrightarrow> 0 < filterListCount (sv_reg sv)"
  shows "\<exists>ans sv'. dispatch fl lib s m buf c sv = Some (Inr (ans, sv')) \<and> service_inv sv'"
proof (cases c)
  case (createFilter ok h)
  with CreateFilter_any [OF _ assms(2), of "sv_reg sv" ok h] assms(1) show ?thesis by (auto simp: service_inv_def)
next
  case (destroyFilter a)
  with DestroyFilter_some [of "sv_reg sv" a] assms show ?thesis by (auto simp: service_inv_def)
next
  case (getSavedStateLen rnd a)
  with live_filter [of "sv_reg sv" a] assms show ?thesis by (auto simp: service_inv_def GetSavedStateLen_def)
next
  case (saveState a b len)
  with SaveState_live [of "sv_reg sv" a b len] assms show ?thesis by (auto simp: service_inv_def)
next
  case (restoreState a b len)
  with RestoreState_live [of "sv_reg sv" a b len] assms show ?thesis by (auto simp: service_inv_def)
next
  case (processPacket a pkt d)
  with assms(3) obtain b n where n: "live (sv_reg sv) (Some a)" "lib_frags lib s pkt [(b, n)]" "26 \<le> n" "n < 65536"
    "b + n \<le> length m" by auto
  from live_filter [OF n(1)] obtain f where "magic f = FILTER_MAGIC" "deref (sv_reg sv) (Some a) = Inr f" by blast
  with packet_in_one [OF n(2-5), of f "sv_queue sv" a buf d] processPacket assms(1) show ?thesis
    by (auto simp: service_inv_def)
next
  case (filterIoctlRequest a req p)
  with assms(3) live_filter [of "sv_reg sv" a] obtain f pl where
    "magic f = FILTER_MAGIC" "deref (sv_reg sv) (Some a) = Inr f" "p = Some pl" by auto
  with filter_ioctl_live [of f req pl] filterIoctlRequest assms(1) show ?thesis by auto
next
  case (slowPathIoctlRequest req p)
  with assms(1) show ?thesis by simp
next
  case (configurationChanged a)
  with ConfigurationChanged_live [OF _ assms(2), of "sv_reg sv" a] assms(1,3) show ?thesis by (auto simp: service_inv_def)
qed

lemma dispatch_destroy_empty:
  assumes "permitted lib s m (destroyFilter a) (sv_reg sv)" and "filterListCount (sv_reg sv) = 0"
  shows "dispatch fl lib s m buf (destroyFilter a) sv = Some (Inl AssertFailed)"
  using assms DestroyFilter_empty [of "sv_reg sv" a] by simp

lemma registry_init_inv: "0 < n \<Longrightarrow> reg_inv (registry_init n)"
  by (simp add: reg_inv_def registry_init_def listed_def)

lemma service_init_ok:
  obtains q where "service_init = Inr \<lparr>sv_reg = registry_init 100, sv_queue = q\<rparr>" "pcq_inv q" "pcq_list q = []"
proof -
  have "(2::u32) \<le> 500000" by (simp add: word_le_nat_alt)
  from pcq_new_ok [OF this] obtain q :: "PktMdata pcq" where
    "ProducerConsumerQueue True 500000 = Inr q" "pcq_inv q" "pcq_list q = []" by blast
  with that [of q] show ?thesis by (simp add: service_init_def)
qed

lemma read_any: "pcq_inv q \<Longrightarrow> \<exists>x q'. pcq_read q = Inr (x, q') \<and> pcq_inv q'"
  using pcq.deq_Cons [of q] pcq.deq_Nil [of q] by (cases "pcq_list q") auto

lemma service_reachable_inv:
  assumes "service_reachable fl lib sv" and "end_points_known fl"
  shows "service_inv sv"
  using assms(1)
proof induction
  case (Start sv)
  obtain q where q: "service_init = Inr \<lparr>sv_reg = registry_init 100, sv_queue = q\<rparr>" "pcq_inv q" by (rule service_init_ok)
  from trans [OF sym [OF Start] q(1)] q(2) registry_init_inv [of 100] show ?case by (simp add: service_inv_def)
next
  case (Call sv s m c buf ans sv')
  show ?case
  proof (cases "(\<exists>a. c = destroyFilter a) \<and> filterListCount (sv_reg sv) = 0")
    case True
    with Call dispatch_destroy_empty [of lib s m _ sv fl buf] show ?thesis by auto
  next
    case False
    with dispatch_ok [OF Call.IH assms(2) Call.hyps(2), of buf] Call.hyps(3) show ?thesis by auto
  qed
next
  case (Consume sv x q)
  with read_any [of "sv_queue sv"] show ?case by (auto simp: service_inv_def)
qed

section \<open>A full list\<close>

text \<open>The list is never filled to its last place: the filter that would take it is created but not listed, while
  \<open>DestroyFilter\<close> counts every filter as listed.\<close>

lemma DestroyFilter_effect:
  "DestroyFilter a r = Inr (st, r') \<Longrightarrow> filterListCount r' = filterListCount r - 1 \<and> heap r' = (heap r)(a := None)"
  by (auto simp: DestroyFilter_def bindR_eq_Inr split: if_splits)

lemma create_step:
  assumes "service_reachable fl lib sv" and "end_points_known fl" and "accepts fl h (sv_reg sv)"
  shows "\<exists>sv'. service_reachable fl lib sv' \<and> failedFilterName (sv_reg sv') = failedFilterName (sv_reg sv) \<and>
    filterListSize (sv_reg sv') = filterListSize (sv_reg sv) \<and> live (sv_reg sv') (Some (fresh_addr (sv_reg sv))) \<and>
    listed (sv_reg sv') = listed (sv_reg sv) @
      (if filterListCount (sv_reg sv) + 1 = filterListSize (sv_reg sv) then [] else [Some (fresh_addr (sv_reg sv))]) \<and>
    Some (fresh_addr (sv_reg sv)) \<notin> set (listed (sv_reg sv))"
proof -
  let ?r = "sv_reg sv"
  have inv: "reg_inv ?r" using service_reachable_inv [OF assms(1,2)] by (simp add: service_inv_def)
  note eq = CreateFilter_eq [OF inv assms(3)]
  then obtain r' where r': "CreateFilter fl True h ?r = Inr (DVFILTER_STATUS_OK, Some (fresh_addr ?r), r')" by blast
  have "service_reachable fl lib (sv\<lparr>sv_reg := r'\<rparr>)"
    using r' by (intro service_reachable.Call [OF assms(1), where c = "createFilter True h"]) auto
  moreover have "magic (new_filter fl h) = FILTER_MAGIC" by (simp add: new_filter_def)
  then have "failedFilterName r' = failedFilterName ?r \<and> filterListSize r' = filterListSize ?r \<and>
      live r' (Some (fresh_addr ?r))"
    using eq r' by (auto simp: live_def)
  moreover have "Some (fresh_addr ?r) \<notin> set (listed ?r)" using inv by (force simp: reg_inv_def live_def)
  ultimately show ?thesis using CreateFilter_inv [OF inv assms(3) r']
    by (intro exI [of _ "sv\<lparr>sv_reg := r'\<rparr>"]) simp
qed

lemma length_listed: "reg_inv r \<Longrightarrow> length (listed r) = filterListCount r"
  by (simp add: reg_inv_def listed_def)

definition names_filters :: "filter_lib \<Rightarrow> bool" where
  "names_filters fl \<longleftrightarrow> (\<forall>h. accepts fl h (registry_init 100))"

lemma fill_list:
  assumes "end_points_known fl" and "names_filters fl" and "n < 100"
  shows "\<exists>sv. service_reachable fl lib sv \<and> length (listed (sv_reg sv)) = n \<and>
    failedFilterName (sv_reg sv) = failedFilterName (registry_init 100) \<and> filterListSize (sv_reg sv) = 100"
  using assms(3)
proof (induction n)
  case 0
  obtain q where "service_init = Inr \<lparr>sv_reg = registry_init 100, sv_queue = q\<rparr>" by (rule service_init_ok)
  from service_reachable.Start [OF this, of fl lib] show ?case
    by (intro exI) (auto simp: registry_init_def listed_def)
next
  case (Suc n)
  then obtain sv where sv: "service_reachable fl lib sv" "length (listed (sv_reg sv)) = n"
    "failedFilterName (sv_reg sv) = failedFilterName (registry_init 100)" "filterListSize (sv_reg sv) = 100" by auto
  have "accepts fl None (sv_reg sv)" using assms(2) sv(3) by (auto simp: names_filters_def accepts_def)
  from create_step [OF sv(1) assms(1) this] length_listed [of "sv_reg sv"] service_reachable_inv [OF sv(1) assms(1)]
  show ?case using sv Suc.prems by (auto simp: service_inv_def)
qed

lemma empty_list:
  assumes "end_points_known fl" and "service_reachable fl lib sv" and "live (sv_reg sv) (Some a)"
    and "Some a \<notin> set (listed (sv_reg sv))"
  shows "\<exists>sv'. service_reachable fl lib sv' \<and> live (sv_reg sv') (Some a) \<and> filterListCount (sv_reg sv') = 0"
  using assms(2-4)
proof (induction "filterListCount (sv_reg sv)" arbitrary: sv)
  case 0
  then show ?case by auto
next
  case (Suc n)
  let ?r = "sv_reg sv"
  have inv: "reg_inv ?r" using service_reachable_inv [OF Suc.prems(1) assms(1)] by (simp add: service_inv_def)
  with Suc.hyps(2) length_listed have "listed ?r \<noteq> []" by fastforce
  then obtain p where "p \<in> set (listed ?r)" by (cases "listed ?r") auto
  with inv obtain b where b: "Some b \<in> set (listed ?r)" "live ?r (Some b)" by (auto simp: reg_inv_def live_def)
  from DestroyFilter_listed [OF inv b(1)] obtain r' where r': "DestroyFilter b ?r = Inr (DVFILTER_STATUS_OK, r')"
    "set (listed r') = set (listed ?r) - {Some b}" "heap r' = (heap ?r)(b := None)" by blast
  have "service_reachable fl lib (sv\<lparr>sv_reg := r'\<rparr>)"
    using r'(1) b(2) by (intro service_reachable.Call [OF Suc.prems(1), where c = "destroyFilter b"]) auto
  moreover have "a \<noteq> b" using b(1) Suc.prems(3) by auto
  with Suc.prems(2) r'(3) have "live r' (Some a)" by (auto simp: live_def)
  moreover have "filterListCount r' = n" using DestroyFilter_effect [OF r'(1)] Suc.hyps(2) by simp
  ultimately show ?case using Suc.hyps(1) [of "sv\<lparr>sv_reg := r'\<rparr>"] Suc.prems(3) r'(2) by auto
qed

section \<open>Properties\<close>


lemma filter_lib_sample_ok: "end_points_known filter_lib_sample" "names_filters filter_lib_sample"
  by (simp_all add: end_points_known_def names_filters_def filter_lib_sample_accepts)
    (simp add: filter_lib_sample_def)




end
