(* ===== verification/Netx_Claims.thy ===== *)
theory Netx_Claims
  imports Netx_Props
begin

text \<open>The properties of the NetX side of the service.\<close>

definition st_sample :: cli_state where
  "st_sample = \<lparr>cli_netx = netx_init\<lparr>conn_set_g := Some (replicate 178 0), num_conn_set_g := 1,
     conn_set_g_size := 178, pvt_data_g := Some (0, 0)\<rparr>, cli_calls = [], cli_closed = []\<rparr>"

lemma reply_conns:
  assumes "unat count * sizeof_cib < 2 ^ 31" and "length conns = unat count * sizeof_cib" and "length mid = 12"
  shows "Netx_LibReply_Callback True (enc_hdr NETXCMD_GET_CONNTRACK_ALL_BRIEF count len @ mid @ conns @ r) st =
    Inr (st\<lparr>num_conn_set_g := int (unat count), conn_set_g_size := int (length conns), conn_set_g := Some conns\<rparr>)"
  using store_conns_eq [OF assms(1,2), of "enc_hdr NETXCMD_GET_CONNTRACK_ALL_BRIEF count len @ mid" r st] assms(3)
  by (simp add: Netx_LibReply_Callback_def load_hdr_enc netxcmd_defs conn_payload_def sizeof_Netx_Msg_Hdr_def)

lemma reply_count:
  "Netx_LibReply_Callback True (enc_hdr NETXCMD_GET_CONNTRACK_COUNT n l @ le32 c @ r) st = Inr (st\<lparr>num_conn_g := sint c\<rparr>)"
  using ld32_le32 [of 12 "enc_hdr NETXCMD_GET_CONNTRACK_COUNT n l" c r]
  by (simp add: Netx_LibReply_Callback_def load_hdr_enc count_payload_def sizeof_Netx_Msg_Hdr_def)

text \<open>A reply with connections is stored as it came: the count, the total size and exactly the bytes
  of that many connection records, whatever follows them, as long as they fit an \<open>int\<close>.  A count reply
  stores the count; cut short of its count field it makes the callback read past the
  payload, because only the header's length is checked.\<close>

lemma reply_stored:
  assumes "unat count * sizeof_cib < 2 ^ 31" and "length conns = unat count * sizeof_cib"
    and "length mid = 12" and "length short < 4"
  shows "Netx_LibReply_Callback True
           (enc_hdr NETXCMD_GET_CONNTRACK_ALL_BRIEF count len @ mid @ conns @ r) st =
         Inr (st\<lparr>num_conn_set_g := int (unat count), conn_set_g_size := int (length conns),
                 conn_set_g := Some conns\<rparr>) \<and>
         Netx_LibReply_Callback True (enc_hdr NETXCMD_GET_CONNTRACK_COUNT n l @ le32 c @ r) st =
         Inr (st\<lparr>num_conn_g := sint c\<rparr>) \<and>
         Netx_LibReply_Callback True (enc_hdr NETXCMD_GET_CONNTRACK_COUNT n l @ short) st =
         Inl OutOfBounds"
proof (intro conjI)
  show "Netx_LibReply_Callback True (enc_hdr NETXCMD_GET_CONNTRACK_COUNT n l @ short) st = Inl OutOfBounds"
    using assms(4)
    by (simp add: Netx_LibReply_Callback_def load_hdr_enc count_payload_def sizeof_Netx_Msg_Hdr_def ld32_def)
qed (rule reply_conns [OF assms(1-3)] reply_count)+

lemma reply_stored_witness:
  "Netx_LibReply_Callback True
     (enc_hdr NETXCMD_GET_CONNTRACK_ALL_BRIEF 1 178 @ replicate 12 0 @ replicate 178 7 @ []) netx_init =
   Inr (netx_init\<lparr>num_conn_set_g := 1, conn_set_g_size := 178, conn_set_g := Some (replicate 178 7)\<rparr>)"
  using reply_stored [of 1 "replicate 178 7" "replicate 12 0" "[]" 178 "[]" netx_init] by simp

text \<open>Setting the action of the connections fetched before makes exactly one call of the library, for
  the filter's handle, with every fetched record in its place and unchanged except for the action, which is the
  requested one in all of them; the records are released when the call succeeds.\<close>

lemma actions_set:
  assumes "conn_set_g (cli_netx st) = Some conns" and "num_conn_set_g (cli_netx st) = int n"
    and "length conns = n * sizeof_cib" and "pvt_data_g (cli_netx st) = Some v"
  shows "\<exists>conns' st'. cli_command ok handle NETX_CTL_SET_CONNTRACK_ACTION_BRIEF act st = Inr st' \<and>
    cli_calls st' = cli_calls st @
      [Netx_SetConnInfoBrief handle conns' (conn_set_g_size (cli_netx st)) (int n) (10, 10)] \<and>
    length conns' = length conns \<and> (\<forall>i < n. action_of conns' i = Inr act) \<and>
    (\<forall>k < length conns. \<not> (\<exists>i < n. i * 178 + 50 \<le> k \<and> k < i * 178 + 54) \<longrightarrow> conns' ! k = conns ! k) \<and>
    (ok (last (cli_calls st')) \<longleftrightarrow> conn_set_g (cli_netx st') = None)"
proof -
  obtain c where c: "set_actions act 0 n conns = Inr c" "length c = length conns"
    "\<forall>i < n. action_of c i = Inr act"
    "\<forall>k < length conns. \<not> (\<exists>i < n. i * 178 + 50 \<le> k \<and> k < i * 178 + 54) \<longrightarrow> c ! k = conns ! k"
    using set_actions_ok [of 0 n conns act] assms(3) by auto
  let ?st = "st\<lparr>cli_netx := (cli_netx st)\<lparr>pvt_data_g := Some (10, 10),
       conn_set_g := if ok (Netx_SetConnInfoBrief handle c (conn_set_g_size (cli_netx st)) (int n) (10, 10))
                     then None else Some c\<rparr>,
     cli_calls := cli_calls st @
       [Netx_SetConnInfoBrief handle c (conn_set_g_size (cli_netx st)) (int n) (10, 10)]\<rparr>"
  have "cli_command ok handle NETX_CTL_SET_CONNTRACK_ACTION_BRIEF act st = Inr ?st"
    using assms c(1) by (simp add: cli_command_def netx_ctl_defs set_conn_actions_def with_pvt_def Let_def)
  with c(2-4) show ?thesis by (intro exI [of _ c] exI [of _ ?st]) simp
qed

lemma actions_set_witness:
  "\<exists>conns' st'. cli_command (\<lambda>_. True) (Some 9) NETX_CTL_SET_CONNTRACK_ACTION_BRIEF 2 st_sample = Inr st' \<and>
     cli_calls st' = [Netx_SetConnInfoBrief (Some 9) conns' 178 1 (10, 10)] \<and> action_of conns' 0 = Inr 2"
  using actions_set [of st_sample "replicate 178 0" 1 "(0, 0)" "\<lambda>_. True" "Some 9" 2]
  by (auto simp: st_sample_def netx_init_def)

definition name_a :: bytes where
  "name_a = 65 # replicate 127 0"

text \<open>A channel carries only one command: after a command that was carried out the next one on the
  same connection is written behind the message buffer.\<close>

lemma second_command_overflows:
  assumes "reg_inv r" and "idle_channel ch" and "length nm = 128" and "nm ! 0 \<noteq> 0"
    and "CliChannelEvent ok r 136 (ctl_message nm act cmd) ch st = Inr (0, ch', st')"
    and "readVal > 0" and "data \<noteq> []"
  shows "CliChannelEvent ok' r' readVal data ch' st'' = Inl OutOfBounds"
proof -
  have "msgLength ch' = 136" "length (ch_msg ch') = 136"
    using assms(5) assms(3) unfolding CliChannelEvent_message [OF assms(1-4)]
    by (auto simp: bindR_eq_Inr ctl_message_def split: option.splits)
  then show ?thesis using assms(6,7) by (simp add: CliChannelEvent_def wrn_def)
qed

definition reg_named :: registry where
  "reg_named = (registry_init 3)\<lparr>heap := [1 \<mapsto> filter_zero\<lparr>magic := FILTER_MAGIC, filterName := take 100 name_a\<rparr>],
     fresh_addr := 2, filterList := [Some 1, None, None], filterListCount := 1\<rparr>"

lemma name_a_facts: "length name_a = 128" "name_a ! 0 \<noteq> 0" by (simp_all add: name_a_def)

lemma reg_named_facts: "reg_inv reg_named" "named reg_named name_a (Some 1)" "listed reg_named = [Some 1]"
proof -
  have "strncmp_eq (take 100 name_a) name_a 100"
    by (simp add: name_a_def take_Cons' numeral_eq_Suc)
  then show "named reg_named name_a (Some 1)" "listed reg_named = [Some 1]"
    by (simp_all add: named_def deref_def reg_named_def FILTERNAME_MAXLEN_def listed_def)
  show "reg_inv reg_named"
    by (auto simp: reg_inv_def reg_named_def registry_init_def listed_def live_def)
qed

lemma second_command_overflows_witness:
  "\<exists>ch' st'. CliChannelEvent (\<lambda>_. True) reg_named 136 (ctl_message name_a 2 8) InitCliChannel st_sample =
       Inr (0, ch', st') \<and>
     CliChannelEvent (\<lambda>_. True) reg_named 136 (ctl_message name_a 2 8) ch' st' = Inl OutOfBounds"
proof -
  note inv = reg_named_facts(1)
  have ch: "idle_channel InitCliChannel"
    by (simp add: idle_channel_def InitCliChannel_def sizeof_NetxCtlMsg_def)
  note nm = name_a_facts
  have one: "CliChannelEvent (\<lambda>_. True) reg_named 136 (ctl_message name_a 2 8) InitCliChannel st_sample =
      Inr (0, InitCliChannel\<lparr>ch_msg := ctl_message name_a 2 8, msgLength := 136\<rparr>,
           st_sample\<lparr>cli_calls := [Netx_SetDefaultConnAction None 2]\<rparr>)"
    using CliChannelEvent_message [OF inv ch nm] reg_named_facts(2,3)
    by (simp add: deref_def reg_named_def cli_command_def netx_ctl_defs filter_zero_def st_sample_def)
  have "ctl_message name_a 2 8 \<noteq> []" by (simp add: ctl_message_def name_a_def)
  with second_command_overflows [OF inv ch nm one, of 136 "ctl_message name_a 2 8" "\<lambda>_. True" reg_named] one
  show ?thesis by fastforce
qed

text \<open>When the client disconnects or an error occurs on its channel, its descriptor is closed twice:
  once by the handler and once more by the event loop.\<close>

lemma client_closed_twice:
  assumes "cliChannelFd ch \<noteq> INVALID_FD" and "sel_num ev > 0" and "sel_status ev \<noteq> DVFILTER_STATUS_DISCONNECT"
    and "sel_cli ev" and "fst (sel_recv ev) \<le> 0"
  shows "select_round ok r True ev ch st = Inr (Some (InitCliChannel,
           st\<lparr>cli_closed := cli_closed st @ [cliChannelFd ch, cliChannelFd ch]\<rparr>))"
  using assms by (simp add: select_round_def CliChannelEvent_def Let_def)

lemma client_closed_twice_witness:
  "select_round (\<lambda>_. True) (registry_init 3) True
     \<lparr>sel_num = 1, sel_eintr = False, sel_status = DVFILTER_STATUS_OK, sel_cli = True, sel_server = False,
      sel_recv = (0, []), sel_accept = 0\<rparr> (InitCliChannel\<lparr>cliChannelFd := 5\<rparr>) st_sample =
   Inr (Some (InitCliChannel, st_sample\<lparr>cli_closed := [5, 5]\<rparr>))"
  using client_closed_twice [of "InitCliChannel\<lparr>cliChannelFd := 5\<rparr>" "\<lparr>sel_num = 1, sel_eintr = False,
      sel_status = DVFILTER_STATUS_OK, sel_cli = True, sel_server = False, sel_recv = (0, []), sel_accept = 0\<rparr>"
      "\<lambda>_. True" "registry_init 3" st_sample]
  by (simp add: INVALID_FD_def st_sample_def)

text \<open>A filter ioctl is answered only when an answer is expected and its notice is well formed; the
  answer has the request's length and is the request in upper case, or the request itself when it
  starts with a NUL byte.\<close>

lemma ioctl_answer:
  assumes "magic f = FILTER_MAGIC" and "8 \<le> length p" and "ld32 p 0 = Inr notice" and "ld32 p 4 = Inr plen"
  shows "ProcessFilterIoctlRequest f req (Some p) =
    Inr (if req = 0 \<or> (notice = NETX_NOTICE_SERVICE_INFO \<and> (length p < 136 \<or> unat plen \<noteq> 128)) then None
         else Some (if p ! 0 = 0 then p else map toupper p))"
proof -
  have "p \<noteq> []" using assms(2) by auto
  with toupper_loop_eq [of 0 "length p" p] assms show ?thesis
    by (auto simp: ProcessFilterIoctlRequest_def sizeof_Netx_Notice_Msg_def sizeof_Netx_Service_Info_def
        DVFILTER_INVALID_IOCTL_REQUEST_ID_def)
qed

definition filter_ok :: filter where
  "filter_ok = filter_zero\<lparr>magic := FILTER_MAGIC\<rparr>"

lemma ioctl_answer_witness:
  "ProcessFilterIoctlRequest filter_ok 3 (Some [97, 0, 0, 0, 0, 0, 0, 98]) =
   Inr (Some [65, 0, 0, 0, 0, 0, 0, 66])"
proof -
  obtain n l where "ld32 [97, 0, 0, 0, 0, 0, 0, 98] 0 = Inr n" "ld32 [97, 0, 0, 0, 0, 0, 0, 98] 4 = Inr l"
    by (simp add: ld32_def)
  moreover from this have "n \<noteq> NETX_NOTICE_SERVICE_INFO"
  proof -
    have "n = mk32 (mk16 0 0) (mk16 0 97)" using \<open>ld32 [97, 0, 0, 0, 0, 0, 0, 98] 0 = Inr n\<close> by (simp add: ld32_def)
    then have "lo8 (lo16 n) = 97" by simp
    moreover have "lo8 (lo16 NETX_NOTICE_SERVICE_INFO) = 2"
      by (simp add: NETX_NOTICE_SERVICE_INFO_def lo16_def lo8_def)
    ultimately show ?thesis by auto
  qed
  ultimately show ?thesis
    using ioctl_answer [of filter_ok "[97, 0, 0, 0, 0, 0, 0, 98]" n l 3]
    by (simp add: filter_ok_def toupper_def)
qed

text \<open>Whatever step of starting the service fails, the library is shut down after it was initialised and the filter list is
  freed; the event loop is reached only when every step succeeded.  A failure of the command
  channel's socket is not reported: the service then returns success without having served.\<close>

lemma service_start:
  assumes "env_list_malloc env"
  shows "\<exists>status steps. start_netx_service env = (status, ACTION_COPY, steps) \<and>
    StepDVFilterCleanup \<in> set steps \<and> StepFreeList \<in> set steps \<and> distinct steps \<and>
    (StepEventLoop \<in> set steps \<longleftrightarrow> env_dvfilter_init env = DVFILTER_STATUS_OK \<and> env_netx_init env \<and>
       0 \<le> env_socket env \<and> 0 \<le> env_setsockopt env \<and> 0 \<le> env_bind env \<and> 0 \<le> env_listen env) \<and>
    (status = DVFILTER_STATUS_OK \<longleftrightarrow> env_dvfilter_init env = DVFILTER_STATUS_OK \<and> env_netx_init env)"
  using assms by (auto simp: start_netx_service_def service_setup_def)

lemma service_start_witness:
  "\<exists>steps. start_netx_service \<lparr>env_pvt_malloc = True, env_list_malloc = True,
       env_dvfilter_init = DVFILTER_STATUS_OK, env_netx_init = True, env_socket = 4, env_setsockopt = 0,
       env_bind = -1, env_listen = 0\<rparr> = (DVFILTER_STATUS_OK, ACTION_COPY, steps) \<and>
     StepEventLoop \<notin> set steps"
  using service_start [of "\<lparr>env_pvt_malloc = True, env_list_malloc = True,
       env_dvfilter_init = DVFILTER_STATUS_OK, env_netx_init = True, env_socket = 4, env_setsockopt = 0,
       env_bind = -1, env_listen = 0\<rparr>"] by auto

end
