(* ===== verification/Netx_Session.thy ===== *)
theory Netx_Session
  imports Service_Ops Netx_Claims
begin

text \<open>
  The event loop of the service with what the libraries do inside it: \<open>DVFilter_ProcessSelectEvent\<close> runs callbacks of
  the service and delivers replies of the NetX library, then the command channel is served, on the registry those
  callbacks left.
\<close>

section \<open>Events of the libraries\<close>

datatype ('s, 'p) library_event =
    Callback 's bytes "'p slowpath_call"
  | Reply bytes

fun ProcessSelectEvent ::
  "filter_lib \<Rightarrow> ('s, 'p) dvlib \<Rightarrow> addr \<Rightarrow> ('s, 'p) library_event list \<Rightarrow> service \<Rightarrow> cli_state \<Rightarrow>
   (service \<times> cli_state) cres option" where
  "ProcessSelectEvent fl lib buf [] sv st = Some (Inr (sv, st))"
| "ProcessSelectEvent fl lib buf (Callback s m c # es) sv st = (case dispatch fl lib s m buf c sv of
       None \<Rightarrow> None
     | Some (Inl e) \<Rightarrow> Some (Inl e)
     | Some (Inr (ans, sv')) \<Rightarrow> ProcessSelectEvent fl lib buf es sv' st)"
| "ProcessSelectEvent fl lib buf (Reply p # es) sv st = (case Netx_LibReply_Callback True p (cli_netx st) of
       Inl e \<Rightarrow> Some (Inl e)
     | Inr n \<Rightarrow> ProcessSelectEvent fl lib buf es sv (st\<lparr>cli_netx := n\<rparr>))"

text \<open>One round of \<open>selectEventLoop\<close>.  \<open>running_\<close> is tested before the library is called, and after an error of
  \<open>select\<close> other than \<open>EINTR\<close> the library is not called.\<close>

definition loop_round ::
  "filter_lib \<Rightarrow> ('s, 'p) dvlib \<Rightarrow> addr \<Rightarrow> (netx_call \<Rightarrow> bool) \<Rightarrow> bool \<Rightarrow> ('s, 'p) library_event list \<Rightarrow> select_result \<Rightarrow>
   service \<Rightarrow> filterCliChannel \<Rightarrow> cli_state \<Rightarrow> (service \<times> (filterCliChannel \<times> cli_state) option) cres option" where
  "loop_round fl lib buf ok running es ev sv ch st =
     (if \<not> running then Some (Inr (sv, None))
      else case ProcessSelectEvent fl lib buf (if sel_num ev < 0 \<and> \<not> sel_eintr ev then [] else es) sv st of
        None \<Rightarrow> None
      | Some (Inl e) \<Rightarrow> Some (Inl e)
      | Some (Inr (sv', st')) \<Rightarrow>
          Some (bindR (select_round ok (sv_reg sv') True ev ch st') (\<lambda>res. Inr (sv', res))))"

fun event_loop ::
  "filter_lib \<Rightarrow> ('s, 'p) dvlib \<Rightarrow> addr \<Rightarrow> (netx_call \<Rightarrow> bool) \<Rightarrow>
   (bool \<times> ('s, 'p) library_event list \<times> select_result) list \<Rightarrow> service \<Rightarrow> filterCliChannel \<Rightarrow> cli_state \<Rightarrow>
   (bool \<times> service \<times> filterCliChannel \<times> cli_state) cres option" where
  "event_loop fl lib buf ok [] sv ch st = Some (Inr (False, sv, ch, st))"
| "event_loop fl lib buf ok ((running, es, ev) # evs) sv ch st =
     (case loop_round fl lib buf ok running es ev sv ch st of
        None \<Rightarrow> None
      | Some (Inl e) \<Rightarrow> Some (Inl e)
      | Some (Inr (sv', None)) \<Rightarrow> Some (Inr (True, sv', ch, st))
      | Some (Inr (sv', Some (ch', st'))) \<Rightarrow> event_loop fl lib buf ok evs sv' ch' st')"

section \<open>A client\<close>

definition select_of :: "bool \<Rightarrow> bool \<Rightarrow> int \<times> bytes \<Rightarrow> int \<Rightarrow> select_result" where
  "select_of cli server rcv fd = \<lparr>sel_num = 1, sel_eintr = False, sel_status = DVFILTER_STATUS_OK, sel_cli = cli,
     sel_server = server, sel_recv = rcv, sel_accept = fd\<rparr>"

text \<open>A client connects, sends one command and disconnects; a round that only delivers a reply.\<close>

definition client :: "int \<Rightarrow> bytes \<Rightarrow> (bool \<times> ('s, 'p) library_event list \<times> select_result) list" where
  "client fd msg = [(True, [], select_of False True (0, []) fd), (True, [], select_of True False (136, msg) 0),
     (True, [], select_of True False (0, []) 0)]"

definition reply_round :: "bytes \<Rightarrow> bool \<times> ('s, 'p) library_event list \<times> select_result" where
  "reply_round p = (True, [Reply p], select_of False False (0, []) 0)"

lemma event_loop_client:
  assumes inv: "reg_inv (sv_reg sv)" and nm: "length nm = 128" "nm ! 0 \<noteq> 0"
    and f: "find (named (sv_reg sv) nm) (listed (sv_reg sv)) = Some p" "deref (sv_reg sv) p = Inr f"
    and c: "cli_command ok (f_handle f) cmd act st = Inr st'" and fd: "0 \<le> fd"
  shows "event_loop fl lib buf ok (client fd (ctl_message nm act cmd) @ evs) sv InitCliChannel st =
    event_loop fl lib buf ok evs sv InitCliChannel (st'\<lparr>cli_closed := cli_closed st' @ [fd, fd]\<rparr>)"
proof -
  let ?ch = "InitCliChannel\<lparr>cliChannelFd := fd\<rparr>"
  have idle: "idle_channel ?ch" by (simp add: idle_channel_def InitCliChannel_def sizeof_NetxCtlMsg_def)
  have fd': "fd \<noteq> INVALID_FD" "cliChannelFd InitCliChannel = INVALID_FD" using fd by (simp_all add: INVALID_FD_def InitCliChannel_def)
  have "loop_round fl lib buf ok True [] (select_of False True (0, []) fd) sv InitCliChannel st = Some (Inr (sv, Some (?ch, st)))"
    using fd fd' by (simp add: loop_round_def select_of_def select_round_def Let_def)
  moreover have "loop_round fl lib buf ok True [] (select_of True False (136, ctl_message nm act cmd) 0) sv ?ch st =
      Some (Inr (sv, Some (?ch\<lparr>ch_msg := ctl_message nm act cmd, msgLength := 136\<rparr>, st')))"
    using fd' CliChannelEvent_message [OF inv idle nm, of ok act cmd st] f c
    by (simp add: loop_round_def select_of_def select_round_def Let_def)
  moreover have "loop_round fl lib buf ok True [] (select_of True False (0, []) 0) sv
      (?ch\<lparr>ch_msg := ctl_message nm act cmd, msgLength := 136\<rparr>) st' =
      Some (Inr (sv, Some (InitCliChannel, st'\<lparr>cli_closed := cli_closed st' @ [fd, fd]\<rparr>)))"
    using fd' by (simp add: loop_round_def select_of_def select_round_def CliChannelEvent_def Let_def)
  ultimately show ?thesis by (simp add: client_def)
qed

lemma event_loop_reply:
  assumes "Netx_LibReply_Callback True p (cli_netx st) = Inr n"
  shows "event_loop fl lib buf ok (reply_round p # evs) sv InitCliChannel st =
    event_loop fl lib buf ok evs sv InitCliChannel (st\<lparr>cli_netx := n\<rparr>)"
  using assms by (simp add: reply_round_def loop_round_def select_of_def select_round_def InitCliChannel_def Let_def)

lemma event_loop_query:
  assumes "reg_inv (sv_reg sv)" and "length nm = 128" "nm ! 0 \<noteq> 0"
    and "find (named (sv_reg sv) nm) (listed (sv_reg sv)) = Some p" "deref (sv_reg sv) p = Inr f"
    and "cli_command ok (f_handle f) cmd act st = Inr st'" and "0 \<le> fd"
    and "Netx_LibReply_Callback True payload (cli_netx st') = Inr n"
  shows "event_loop fl lib buf ok (client fd (ctl_message nm act cmd) @ reply_round payload # evs) sv InitCliChannel st =
    event_loop fl lib buf ok evs sv InitCliChannel (st'\<lparr>cli_closed := cli_closed st' @ [fd, fd], cli_netx := n\<rparr>)"
  unfolding event_loop_client [OF assms(1-7)]
  by (rule trans [OF event_loop_reply]) (simp_all add: assms(8))

lemma cli_command_closed: "cli_command ok handle cmd act st = Inr st' \<Longrightarrow> cli_closed st' = cli_closed st"
  by (auto simp: cli_command_def set_conn_actions_def with_pvt_def bindR_eq_Inr Let_def split: option.splits if_splits)

section \<open>Properties\<close>

text \<open>C30 (functional).  A client that asks for the number of a filter's connections, then for the connections, then for an
  action, has it set in all of them: the service asks the library for as many connections as the first reply announced
  and hands back the records of the second reply with only their actions changed.  Each of the three clients is
  served, and its descriptor is closed twice.\<close>

theorem connections_acted_on:
  fixes lib :: "('s, 'p) dvlib"
  assumes inv: "reg_inv (sv_reg sv)" and nm: "length nm = 128" "nm ! 0 \<noteq> 0"
    and f: "find (named (sv_reg sv) nm) (listed (sv_reg sv)) = Some p" "deref (sv_reg sv) p = Inr f"
    and pvt: "pvt_data_g (cli_netx st) = Some v" and fd: "0 \<le> fd1" "0 \<le> fd2" "0 \<le> fd3"
    and cnt: "unat count * sizeof_cib < 2 ^ 31" "length conns = unat count * sizeof_cib" "length mid = 12"
  shows "\<exists>conns' st'. event_loop fl lib buf ok
      (client fd1 (ctl_message nm a1 NETX_CTL_GET_CONNTRACK_COUNT) @
       reply_round (enc_hdr NETXCMD_GET_CONNTRACK_COUNT n l @ le32 count @ r1) #
       client fd2 (ctl_message nm a2 NETX_CTL_GET_CONNTRACK_ALL_BRIEF) @
       reply_round (enc_hdr NETXCMD_GET_CONNTRACK_ALL_BRIEF count len @ mid @ conns @ r2) #
       client fd3 (ctl_message nm act NETX_CTL_SET_CONNTRACK_ACTION_BRIEF)) sv InitCliChannel st =
      Some (Inr (False, sv, InitCliChannel, st')) \<and>
    cli_calls st' = cli_calls st @ [Netx_GetConnCount (f_handle f) (2, 2),
      Netx_GetConnInfoBrief (f_handle f) (int (unat count)) (5, 5),
      Netx_SetConnInfoBrief (f_handle f) conns' (int (length conns)) (int (unat count)) (10, 10)] \<and>
    length conns' = length conns \<and> (\<forall>i < unat count. action_of conns' i = Inr act) \<and>
    (\<forall>k < length conns. \<not> (\<exists>i < unat count. i * 178 + 50 \<le> k \<and> k < i * 178 + 54) \<longrightarrow> conns' ! k = conns ! k) \<and>
    cli_closed st' = cli_closed st @ [fd1, fd1, fd2, fd2, fd3, fd3]"
proof -
  let ?h = "f_handle f"
  define s1 where "s1 = st\<lparr>cli_netx := (cli_netx st)\<lparr>pvt_data_g := Some (2, 2), num_conn_g := int (unat count)\<rparr>,
    cli_calls := cli_calls st @ [Netx_GetConnCount ?h (2, 2)], cli_closed := cli_closed st @ [fd1, fd1]\<rparr>"
  define s2 where "s2 = s1\<lparr>cli_netx := (cli_netx s1)\<lparr>pvt_data_g := Some (5, 5), num_conn_set_g := int (unat count),
      conn_set_g_size := int (length conns), conn_set_g := Some conns\<rparr>,
    cli_calls := cli_calls s1 @ [Netx_GetConnInfoBrief ?h (int (unat count)) (5, 5)],
    cli_closed := cli_closed s1 @ [fd2, fd2]\<rparr>"
  note run = event_loop_query [OF inv nm f, of ok]
  have c1: "cli_command ok ?h NETX_CTL_GET_CONNTRACK_COUNT a1 st = Inr (st\<lparr>cli_netx := (cli_netx st)\<lparr>pvt_data_g := Some (2, 2)\<rparr>,
      cli_calls := cli_calls st @ [Netx_GetConnCount ?h (2, 2)]\<rparr>)"
    "cli_command ok ?h NETX_CTL_GET_CONNTRACK_ALL_BRIEF a2 s1 = Inr (s1\<lparr>cli_netx := (cli_netx s1)\<lparr>pvt_data_g := Some (5, 5)\<rparr>,
      cli_calls := cli_calls s1 @ [Netx_GetConnInfoBrief ?h (int (unat count)) (5, 5)]\<rparr>)"
    by (simp_all add: cli_command_def netx_ctl_defs with_pvt_def pvt s1_def)
  have state_eq: "a = b \<Longrightarrow> event_loop fl lib buf ok evs sv InitCliChannel a = event_loop fl lib buf ok evs sv InitCliChannel b"
    for a b evs by simp
  from actions_set [of s2 conns "unat count" "(5, 5)" ok ?h act] cnt(2)
  obtain conns' s3 where s3: "cli_command ok ?h NETX_CTL_SET_CONNTRACK_ACTION_BRIEF act s2 = Inr s3"
    "cli_calls s3 = cli_calls s2 @ [Netx_SetConnInfoBrief ?h conns' (int (length conns)) (int (unat count)) (10, 10)]"
    "length conns' = length conns" "\<forall>i < unat count. action_of conns' i = Inr act"
    "\<forall>k < length conns. \<not> (\<exists>i < unat count. i * 178 + 50 \<le> k \<and> k < i * 178 + 54) \<longrightarrow> conns' ! k = conns ! k"
    by (auto simp: s2_def)
  have "cli_closed s3 = cli_closed s2" by (rule cli_command_closed [OF s3(1)])
  moreover have "event_loop fl lib buf ok (client fd1 (ctl_message nm a1 NETX_CTL_GET_CONNTRACK_COUNT) @
       reply_round (enc_hdr NETXCMD_GET_CONNTRACK_COUNT n l @ le32 count @ r1) # evs) sv InitCliChannel st =
      event_loop fl lib buf ok evs sv InitCliChannel s1" for evs
    by (rule trans [OF run [OF c1(1) fd(1) reply_count]]) (rule state_eq, simp add: s1_def conn_size(2) [OF cnt(1)])
  moreover have "event_loop fl lib buf ok (client fd2 (ctl_message nm a2 NETX_CTL_GET_CONNTRACK_ALL_BRIEF) @
       reply_round (enc_hdr NETXCMD_GET_CONNTRACK_ALL_BRIEF count len @ mid @ conns @ r2) # evs) sv InitCliChannel s1 =
      event_loop fl lib buf ok evs sv InitCliChannel s2" for evs
    by (rule trans [OF run [OF c1(2) fd(2) reply_conns [OF cnt]]]) (rule state_eq, simp add: s2_def)
  moreover have "event_loop fl lib buf ok (client fd3 (ctl_message nm act NETX_CTL_SET_CONNTRACK_ACTION_BRIEF)) sv
      InitCliChannel s2 = Some (Inr (False, sv, InitCliChannel, s3\<lparr>cli_closed := cli_closed s3 @ [fd3, fd3]\<rparr>))"
    using event_loop_client [OF inv nm f s3(1) fd(3), of fl lib buf "[]"] by simp
  ultimately show ?thesis using s3(2-5)
    by (intro exI [of _ conns'] exI [of _ "s3\<lparr>cli_closed := cli_closed s3 @ [fd3, fd3]\<rparr>"]) (simp add: s1_def s2_def)
qed

theorem connections_acted_on_witness:
  "\<exists>conns' st'. event_loop filter_lib_sample (lib_of []) 0 (\<lambda>_. True)
      (client 7 (ctl_message name_a 0 NETX_CTL_GET_CONNTRACK_COUNT) @
       reply_round (enc_hdr NETXCMD_GET_CONNTRACK_COUNT 0 4 @ le32 1 @ []) #
       client 7 (ctl_message name_a 0 NETX_CTL_GET_CONNTRACK_ALL_BRIEF) @
       reply_round (enc_hdr NETXCMD_GET_CONNTRACK_ALL_BRIEF 1 178 @ replicate 12 0 @ replicate 178 9 @ []) #
       client 8 (ctl_message name_a 2 NETX_CTL_SET_CONNTRACK_ACTION_BRIEF))
      \<lparr>sv_reg = reg_named, sv_queue = pkq_sample\<rparr> InitCliChannel st_sample =
      Some (Inr (False, \<lparr>sv_reg = reg_named, sv_queue = pkq_sample\<rparr>, InitCliChannel, st')) \<and>
    cli_calls st' = [Netx_GetConnCount None (2, 2), Netx_GetConnInfoBrief None 1 (5, 5),
      Netx_SetConnInfoBrief None conns' 178 1 (10, 10)] \<and> action_of conns' 0 = Inr 2"
proof -
  let ?sv = "\<lparr>sv_reg = reg_named, sv_queue = pkq_sample\<rparr>" and ?f = "filter_zero\<lparr>magic := FILTER_MAGIC, filterName := take 100 name_a\<rparr>"
  have f: "find (named (sv_reg ?sv) name_a) (listed (sv_reg ?sv)) = Some (Some 1)" "deref (sv_reg ?sv) (Some 1) = Inr ?f"
    using reg_named_facts(2,3) by (simp_all add: deref_def reg_named_def)
  have v: "pvt_data_g (cli_netx st_sample) = Some (0, 0)" "cli_calls st_sample = []" "f_handle ?f = None"
    by (simp_all add: st_sample_def filter_zero_def)
  from connections_acted_on [OF _ name_a_facts f v(1), of 7 7 8 1 "replicate 178 9" "replicate 12 0" filter_lib_sample "lib_of []" 0
      "\<lambda>_. True" 0 0 4 "[]" 0 178 "[]" 2] reg_named_facts(1) v(2,3)
  show ?thesis by auto
qed

end
