(* ===== verification/Navl_Externals.thy ===== *)
theory Navl_Externals
  imports DPI_Props
begin

text \<open>
  \<open>navl_externals_posix.c\<close> and the set-up of the NAVL library in a DPI thread.  The function pointers of the
  library are a map from their names; \<open>bind_navl_externals\<close> assigns the names of the C functions.  \<open>Dequeue\<close> is the
  whole function of a DPI thread, from the binding to \<open>navl_close\<close>.
\<close>

section \<open>Binding the externals\<close>

text \<open>The pointers that \<open>navl.h\<close> declares, all of which \<open>navl_open\<close> needs.\<close>

definition navl_externals :: "string list" where
  "navl_externals = [
    ''navl_malloc_local'', ''navl_free_local'', ''navl_malloc_shared'', ''navl_free_shared'',
    ''navl_islower'', ''navl_isupper'', ''navl_tolower'', ''navl_toupper'', ''navl_isalnum'',
    ''navl_isspace'', ''navl_isdigit'', ''navl_atoi'', ''navl_memcpy'', ''navl_memcmp'', ''navl_memset'',
    ''navl_strcasecmp'', ''navl_strchr'', ''navl_strrchr'', ''navl_strcmp'', ''navl_strncmp'',
    ''navl_strcpy'', ''navl_strncpy'', ''navl_strerror'', ''navl_strftime'', ''navl_strlen'',
    ''navl_strpbrk'', ''navl_strstr'', ''navl_strtol'', ''navl_printf'', ''navl_sprintf'', ''navl_snprintf'',
    ''navl_sscanf'', ''navl_putchar'', ''navl_puts'', ''navl_diag_printf'', ''navl_gettimeofday'',
    ''navl_mktime'', ''navl_log'', ''navl_fabs'', ''navl_abort'', ''navl_get_thread_id'',
    ''navl_log_message'']"

definition bound_externals :: "(string \<times> string) list" where
  "bound_externals = [
    (''navl_malloc_local'', ''malloc''), (''navl_free_local'', ''free''),
    (''navl_malloc_shared'', ''malloc''), (''navl_free_shared'', ''free''), (''navl_memcpy'', ''memcpy''),
    (''navl_memcmp'', ''memcmp''), (''navl_memset'', ''memset''), (''navl_strcasecmp'', ''strcasecmp''),
    (''navl_strchr'', ''strchr''), (''navl_strcmp'', ''strcmp''), (''navl_strncmp'', ''strncmp''),
    (''navl_strcpy'', ''strcpy''), (''navl_strncpy'', ''strncpy''), (''navl_strlen'', ''strlen''),
    (''navl_strstr'', ''strstr''), (''navl_printf'', ''printf''), (''navl_sprintf'', ''sprintf''),
    (''navl_snprintf'', ''snprintf''), (''navl_sscanf'', ''sscanf''), (''navl_putchar'', ''putchar''),
    (''navl_puts'', ''puts''), (''navl_diag_printf'', ''printf''), (''navl_gettimeofday'', ''gettimeofday''),
    (''navl_mktime'', ''mktime''), (''navl_abort'', ''abort''), (''navl_get_thread_id'', ''pthread_self'')]"

text \<open>The pointers set under \<open>NAVL_4_2_COMPATIBILITY\<close>, which the file itself defines.\<close>

definition deprecated_externals :: "(string \<times> string) list" where
  "deprecated_externals = [
    (''navl_islower'', ''islower''), (''navl_isupper'', ''isupper''), (''navl_tolower'', ''tolower''),
    (''navl_toupper'', ''toupper''), (''navl_isalnum'', ''isalnum''), (''navl_isspace'', ''isspace''),
    (''navl_isdigit'', ''isdigit''), (''navl_atoi'', ''atoi''), (''navl_strrchr'', ''strrchr''),
    (''navl_strerror'', ''strerror''), (''navl_strftime'', ''strftime''), (''navl_strpbrk'', ''strpbrk''),
    (''navl_strtol'', ''strtol''), (''navl_log'', ''log''), (''navl_fabs'', ''fabs'')]"

definition bind_navl_externals :: "bool \<Rightarrow> (string \<rightharpoonup> string) \<Rightarrow> (string \<rightharpoonup> string)" where
  "bind_navl_externals debug ext =
     (((ext ++ map_of (rev bound_externals))
        (''navl_log_message'' \<mapsto> (if debug then ''printf_log_message'' else ''null_log_message'')))
       ++ map_of (rev deprecated_externals))"

text \<open>The two logging functions: \<open>text\<close> is what the format expands to.  \<open>snprintf\<close> returns the length of the whole
  prefix, also when it cut it; a difference \<open>4096 - res\<close> below 0 is a huge size, and \<open>buf + res\<close> then lies outside
  \<open>buf\<close>.  The result has the string handed to \<open>navl_diag_printf\<close> and the value returned.\<close>

definition null_log_message :: "string \<Rightarrow> string \<Rightarrow> string \<Rightarrow> int" where
  "null_log_message level func txt = 0"

definition printf_log_message :: "string \<Rightarrow> string \<Rightarrow> string \<Rightarrow> (string \<times> int) cres" where
  "printf_log_message level func txt =
     (let pre = level @ '': '' @ func @ '': ''; res = length pre
      in if 4096 < res then Inl OutOfBounds
         else Inr (take 4095 pre @ take (4095 - res) txt, int (res + length txt)))"

section \<open>A DPI thread from start to end\<close>

datatype lib_call =
    BindExternals | NavlOpen string | NavlInit int | NavlConfigSet int string string
  | NavlFlow navl_call | NavlFini int | NavlClose int

definition setup_calls :: "int \<Rightarrow> lib_call list" where
  "setup_calls g = [BindExternals, NavlOpen ''plugins'', NavlInit g, NavlConfigSet g ''tcp.timeout'' ''10'',
     NavlConfigSet g ''tcp.track_user_conns'' ''1'']"

text \<open>\<open>g\<close> is what \<open>navl_open\<close> returns; a failure of it or of \<open>navl_init\<close> is only printed.\<close>

definition Dequeue ::
  "int \<Rightarrow> (navl_engine \<times> int) list \<Rightarrow> nat \<Rightarrow> flow_table \<Rightarrow> (flow_table \<times> lib_call list) option cres" where
  "Dequeue g es i ft = map_sum id (map_option (\<lambda>(ft', calls).
       (ft', setup_calls g @ map NavlFlow calls @ [NavlFini g, NavlClose g]))) (Dequeue_loop es g i ft [])"

fun call_handle :: "navl_call \<Rightarrow> int" where
  "call_handle (NavlConnCreate g _ _ _) = g"
| "call_handle (NavlClassify g _ _ _ _ _) = g"

section \<open>Properties\<close>

lemma externals_known: "set navl_externals = fst ` set bound_externals \<union> fst ` set deprecated_externals \<union> {''navl_log_message''}"
  unfolding navl_externals_def bound_externals_def deprecated_externals_def by auto

text \<open>Every pointer that \<open>navl_open\<close> needs is set, whatever was set before.\<close>

lemma externals_bound: "set navl_externals \<subseteq> dom (bind_navl_externals debug ext)"
proof -
  have "dom (bind_navl_externals debug ext) =
      insert ''navl_log_message'' (fst ` set bound_externals \<union> fst ` set deprecated_externals \<union> dom ext)"
    unfolding bind_navl_externals_def dom_map_add dom_fun_upd dom_map_of_conv_image_fst set_rev by (simp only: option.distinct if_False) blast
  then show ?thesis unfolding externals_known by blast
qed

text \<open>A log line that fits is passed on whole, a longer one is cut to the buffer.\<close>

lemma printf_log_line:
  assumes "length (level @ '': '' @ func @ '': '') \<le> 4096"
  shows "\<exists>line n. printf_log_message level func txt = Inr (line, n) \<and>
     line = take 4095 (level @ '': '' @ func @ '': '' @ txt) \<and> length line \<le> 4095"
proof -
  let ?pre = "level @ '': '' @ func @ '': ''"
  have "take 4095 ?pre @ take (4095 - length ?pre) txt = take 4095 (?pre @ txt)" unfolding take_append ..
  then have "printf_log_message level func txt = Inr (take 4095 (?pre @ txt), int (length ?pre + length txt))"
    using assms unfolding printf_log_message_def Let_def by simp
  then show ?thesis by simp
qed

lemma Dequeue_iter_handle:
  "Dequeue_iter E now g i ft = Inr (Again ft' calls) \<Longrightarrow> c \<in> set calls \<Longrightarrow> call_handle c = g"
  by (auto simp: Dequeue_iter_def Dequeue_msg_def create_conn_def classify_msg_def Let_def bindR_eq_Inr
      split: if_splits option.splits prod.splits)

lemma Dequeue_loop_handle:
  assumes "Dequeue_loop es g i ft log = Inr (Some (ft', calls))" and "\<forall>c \<in> set log. call_handle c = g"
  shows "\<forall>c \<in> set calls. call_handle c = g"
  using assms
proof (induction es g i ft log rule: Dequeue_loop.induct)
  case (2 E now es g i ft log)
  from 2(2) obtain r where r: "Dequeue_iter E now g i ft = Inr r" by (cases "Dequeue_iter E now g i ft") auto
  show ?case
  proof (cases r)
    case (Again ft1 c1)
    then have l: "Dequeue_loop es g i ft1 (log @ c1) = Inr (Some (ft', calls))" using 2(2) r by simp
    have "\<forall>c \<in> set (log @ c1). call_handle c = g" using 2(3) Dequeue_iter_handle [OF r [unfolded Again]] by auto
    from 2(1) [OF r Again l this] show ?thesis .
  qed (use 2(2,3) r in auto)
qed simp

text \<open>The library is set up before and released after the calls for flows, and all use the thread's own handle.\<close>

lemma Dequeue_bracketed:
  assumes "Dequeue g es i ft = Inr (Some (ft', calls))"
  shows "\<exists>mid. calls = setup_calls g @ map NavlFlow mid @ [NavlFini g, NavlClose g] \<and> (\<forall>c \<in> set mid. call_handle c = g)"
proof -
  from assms obtain mid where m: "Dequeue_loop es g i ft [] = Inr (Some (ft', mid))"
    "calls = setup_calls g @ map NavlFlow mid @ [NavlFini g, NavlClose g]"
    by (cases "Dequeue_loop es g i ft []") (auto simp: Dequeue_def)
  with Dequeue_loop_handle [OF m(1)] show ?thesis by auto
qed

end
