(* ===== verification/Life_Cycle.thy ===== *)
theory Life_Cycle
  imports Packet_Handler DPI_Props
begin

text \<open>
  Starting and stopping the process: \<open>Main.cpp\<close>, \<open>DistDpi.cpp\<close>, \<open>SignalHandler.cpp\<close> and the \<open>start\<close>,
  \<open>stop\<close> and thread functions of the parts.  \<open>life\<close> is the state of all threads and of what they share;
  \<open>life_step\<close> interleaves them.  The body of each \<open>start\<close> function is one step, as is each statement of
  \<open>stop\<close>; threads work as modelled in the theories of the parts.  A fault of any thread ends the process and is kept in
  \<open>l_fault\<close>.
\<close>

section \<open>State\<close>

datatype tstate = Unborn | Alive | Dead

text \<open>Where \<open>DistDpi::stop\<close> is: \<open>Serving\<close> before a signal, else what it does next.\<close>

datatype stop_pc =
    Serving | JoinNetx | JoinConsumer | StopFlows | JoinCleanup | JoinDpi nat | JoinDataPath
  | JoinStarter nat | Stopped

text \<open>Where the packet consumer is: about to test \<open>notify\<close>, between that test and the wait on the condition
  variable, waiting, in the loop that empties the queue, or between that loop and the reset of \<open>notify\<close>.\<close>

datatype consumer_at = Checking | Dozing | Asleep | Draining | Clearing

record life =
  l_objects :: bool                \<comment> \<open>\<open>dp_update_\<close>, \<open>ftb\<close>, \<open>dpi_engine_\<close>, \<open>pkt_hdl_\<close> are set\<close>
  l_th :: nat                      \<comment> \<open>size of \<open>th\<close>\<close>
  l_starter :: "nat \<Rightarrow> tstate"     \<comment> \<open>the threads of \<open>th\<close>\<close>
  l_running :: bool                \<comment> \<open>\<open>PacketHandler::running_\<close>\<close>
  l_notify :: bool                 \<comment> \<open>\<open>notify\<close> of \<open>PacketHandler.cpp\<close>\<close>
  l_pktq :: "PktMdata list"        \<comment> \<open>\<open>PacketHandler::queue_\<close>\<close>
  l_netx :: tstate                 \<comment> \<open>\<open>pkthdl_threads[0]\<close>\<close>
  l_loop :: bool                   \<comment> \<open>it is in \<open>selectEventLoop\<close>\<close>
  l_service :: bool                \<comment> \<open>\<open>running_\<close> of the service\<close>
  l_held :: "PktMdata option"      \<comment> \<open>the packet that \<open>PacketProducer\<close> tries to write\<close>
  l_consumer :: tstate             \<comment> \<open>\<open>pkthdl_threads[1]\<close>\<close>
  l_phase :: consumer_at
  l_ft :: flow_table
  l_cleanup :: tstate              \<comment> \<open>\<open>flowCleanupThread_\<close>\<close>
  l_dpithreads :: nat              \<comment> \<open>size of \<open>dpithreads\<close>\<close>
  l_dpi :: "nat \<Rightarrow> tstate"
  l_datapath :: tstate             \<comment> \<open>\<open>updateDPThread_\<close>\<close>
  l_stop :: stop_pc
  l_main :: bool                   \<comment> \<open>\<open>DistDpi::start\<close> has returned\<close>
  l_fault :: "c_fault option"

definition dpi_instances :: nat where "dpi_instances = 4"

text \<open>What \<open>queue_\<close>, made with size 500000, holds at most.\<close>

definition pktq_cap :: nat where "pktq_cap = 499999"

text \<open>After \<open>install\<close>, before the objects are made.\<close>

definition life_init :: life where
  "life_init = \<lparr>l_objects = False, l_th = 0, l_starter = (\<lambda>_. Unborn), l_running = False, l_notify = False,
     l_pktq = [], l_netx = Unborn, l_loop = False, l_service = False, l_held = None, l_consumer = Unborn, l_phase = Checking,
     l_ft = FlowTable_new (int dpi_instances), l_cleanup = Unborn, l_dpithreads = 0, l_dpi = (\<lambda>_. Unborn),
     l_datapath = Unborn, l_stop = Serving, l_main = False, l_fault = None\<rparr>"

definition fail :: "c_fault \<Rightarrow> life \<Rightarrow> life" where
  "fail e s = s\<lparr>l_fault := Some e\<rparr>"

definition on_table :: "flow_table cres \<Rightarrow> life \<Rightarrow> life" where
  "on_table r s = (case r of Inl e \<Rightarrow> fail e s | Inr ft \<Rightarrow> s\<lparr>l_ft := ft\<rparr>)"

text \<open>\<open>m_cv.notify_one\<close>: without effect unless the consumer waits.\<close>

definition wake :: "life \<Rightarrow> life" where
  "wake s = s\<lparr>l_phase := if l_phase s = Asleep then Checking else l_phase s\<rparr>"

section \<open>The bodies of the \<open>start\<close> functions\<close>

definition PacketHandler_start :: "life \<Rightarrow> life" where
  "PacketHandler_start s = s\<lparr>l_running := True, l_netx := Alive, l_consumer := Alive\<rparr>"

definition DPIEngine_start :: "life \<Rightarrow> life" where
  "DPIEngine_start s = s\<lparr>l_dpithreads := dpi_instances, l_dpi := (\<lambda>i. if i < dpi_instances then Alive else Unborn)\<rparr>"

definition FlowTable_starter :: "life \<Rightarrow> life" where
  "FlowTable_starter s = s\<lparr>l_ft := FlowTable_start (DPIEngine_new (int dpi_instances)) (l_ft s), l_cleanup := Alive\<rparr>"

definition DataPathUpdate_start :: "life \<Rightarrow> life" where
  "DataPathUpdate_start s = s\<lparr>l_datapath := Alive\<rparr>"

definition starter_body :: "nat \<Rightarrow> life \<Rightarrow> life" where
  "starter_body j = (if j = 0 then PacketHandler_start else if j = 1 then DPIEngine_start
     else if j = 2 then FlowTable_starter else DataPathUpdate_start)"

section \<open>The statements of \<open>stop\<close>\<close>

text \<open>\<open>PacketHandler::stop\<close> up to its joins; the list of threads is empty while \<open>start\<close> has not run.\<close>

definition PacketHandler_stop :: "life \<Rightarrow> life" where
  "PacketHandler_stop s = (if \<not> l_objects s then fail NullDeref s
     else (wake s)\<lparr>l_running := False, l_notify := True, l_service := False,
             l_stop := if l_netx s = Unborn then StopFlows else JoinNetx\<rparr>)"

definition DPIEngine_stop_join :: "nat \<Rightarrow> life \<Rightarrow> life option" where
  "DPIEngine_stop_join i s =
     (if i = dpi_instances then Some (s\<lparr>l_stop := JoinDataPath\<rparr>)
      else if l_dpithreads s \<le> i then Some (fail OutOfBounds s)
      else if l_dpi s i = Dead then Some (s\<lparr>l_stop := JoinDpi (i + 1)\<rparr>) else None)"

definition join_starter :: "nat \<Rightarrow> life \<Rightarrow> life option" where
  "join_starter j s =
     (if j = 4 then Some (s\<lparr>l_stop := Stopped\<rparr>)
      else if l_th s \<le> j then Some (fail OutOfBounds s)
      else if l_starter s j = Dead then Some (s\<lparr>l_stop := JoinStarter (j + 1)\<rparr>) else None)"

text \<open>The next statement of \<open>DistDpi::stop\<close>, \<open>None\<close> while a \<open>join\<close> waits.\<close>

fun stop_next :: "stop_pc \<Rightarrow> int \<Rightarrow> life \<Rightarrow> life option" where
  "stop_next Serving now s = Some (PacketHandler_stop s)"
| "stop_next JoinNetx now s = (if l_netx s = Dead then Some (s\<lparr>l_stop := JoinConsumer\<rparr>) else None)"
| "stop_next JoinConsumer now s = (if l_consumer s = Dead then Some (s\<lparr>l_stop := StopFlows\<rparr>) else None)"
| "stop_next StopFlows now s = Some (s\<lparr>l_ft := (l_ft s)\<lparr>ft_running := False\<rparr>, l_stop := JoinCleanup\<rparr>)"
| "stop_next JoinCleanup now s =
     (if l_cleanup s = Unborn then Some (fail NotJoinable s)
      else if l_cleanup s = Dead then Some (on_table (FlowTable_stop now (l_ft s)) (s\<lparr>l_stop := JoinDpi 0\<rparr>))
      else None)"
| "stop_next (JoinDpi i) now s = DPIEngine_stop_join i s"
| "stop_next JoinDataPath now s =
     (if l_datapath s = Unborn then Some (fail NotJoinable s)
      else if l_datapath s = Dead then Some (s\<lparr>l_stop := JoinStarter 0\<rparr>) else None)"
| "stop_next (JoinStarter j) now s = join_starter j s"
| "stop_next Stopped now s = None"

section \<open>Steps\<close>

text \<open>The worker threads.\<close>

inductive work_step :: "life \<Rightarrow> life \<Rightarrow> bool" where
  service_fails: "l_netx s = Alive \<Longrightarrow> \<not> l_loop s \<Longrightarrow> work_step s (s\<lparr>l_netx := Dead\<rparr>)"
| service_enters: "l_netx s = Alive \<Longrightarrow> \<not> l_loop s \<Longrightarrow> work_step s (s\<lparr>l_loop := True, l_service := True\<rparr>)"
| service_packet: "l_netx s = Alive \<Longrightarrow> l_loop s \<Longrightarrow> l_held s = None \<Longrightarrow> work_step s (s\<lparr>l_held := Some p\<rparr>)"
| service_writes: "l_netx s = Alive \<Longrightarrow> l_held s = Some p \<Longrightarrow> length (l_pktq s) < pktq_cap \<Longrightarrow>
     work_step s ((wake s)\<lparr>l_pktq := l_pktq s @ [p], l_notify := True, l_held := None\<rparr>)"
| service_disconnects: "l_netx s = Alive \<Longrightarrow> l_loop s \<Longrightarrow> l_held s = None \<Longrightarrow> work_step s (s\<lparr>l_netx := Dead\<rparr>)"
| service_ends: "l_netx s = Alive \<Longrightarrow> l_loop s \<Longrightarrow> l_held s = None \<Longrightarrow> \<not> l_service s \<Longrightarrow> work_step s (s\<lparr>l_netx := Dead\<rparr>)"
| consumer_checks: "l_consumer s = Alive \<Longrightarrow> l_phase s = Checking \<Longrightarrow> \<not> l_notify s \<Longrightarrow> work_step s (s\<lparr>l_phase := Dozing\<rparr>)"
| consumer_waits: "l_consumer s = Alive \<Longrightarrow> l_phase s = Dozing \<Longrightarrow> work_step s (s\<lparr>l_phase := Asleep\<rparr>)"
| consumer_spurious: "l_consumer s = Alive \<Longrightarrow> l_phase s = Asleep \<Longrightarrow> work_step s (s\<lparr>l_phase := Checking\<rparr>)"
| consumer_goes: "l_consumer s = Alive \<Longrightarrow> l_phase s = Checking \<Longrightarrow> l_notify s \<Longrightarrow> l_running s \<Longrightarrow>
     work_step s (s\<lparr>l_phase := Draining\<rparr>)"
| consumer_ends: "l_consumer s = Alive \<Longrightarrow> l_phase s = Checking \<Longrightarrow> l_notify s \<Longrightarrow> \<not> l_running s \<Longrightarrow>
     work_step s (s\<lparr>l_consumer := Dead\<rparr>)"
| consumer_packet: "l_consumer s = Alive \<Longrightarrow> l_phase s = Draining \<Longrightarrow> wq_pop (l_pktq s) = Some (p, ps) \<Longrightarrow>
     work_step s (on_table (classifyFlows now p (l_ft s)) (s\<lparr>l_pktq := ps\<rparr>))"
| consumer_empty: "l_consumer s = Alive \<Longrightarrow> l_phase s = Draining \<Longrightarrow> l_pktq s = [] \<Longrightarrow>
     work_step s (s\<lparr>l_phase := Clearing\<rparr>)"
| consumer_clears: "l_consumer s = Alive \<Longrightarrow> l_phase s = Clearing \<Longrightarrow>
     work_step s (s\<lparr>l_phase := Checking, l_notify := False\<rparr>)"
| cleanup_round: "l_cleanup s = Alive \<Longrightarrow> FlowTableCleanup_round now (l_ft s) = Inr (Some ft') \<Longrightarrow>
     work_step s (s\<lparr>l_ft := ft'\<rparr>)"
| cleanup_ends: "l_cleanup s = Alive \<Longrightarrow> FlowTableCleanup_round now (l_ft s) = Inr None \<Longrightarrow>
     work_step s (s\<lparr>l_cleanup := Dead\<rparr>)"
| cleanup_fault: "l_cleanup s = Alive \<Longrightarrow> FlowTableCleanup_round now (l_ft s) = Inl e \<Longrightarrow> work_step s (fail e s)"
| dpi_goes: "l_dpi s i = Alive \<Longrightarrow> i < length (dpiQueues (l_ft s)) \<Longrightarrow>
     Dequeue_iter E now g i (l_ft s) = Inr (Again ft' calls) \<Longrightarrow> work_step s (s\<lparr>l_ft := ft'\<rparr>)"
| dpi_ends: "l_dpi s i = Alive \<Longrightarrow> i < length (dpiQueues (l_ft s)) \<Longrightarrow>
     Dequeue_iter E now g i (l_ft s) = Inr (Left ft') \<Longrightarrow>
     work_step s (s\<lparr>l_ft := ft', l_dpi := (l_dpi s)(i := Dead)\<rparr>)"
| dpi_fault: "l_dpi s i = Alive \<Longrightarrow> i < length (dpiQueues (l_ft s)) \<Longrightarrow>
     Dequeue_iter E now g i (l_ft s) = Inl e \<Longrightarrow> work_step s (fail e s)"
| datapath_takes: "l_datapath s = Alive \<Longrightarrow> wq_pop (dpQueue (l_ft s)) = Some (x, xs) \<Longrightarrow>
     work_step s (s\<lparr>l_ft := (l_ft s)\<lparr>dpQueue := xs\<rparr>, l_datapath := if fd_exit_flag x then Dead else Alive\<rparr>)"

text \<open>Main thread, starting threads and the signal handler; \<open>late\<close> says whether a signal may arrive before the
  starting threads have finished.\<close>

inductive life_step :: "bool \<Rightarrow> life \<Rightarrow> life \<Rightarrow> bool" for late where
  main_creates: "\<not> l_objects s \<Longrightarrow> life_step late s (s\<lparr>l_objects := True\<rparr>)"
| main_spawns: "l_objects s \<Longrightarrow> l_th s < 4 \<Longrightarrow>
     life_step late s (s\<lparr>l_th := l_th s + 1, l_starter := (l_starter s)(l_th s := Alive)\<rparr>)"
| main_returns: "l_stop s = Stopped \<Longrightarrow> \<not> l_main s \<Longrightarrow> life_step late s (s\<lparr>l_main := True\<rparr>)"
| starter_runs: "l_starter s j = Alive \<Longrightarrow>
     life_step late s (starter_body j s\<lparr>l_starter := (l_starter s)(j := Dead)\<rparr>)"
| stop_runs: "late \<or> l_stop s \<noteq> Serving \<or> (\<forall>j < 4. l_starter s j = Dead) \<Longrightarrow>
     stop_next (l_stop s) now s = Some s' \<Longrightarrow> life_step late s s'"
| worker: "work_step s s' \<Longrightarrow> life_step late s s'"

inductive life_reachable :: "bool \<Rightarrow> life \<Rightarrow> bool" for late where
  init: "life_reachable late life_init"
| step: "life_reachable late s \<Longrightarrow> l_fault s = None \<Longrightarrow> life_step late s s' \<Longrightarrow> life_reachable late s'"

end
