(* ===== verification/Life_Props.thy ===== *)
theory Life_Props
  imports Life_Cycle
begin

text \<open>
  Invariants of the process from start to end, when the signal arrives after the starting threads
  have finished.  \<open>tab\<close> is the invariant of the flow table while the process runs; \<open>pcn\<close> numbers the statements of
  \<open>stop\<close>, and \<open>past\<close> says what holds once \<open>stop\<close> has passed each of them.
\<close>

section \<open>The flow table under the threads\<close>

definition tab :: "flow_table \<Rightarrow> bool" where
  "tab ft \<longleftrightarrow> ft_inv ft \<and> refs_inv ft \<and> length (dpiQueues ft) = dpi_instances \<and> numQueues ft = int dpi_instances"

lemma tab_start: "tab (FlowTable_start (DPIEngine_new (int dpi_instances)) (FlowTable_new (int dpi_instances)))"
  using sys_inv_start [of dpi_instances] by (simp add: tab_def sys_inv_def dpi_instances_def)

lemma classifyFlows_cases:
  assumes "classifyFlows now p ft = Inr ft'"
  obtains "ft' = ft" | key d where "InsertOrUpdateFlows now ft key d (pk_filter p) (pk_dir p) = Inr ft'"
  using assms
  by (auto simp: classifyFlows_def populateFlowTable_def bindR_eq_Inr Let_def
      split: if_splits option.splits prod.splits)

lemma InsertOrUpdateFlows_keeps:
  assumes "InsertOrUpdateFlows now ft key d flt dir = Inr ft'"
  shows "ft_running ft' = ft_running ft \<and> dpQueue ft' = dpQueue ft"
  using assms
  by (auto simp: InsertOrUpdateFlows_def insert_flow_def update_flow_def bindR_eq_Inr Let_def
      split: if_splits option.splits prod.splits)

lemma tab_packet:
  assumes "tab ft" and "classifyFlows now p ft = Inr ft'"
  shows "tab ft' \<and> ft_running ft' = ft_running ft \<and> dpQueue ft' = dpQueue ft"
  using assms(2)
proof (cases rule: classifyFlows_cases)
  case 1
  with assms(1) show ?thesis by simp
next
  case (2 key d)
  have t: "ft_inv ft" "refs_inv ft" "0 < numQueues ft" using assms(1) by (simp_all add: tab_def dpi_instances_def)
  have "length (dpiQueues ft') = length (dpiQueues ft) \<and> numQueues ft' = numQueues ft"
    using 2 InsertOrUpdateFlows_new [OF t(1,3)] InsertOrUpdateFlows_known [OF t(1,3)]
    by (cases "ct_find (conn_table ft) key") auto
  with 2 t InsertOrUpdateFlows_inv [OF t(1,3) 2] InsertOrUpdateFlows_refs [OF t 2] InsertOrUpdateFlows_keeps [OF 2] assms(1)
  show ?thesis by (simp add: tab_def)
qed

lemma tab_cleanup:
  assumes "tab ft" and "FlowTableCleanup_round now ft = Inr (Some ft')"
  shows "tab ft' \<and> ft_running ft \<and> ft_running ft' \<and> dpQueue ft' = dpQueue ft \<and> dpiQueues ft' = dpiQueues ft"
proof -
  have t: "ft_inv ft" "refs_inv ft" using assms(1) by (simp_all add: tab_def)
  have "ft_running ft" and c: "ft' = ft \<or> cleanupFlows now False ft = Inr ft'"
    using assms(2) by (auto simp: FlowTableCleanup_round_def bindR_eq_Inr split: if_splits)
  with assms(1) cleanupFlows_keeps [OF t] cleanupFlows_expire [OF t(1), of now] show ?thesis
    by (auto simp: tab_def)
qed

lemma Dequeue_iter_running:
  "Dequeue_iter E now g i ft = Inr (Again ft' calls) \<Longrightarrow> ft_running ft' = ft_running ft"
  by (auto simp: Dequeue_iter_def Dequeue_msg_def create_conn_def classify_msg_def navl_classify_callback_def
      updateFlowTableDPIData_def Let_def bindR_eq_Inr split: if_splits option.splits prod.splits)

lemma Dequeue_iter_AgainD:
  assumes "Dequeue_iter E now g i ft = Inr (Again ft' calls)"
  obtains m rest n where "i < length (dpiQueues ft)" "dpiQueues ft ! i = m # rest" "md_exit_flag m = 0"
    "md_info m = Some (n_addr n)" "n \<in> set (conn_table ft)"
proof -
  from assms obtain m rest where q: "i < length (dpiQueues ft)" "wq_pop (dpiQueues ft ! i) = Some (m, rest)"
    "md_exit_flag m = 0" and r: "\<exists>r. Dequeue_msg E now g (ft\<lparr>dpiQueues := (dpiQueues ft)[i := rest]\<rparr>) m = Inr r"
    by (auto simp: Dequeue_iter_def Let_def bindR_eq_Inr split: if_splits option.splits)
  from r obtain a where "md_info m = Some a" "ct_at (conn_table ft) a \<noteq> None"
    by (auto simp: Dequeue_msg_def split: option.splits)
  then obtain n where "n \<in> set (conn_table ft)" "md_info m = Some (n_addr n)"
    by (auto simp: ct_at_def dest: find_SomeD)
  moreover have "dpiQueues ft ! i = m # rest" using q(2) by (cases "dpiQueues ft ! i") auto
  ultimately show thesis using that q by blast
qed

lemma tab_dpi:
  assumes "tab ft" and "Dequeue_iter E now g i ft = Inr (Again ft' calls)"
  shows "\<exists>m rest xs. tab ft' \<and> dpiQueues ft ! i = m # rest \<and> md_exit_flag m = 0 \<and>
    dpiQueues ft' = (dpiQueues ft)[i := rest] \<and> dpQueue ft' = dpQueue ft @ xs \<and> conn_table ft \<noteq> [] \<and>
    ft_running ft' = ft_running ft"
proof -
  have t: "ft_inv ft" "refs_inv ft" using assms(1) by (simp_all add: tab_def)
  from Dequeue_iter_AgainD [OF assms(2)] obtain m rest n where
    q: "i < length (dpiQueues ft)" "dpiQueues ft ! i = m # rest" "md_exit_flag m = 0" and
    n: "n \<in> set (conn_table ft)" "md_info m = Some (n_addr n)" by metis
  from Dequeue_iter_live [OF t q n, of E now g] assms(2) have
    "ft_inv ft'" "refs_inv ft'" "dpiQueues ft' = (dpiQueues ft)[i := rest]" "numQueues ft' = numQueues ft"
    "\<exists>xs. dpQueue ft' = dpQueue ft @ xs" by auto
  with q n assms(1) Dequeue_iter_running [OF assms(2)] show ?thesis by (auto simp: tab_def)
qed

lemma tab_dpi_left:
  assumes "tab ft" and "Dequeue_iter E now g i ft = Inr (Left ft')"
  shows "\<exists>m rest. tab ft' \<and> dpiQueues ft ! i = m # rest \<and> i < length (dpiQueues ft) \<and>
    ft' = ft\<lparr>dpiQueues := (dpiQueues ft)[i := rest]\<rparr>"
proof -
  have t: "ft_inv ft" "refs_inv ft" using assms(1) by (simp_all add: tab_def)
  obtain m rest where q: "i < length (dpiQueues ft)" "dpiQueues ft ! i = m # rest"
    and ft': "ft' = ft\<lparr>dpiQueues := (dpiQueues ft)[i := rest]\<rparr>"
    using assms(2) by (cases "dpiQueues ft ! i") (auto simp: Dequeue_iter_def Let_def bindR_eq_Inr split: if_splits)
  with pop_keeps [OF t q] assms(1) show ?thesis by (simp add: tab_def)
qed

lemma tab_stop:
  assumes "tab ft" and "\<not> ft_running ft"
  shows "\<exists>ft'. FlowTable_stop now ft = Inr ft' \<and> tab ft' \<and> \<not> ft_running ft' \<and> conn_table ft' = [] \<and>
    dpQueue ft' = dpQueue ft @ [exit_flow_data] \<and>
    dpiQueues ft' = map (\<lambda>q. q @ [exit_metadata]) (dpiQueues ft)"
proof -
  have b: "0 \<le> numQueues ft" "numQueues ft \<le> int (length (dpiQueues ft))" "length (dpiQueues ft) = nat (numQueues ft)"
    using assms(1) by (simp_all add: tab_def)
  have "refs_inv (ft\<lparr>ft_running := False, conn_table := [], destroyed := d, dpQueue := q,
      dpiQueues := map (\<lambda>q. q @ [exit_metadata]) (dpiQueues ft)\<rparr>)" for d q
    using assms(1) unfolding tab_def refs_inv_def by (fastforce simp: exit_metadata_def)
  with FlowTable_stop_eq [OF b(1,2), of now] b(3) assms show ?thesis
    by (auto simp: tab_def ft_inv_def table_inv_def)
qed

section \<open>The invariant\<close>

fun pcn :: "stop_pc \<Rightarrow> nat" where
  "pcn Serving = 0" | "pcn JoinNetx = 1" | "pcn JoinConsumer = 2" | "pcn StopFlows = 3" | "pcn JoinCleanup = 4"
| "pcn (JoinDpi i) = 5 + i" | "pcn JoinDataPath = 10" | "pcn (JoinStarter j) = 11 + j" | "pcn Stopped = 16"

fun pc_ok :: "stop_pc \<Rightarrow> bool" where
  "pc_ok (JoinDpi i) \<longleftrightarrow> i \<le> dpi_instances" | "pc_ok (JoinStarter j) \<longleftrightarrow> j \<le> 4" | "pc_ok _ \<longleftrightarrow> True"

text \<open>Every \<open>start\<close> function has run exactly when its threads exist.\<close>

definition starts_ok :: "life \<Rightarrow> bool" where
  "starts_ok s \<longleftrightarrow> l_th s \<le> 4 \<and> (l_th s > 0 \<longrightarrow> l_objects s) \<and> (\<forall>j. l_starter s j \<noteq> Unborn \<longleftrightarrow> j < l_th s) \<and>
     (l_netx s \<noteq> Unborn \<longleftrightarrow> l_starter s 0 = Dead) \<and> (l_consumer s \<noteq> Unborn \<longleftrightarrow> l_starter s 0 = Dead) \<and>
     (l_dpithreads s = (if l_starter s 1 = Dead then dpi_instances else 0)) \<and>
     (\<forall>i. l_dpi s i \<noteq> Unborn \<longleftrightarrow> i < l_dpithreads s) \<and>
     (l_cleanup s \<noteq> Unborn \<longleftrightarrow> l_starter s 2 = Dead) \<and> (l_datapath s \<noteq> Unborn \<longleftrightarrow> l_starter s 3 = Dead)"

definition table_ok :: "life \<Rightarrow> bool" where
  "table_ok s \<longleftrightarrow> (if l_starter s 2 = Dead then tab (l_ft s) else l_ft s = FlowTable_new (int dpi_instances))"

definition exits_due :: "life \<Rightarrow> bool" where
  "exits_due s \<longleftrightarrow> conn_table (l_ft s) = [] \<and> l_cleanup s = Dead \<and>
     (\<forall>i. l_dpi s i = Alive \<longrightarrow> (\<exists>m \<in> set (dpiQueues (l_ft s) ! i). md_exit_flag m \<noteq> 0)) \<and>
     (l_datapath s = Alive \<longrightarrow> (\<exists>x \<in> set (dpQueue (l_ft s)). fd_exit_flag x))"

definition passed :: "nat \<Rightarrow> life \<Rightarrow> bool" where
  "passed k s \<longleftrightarrow>
     (if k = 1 then (\<forall>j < 4. l_starter s j = Dead) \<and> \<not> l_running s
      else if k = 2 then l_netx s = Dead else if k = 3 then l_consumer s = Dead
      else if k = 4 then \<not> ft_running (l_ft s) else if k = 5 then exits_due s
      else if k < 6 then True else if k < 6 + dpi_instances then l_dpi s (k - 6) = Dead
      else if k = 11 then l_datapath s = Dead else True)"

definition past :: "nat \<Rightarrow> life \<Rightarrow> bool" where
  "past c s \<longleftrightarrow> (\<forall>k \<le> c. passed k s)"

definition life_inv :: "life \<Rightarrow> bool" where
  "life_inv s \<longleftrightarrow> starts_ok s \<and> table_ok s \<and> pc_ok (l_stop s) \<and> past (pcn (l_stop s)) s \<and> (l_main s \<longrightarrow> l_stop s = Stopped)"

lemma past_Suc: "past (Suc c) s \<longleftrightarrow> past c s \<and> passed (Suc c) s"
  by (auto simp: past_def le_Suc_eq)

lemma past_0 [simp]: "past 0 s"
  by (simp add: past_def passed_def)

lemma past_le: "past c s \<Longrightarrow> k \<le> c \<Longrightarrow> past k s"
  by (simp add: past_def)

lemma past_map: "past c s \<Longrightarrow> (\<And>k. k \<le> c \<Longrightarrow> passed k s \<Longrightarrow> passed k s') \<Longrightarrow> past c s'"
  by (simp add: past_def)

lemma pastD:
  assumes "past c s"
  shows "1 \<le> c \<Longrightarrow> j < 4 \<Longrightarrow> l_starter s j = Dead" "1 \<le> c \<Longrightarrow> \<not> l_running s" "2 \<le> c \<Longrightarrow> l_netx s = Dead"
    "3 \<le> c \<Longrightarrow> l_consumer s = Dead" "4 \<le> c \<Longrightarrow> \<not> ft_running (l_ft s)" "5 \<le> c \<Longrightarrow> exits_due s"
    "i < dpi_instances \<Longrightarrow> 6 + i \<le> c \<Longrightarrow> l_dpi s i = Dead" "11 \<le> c \<Longrightarrow> l_datapath s = Dead"
proof -
  note P = assms [unfolded past_def, rule_format]
  show "1 \<le> c \<Longrightarrow> j < 4 \<Longrightarrow> l_starter s j = Dead" "1 \<le> c \<Longrightarrow> \<not> l_running s" using P [of 1] by (simp_all add: passed_def)
  show "2 \<le> c \<Longrightarrow> l_netx s = Dead" using P [of 2] by (simp add: passed_def)
  show "3 \<le> c \<Longrightarrow> l_consumer s = Dead" using P [of 3] by (simp add: passed_def)
  show "4 \<le> c \<Longrightarrow> \<not> ft_running (l_ft s)" using P [of 4] by (simp add: passed_def)
  show "5 \<le> c \<Longrightarrow> exits_due s" using P [of 5] by (simp add: passed_def)
  show "i < dpi_instances \<Longrightarrow> 6 + i \<le> c \<Longrightarrow> l_dpi s i = Dead" using P [of "6 + i"] by (simp add: passed_def)
  show "11 \<le> c \<Longrightarrow> l_datapath s = Dead" using P [of 11] by (simp add: passed_def dpi_instances_def)
qed

lemma past_mono:
  assumes "past c s" and "l_starter s' = l_starter s" and "l_running s' = l_running s"
    and "l_netx s = Dead \<Longrightarrow> l_netx s' = Dead" and "l_consumer s = Dead \<Longrightarrow> l_consumer s' = Dead"
    and "4 \<le> c \<Longrightarrow> \<not> ft_running (l_ft s) \<Longrightarrow> \<not> ft_running (l_ft s')" and "5 \<le> c \<Longrightarrow> exits_due s \<Longrightarrow> exits_due s'"
    and "\<And>i. l_dpi s i = Dead \<Longrightarrow> l_dpi s' i = Dead" and "l_datapath s = Dead \<Longrightarrow> l_datapath s' = Dead"
  shows "past c s'"
  using assms(1)
proof (rule past_map)
  fix k
  assume k: "k \<le> c" "passed k s"
  consider "k = 1" | "k = 2" | "k = 3" | "k = 4" | "k = 5" | "6 \<le> k" "k < 6 + dpi_instances" | "k = 11"
    | "k = 0 \<or> 6 + dpi_instances \<le> k \<and> k \<noteq> 11" by linarith
  then show "passed k s'"
  proof cases
    case 6
    then show ?thesis using k(2) assms(8) by (simp add: passed_def)
  next
    case 7
    then show ?thesis using k(2) assms(9) by (simp add: passed_def dpi_instances_def)
  next
    case 8
    then show ?thesis by (auto simp: passed_def dpi_instances_def)
  qed (use k assms in \<open>simp_all add: passed_def\<close>)
qed

text \<open>Fields that the invariant does not mention.\<close>

lemma inv_frame [simp]:
  "starts_ok (s\<lparr>l_stop := c\<rparr>) = starts_ok s" "table_ok (s\<lparr>l_stop := c\<rparr>) = table_ok s"
  "exits_due (s\<lparr>l_stop := c\<rparr>) = exits_due s" "passed k (s\<lparr>l_stop := c\<rparr>) = passed k s" "past k (s\<lparr>l_stop := c\<rparr>) = past k s"
  "starts_ok (s\<lparr>l_main := d\<rparr>) = starts_ok s" "table_ok (s\<lparr>l_main := d\<rparr>) = table_ok s"
  "exits_due (s\<lparr>l_main := d\<rparr>) = exits_due s" "passed k (s\<lparr>l_main := d\<rparr>) = passed k s" "past k (s\<lparr>l_main := d\<rparr>) = past k s"
  by (simp_all add: starts_ok_def table_ok_def past_def passed_def exits_due_def)

lemma life_inv_frame [simp]:
  "life_inv (s\<lparr>l_pktq := q\<rparr>) = life_inv s" "life_inv (s\<lparr>l_notify := b\<rparr>) = life_inv s"
  "life_inv (s\<lparr>l_phase := ph\<rparr>) = life_inv s" "life_inv (s\<lparr>l_loop := b\<rparr>) = life_inv s"
  "life_inv (s\<lparr>l_service := b\<rparr>) = life_inv s" "life_inv (s\<lparr>l_held := h\<rparr>) = life_inv s" "life_inv (wake s) = life_inv s"
  by (simp_all add: wake_def life_inv_def starts_ok_def table_ok_def past_def passed_def exits_due_def)

text \<open>A step that only changes the table, or marks a thread that ran as finished.\<close>

lemma life_inv_ft:
  assumes "life_inv s" and "l_starter s 2 = Dead" and "tab ft" and "ft_running ft = ft_running (l_ft s)"
    and "pcn (l_stop s) < 5 \<or> exits_due (s\<lparr>l_ft := ft\<rparr>)"
  shows "life_inv (s\<lparr>l_ft := ft\<rparr>)"
proof -
  have "past (pcn (l_stop s)) (s\<lparr>l_ft := ft\<rparr>)"
    by (rule past_mono [of _ s]) (use assms(1,4,5) in \<open>auto simp: life_inv_def\<close>)
  with assms show ?thesis by (simp add: life_inv_def starts_ok_def table_ok_def)
qed

lemma life_inv_ends:
  assumes "life_inv s"
  shows "l_netx s = Alive \<Longrightarrow> life_inv (s\<lparr>l_netx := Dead\<rparr>)" "l_consumer s = Alive \<Longrightarrow> life_inv (s\<lparr>l_consumer := Dead\<rparr>)"
    "l_cleanup s = Alive \<Longrightarrow> life_inv (s\<lparr>l_cleanup := Dead\<rparr>)" "l_datapath s = Alive \<Longrightarrow> life_inv (s\<lparr>l_datapath := Dead\<rparr>)"
    "l_dpi s i = Alive \<Longrightarrow> life_inv (s\<lparr>l_dpi := (l_dpi s)(i := Dead)\<rparr>)"
proof -
  note A = assms [unfolded life_inv_def]
  have X: "exits_due s \<Longrightarrow> exits_due (s\<lparr>l_netx := Dead\<rparr>)" "exits_due s \<Longrightarrow> exits_due (s\<lparr>l_consumer := Dead\<rparr>)"
    "exits_due s \<Longrightarrow> exits_due (s\<lparr>l_cleanup := Dead\<rparr>)" "exits_due s \<Longrightarrow> exits_due (s\<lparr>l_datapath := Dead\<rparr>)"
    "exits_due s \<Longrightarrow> exits_due (s\<lparr>l_dpi := (l_dpi s)(i := Dead)\<rparr>)" for i
    by (simp_all add: exits_due_def)
  have P: "past (pcn (l_stop s)) s" using A by simp
  show "life_inv (s\<lparr>l_netx := Dead\<rparr>)" if "l_netx s = Alive"
    using A that X(1) past_mono [OF P, of "s\<lparr>l_netx := Dead\<rparr>"]
    by (simp add: life_inv_def starts_ok_def table_ok_def)
  show "life_inv (s\<lparr>l_consumer := Dead\<rparr>)" if "l_consumer s = Alive"
    using A that X(2) past_mono [OF P, of "s\<lparr>l_consumer := Dead\<rparr>"]
    by (simp add: life_inv_def starts_ok_def table_ok_def)
  show "life_inv (s\<lparr>l_cleanup := Dead\<rparr>)" if "l_cleanup s = Alive"
    using A that X(3) past_mono [OF P, of "s\<lparr>l_cleanup := Dead\<rparr>"]
    by (simp add: life_inv_def starts_ok_def table_ok_def)
  show "life_inv (s\<lparr>l_datapath := Dead\<rparr>)" if "l_datapath s = Alive"
    using A that X(4) past_mono [OF P, of "s\<lparr>l_datapath := Dead\<rparr>"]
    by (simp add: life_inv_def starts_ok_def table_ok_def)
  show "life_inv (s\<lparr>l_dpi := (l_dpi s)(i := Dead)\<rparr>)" if "l_dpi s i = Alive"
  proof -
    let ?s = "s\<lparr>l_dpi := (l_dpi s)(i := Dead)\<rparr>"
    have "past (pcn (l_stop s)) ?s" by (rule past_mono [OF P]) (use X(5) in simp_all)
    moreover have "\<forall>k. l_dpi ?s k \<noteq> Unborn \<longleftrightarrow> l_dpi s k \<noteq> Unborn" using that by simp
    then have "starts_ok ?s = starts_ok s" unfolding starts_ok_def by simp
    ultimately show ?thesis using A by (simp add: life_inv_def table_ok_def)
  qed
qed

lemma tab_field: "tab (ft\<lparr>ft_running := b\<rparr>) = tab ft" "tab (ft\<lparr>dpQueue := q\<rparr>) = tab ft"
  by (auto simp: tab_def ft_inv_def refs_inv_def)

lemma life_inv_init: "life_inv life_init"
  by (simp add: life_inv_def starts_ok_def table_ok_def life_init_def)

lemma on_table_ok: "l_fault (on_table r s) = None \<Longrightarrow> \<exists>ft. r = Inr ft \<and> on_table r s = s\<lparr>l_ft := ft\<rparr>"
  by (cases r) (auto simp: on_table_def fail_def)

lemma fail_fault [simp]: "l_fault (fail e s) = Some e"
  by (simp add: fail_def)

text \<open>Before the flow table is started it takes no flow.\<close>

lemma classify_unstarted:
  assumes "classifyFlows now p (FlowTable_new (int dpi_instances)) = Inr ft'"
  shows "ft' = FlowTable_new (int dpi_instances)"
  using assms
proof (cases rule: classifyFlows_cases)
  case (2 key d)
  then show ?thesis
    by (auto simp: InsertOrUpdateFlows_def insert_flow_def ct_insert_def ct_find_def FlowTable_new_def
        dpi_push_def Let_def dpi_instances_def)
qed

lemma Dequeue_iter_unstarted:
  "i < length (dpiQueues (FlowTable_new n)) \<Longrightarrow> P"
  by (simp add: FlowTable_new_def)

lemma table_started:
  "life_inv s \<Longrightarrow> l_starter s 2 = Dead \<Longrightarrow> tab (l_ft s)"
  "life_inv s \<Longrightarrow> l_cleanup s = Alive \<Longrightarrow> l_starter s 2 = Dead"
  "life_inv s \<Longrightarrow> i < length (dpiQueues (l_ft s)) \<Longrightarrow> l_starter s 2 = Dead"
  "life_inv s \<Longrightarrow> dpQueue (l_ft s) \<noteq> [] \<Longrightarrow> l_starter s 2 = Dead"
  by (auto simp: life_inv_def table_ok_def starts_ok_def FlowTable_new_def split: if_splits)

lemma life_inv_work:
  assumes inv: "life_inv s" and st: "work_step s s'" and ok: "l_fault s' = None"
  shows "life_inv s'"
  using st
proof cases
  case (consumer_packet p ps now)
  from on_table_ok [of "classifyFlows now p (l_ft s)" "s\<lparr>l_pktq := ps\<rparr>"] ok consumer_packet(1)
  obtain ft where ft: "classifyFlows now p (l_ft s) = Inr ft" "s' = (s\<lparr>l_ft := ft\<rparr>)\<lparr>l_pktq := ps\<rparr>" by auto
  have c: "pcn (l_stop s) < 5"
    using inv consumer_packet(2) pastD(4) [of "pcn (l_stop s)" s] by (fastforce simp: life_inv_def)
  have "life_inv (s\<lparr>l_ft := ft\<rparr>)"
  proof (cases "l_starter s 2 = Dead")
    case True
    with tab_packet [OF table_started(1) [OF inv True] ft(1)] c show ?thesis by (intro life_inv_ft [OF inv]) simp_all
  next
    case False
    then have "l_ft s = FlowTable_new (int dpi_instances)" using inv by (simp add: life_inv_def table_ok_def)
    with classify_unstarted [of now p ft] ft(1) have "s\<lparr>l_ft := ft\<rparr> = s" by simp
    with inv show ?thesis by simp
  qed
  then show ?thesis by (simp add: ft(2))
next
  case (cleanup_round now ft')
  note d = table_started(2) [OF inv cleanup_round(2)]
  note c = tab_cleanup [OF table_started(1) [OF inv d] cleanup_round(3)]
  have "pcn (l_stop s) < 5" using inv c pastD(5) [of "pcn (l_stop s)" s] by (fastforce simp: life_inv_def)
  with c d show ?thesis unfolding cleanup_round(1) by (intro life_inv_ft [OF inv]) simp_all
next
  case (dpi_goes i E now g ft' calls)
  note d = table_started(3) [OF inv dpi_goes(3)]
  from tab_dpi [OF table_started(1) [OF inv d] dpi_goes(4)]
  have c: "tab ft'" "conn_table (l_ft s) \<noteq> []" "ft_running ft' = ft_running (l_ft s)" by auto
  then have "pcn (l_stop s) < 5"
    using inv pastD(6) [of "pcn (l_stop s)" s] by (fastforce simp: life_inv_def exits_due_def)
  with c d show ?thesis unfolding dpi_goes(1) by (intro life_inv_ft [OF inv]) simp_all
next
  case (dpi_ends i E now g ft')
  note d = table_started(3) [OF inv dpi_ends(3)]
  from tab_dpi_left [OF table_started(1) [OF inv d] dpi_ends(4)] obtain rest where
    c: "tab ft'" "ft' = (l_ft s)\<lparr>dpiQueues := (dpiQueues (l_ft s))[i := rest]\<rparr>" by auto
  let ?s = "s\<lparr>l_dpi := (l_dpi s)(i := Dead)\<rparr>"
  have i: "life_inv ?s" using life_inv_ends(5) [OF inv dpi_ends(2)] .
  have "pcn (l_stop s) < 5 \<or> exits_due (?s\<lparr>l_ft := ft'\<rparr>)"
    using inv pastD(6) [of "pcn (l_stop s)" s] by (auto simp: life_inv_def exits_due_def c(2) not_less)
  with c d have "life_inv (?s\<lparr>l_ft := ft'\<rparr>)" by (intro life_inv_ft [OF i]) simp_all
  moreover have "s' = ?s\<lparr>l_ft := ft'\<rparr>" unfolding dpi_ends(1) by (cases s) simp
  ultimately show ?thesis by simp
next
  case (datapath_takes x xs)
  have q: "dpQueue (l_ft s) = x # xs" using datapath_takes(3) by (cases "dpQueue (l_ft s)") auto
  note d = table_started(4) [OF inv]
  let ?s = "s\<lparr>l_datapath := if fd_exit_flag x then Dead else Alive\<rparr>"
  have "s\<lparr>l_datapath := Alive\<rparr> = s" using datapath_takes(2) by (cases s) simp
  with life_inv_ends(4) [OF inv datapath_takes(2)] inv have i: "life_inv ?s" by (cases "fd_exit_flag x") simp_all
  have "pcn (l_stop s) < 5 \<or> exits_due (?s\<lparr>l_ft := (l_ft s)\<lparr>dpQueue := xs\<rparr>\<rparr>)"
    using inv pastD(6) [of "pcn (l_stop s)" s] q datapath_takes(2) by (auto simp: life_inv_def exits_due_def not_less)
  with d q table_started(1) [OF inv] have "life_inv (?s\<lparr>l_ft := (l_ft s)\<lparr>dpQueue := xs\<rparr>\<rparr>)"
    by (intro life_inv_ft [OF i]) (simp_all add: tab_field)
  moreover have "s' = ?s\<lparr>l_ft := (l_ft s)\<lparr>dpQueue := xs\<rparr>\<rparr>" unfolding datapath_takes(1) by (cases s) simp
  ultimately show ?thesis by simp
qed (use inv ok life_inv_ends [OF inv] in simp_all)

lemma starts_okD:
  assumes "starts_ok s"
  shows "l_th s \<le> 4" "l_starter s j \<noteq> Unborn \<longleftrightarrow> j < l_th s" "l_dpi s i \<noteq> Unborn \<longleftrightarrow> i < l_dpithreads s"
    "l_dpithreads s = (if l_starter s 1 = Dead then dpi_instances else 0)" "l_cleanup s \<noteq> Unborn \<longleftrightarrow> l_starter s 2 = Dead"
    "l_datapath s \<noteq> Unborn \<longleftrightarrow> l_starter s 3 = Dead" "l_netx s \<noteq> Unborn \<longleftrightarrow> l_starter s 0 = Dead"
    "l_consumer s \<noteq> Unborn \<longleftrightarrow> l_starter s 0 = Dead"
  using assms unfolding starts_ok_def by blast+

lemma dpi_alive_index: "starts_ok s \<Longrightarrow> l_dpi s i = Alive \<Longrightarrow> i < dpi_instances"
  using starts_okD(3) [of s i] starts_okD(4) [of s] by (simp split: if_splits)

text \<open>The steps of \<open>stop\<close>.\<close>

lemma life_inv_pc:
  assumes "life_inv s" and "past (pcn c) s" and "pc_ok c" and "l_stop s \<noteq> Stopped"
  shows "life_inv (s\<lparr>l_stop := c\<rparr>)"
  using assms by (simp add: life_inv_def)

lemma life_inv_stop:
  assumes inv: "life_inv s" and st: "stop_next (l_stop s) now s = Some s'" and ok: "l_fault s' = None"
    and on: "l_stop s \<noteq> Serving \<or> (\<forall>j < 4. l_starter s j = Dead)"
  shows "life_inv s'"
proof -
  have I: "starts_ok s" "table_ok s" "pc_ok (l_stop s)" "past (pcn (l_stop s)) s" "l_main s \<longrightarrow> l_stop s = Stopped"
    using inv by (simp_all add: life_inv_def)
  show ?thesis
  proof (cases "l_stop s")
    case Serving
    then have d: "\<forall>j < 4. l_starter s j = Dead" using on by simp
    then have n: "l_netx s \<noteq> Unborn" using I(1) by (simp add: starts_ok_def)
    have s': "s' = (wake s)\<lparr>l_running := False, l_notify := True, l_service := False, l_stop := JoinNetx\<rparr>"
      using st ok Serving n by (auto simp: PacketHandler_stop_def split: if_splits)
    have "past (Suc 0) s'" unfolding past_Suc s' using d by (simp add: passed_def wake_def)
    with I Serving show ?thesis unfolding s' by (simp add: wake_def life_inv_def starts_ok_def table_ok_def)
  next
    case JoinNetx
    then have "past 2 s" "s' = s\<lparr>l_stop := JoinConsumer\<rparr>"
      using st I(4) past_Suc [of 1 s] by (auto simp: passed_def numeral_2_eq_2 split: if_splits)
    with JoinNetx inv show ?thesis by (simp add: life_inv_pc)
  next
    case JoinConsumer
    then have "past 3 s" "s' = s\<lparr>l_stop := StopFlows\<rparr>"
      using st I(4) past_Suc [of 2 s] by (auto simp: passed_def split: if_splits)
    with JoinConsumer inv show ?thesis by (simp add: life_inv_pc)
  next
    case StopFlows
    then have s': "s' = (s\<lparr>l_ft := (l_ft s)\<lparr>ft_running := False\<rparr>\<rparr>)\<lparr>l_stop := JoinCleanup\<rparr>" using st by simp
    have d: "l_starter s 2 = Dead" using pastD(1) [OF I(4), of 2] StopFlows by simp
    have p: "past 3 (s\<lparr>l_ft := (l_ft s)\<lparr>ft_running := False\<rparr>\<rparr>)"
      by (rule past_mono [of _ s]) (use I(4) StopFlows in simp_all)
    then have "past 4 s'" using past_Suc [of 3] unfolding s' by (simp add: passed_def)
    with I d StopFlows show ?thesis unfolding s' by (simp add: life_inv_def starts_ok_def table_ok_def tab_field)
  next
    case JoinCleanup
    then have p: "past 4 s" and d: "l_starter s 2 = Dead" using I(4) pastD(1) [OF I(4), of 2] by simp_all
    then have t: "tab (l_ft s)" "\<not> ft_running (l_ft s)" using table_started(1) [OF inv d] pastD(5) [OF p] by simp_all
    from tab_stop [OF t, of now] obtain ft' where ft: "FlowTable_stop now (l_ft s) = Inr ft'" "tab ft'"
      "\<not> ft_running ft'" "conn_table ft' = []" "dpQueue ft' = dpQueue (l_ft s) @ [exit_flow_data]"
      "dpiQueues ft' = map (\<lambda>q. q @ [exit_metadata]) (dpiQueues (l_ft s))" by blast
    have c: "l_cleanup s = Dead" and s': "s' = (s\<lparr>l_ft := ft'\<rparr>)\<lparr>l_stop := JoinDpi 0\<rparr>"
      using st ok JoinCleanup ft(1) by (auto simp: on_table_def split: if_splits)
    have "i < length (dpiQueues (l_ft s))" if "l_dpi s i = Alive" for i
      using dpi_alive_index [OF I(1) that] t(1) by (simp add: tab_def)
    then have x: "exits_due s'" using ft c by (auto simp: s' exits_due_def exit_metadata_def exit_flow_data_def)
    have "past 4 (s\<lparr>l_ft := ft'\<rparr>)" by (rule past_mono [of _ s]) (use p ft in simp_all)
    with x have "past 5 s'" using past_Suc [of 4] unfolding s' by (simp add: passed_def)
    with I d ft(2) JoinCleanup show ?thesis unfolding s' by (simp add: life_inv_def starts_ok_def table_ok_def)
  next
    case (JoinDpi i)
    show ?thesis
    proof (cases "i = dpi_instances")
      case True
      then have "past 10 s" using past_Suc [of 9 s] I(4) JoinDpi by (simp add: passed_def dpi_instances_def)
      moreover have "s' = s\<lparr>l_stop := JoinDataPath\<rparr>" using True JoinDpi st by (simp add: DPIEngine_stop_join_def)
      ultimately show ?thesis using JoinDpi inv by (simp add: life_inv_pc)
    next
      case False
      then have "l_dpi s i = Dead" "s' = s\<lparr>l_stop := JoinDpi (i + 1)\<rparr>" and i: "i < dpi_instances"
        using JoinDpi st ok I(3) by (auto simp: DPIEngine_stop_join_def split: if_splits)
      moreover have "past (Suc (5 + i)) s" using I(4) JoinDpi calculation i unfolding past_Suc by (simp add: passed_def)
      ultimately show ?thesis using JoinDpi inv by (simp add: life_inv_pc)
    qed
  next
    case JoinDataPath
    then have "past 11 s" "s' = s\<lparr>l_stop := JoinStarter 0\<rparr>"
      using st ok I(4) past_Suc [of 10 s] by (auto simp: passed_def dpi_instances_def split: if_splits)
    with JoinDataPath inv show ?thesis by (simp add: life_inv_pc)
  next
    case (JoinStarter j)
    have "passed (Suc (11 + j)) s" by (simp add: passed_def dpi_instances_def)
    then have p: "past (12 + j) s" using I(4) JoinStarter past_Suc [of "11 + j" s] by simp
    then have "j = 4 \<Longrightarrow> past 16 s" by simp
    with p JoinStarter st ok inv I(3) show ?thesis
      by (auto simp: join_starter_def life_inv_pc split: if_splits)
  next
    case Stopped
    with st show ?thesis by simp
  qed
qed

lemma life_inv_starter:
  assumes inv: "life_inv s" and a: "l_starter s j = Alive" and sv: "l_stop s = Serving"
  shows "life_inv (starter_body j s\<lparr>l_starter := (l_starter s)(j := Dead)\<rparr>)"
proof -
  have I: "starts_ok s" "table_ok s" "\<not> l_main s" using inv sv by (simp_all add: life_inv_def)
  have j: "j < l_th s" "l_th s \<le> 4" using starts_okD(1) [OF I(1)] starts_okD(2) [OF I(1), of j] a by simp_all
  have S: "l_starter s k \<noteq> Unborn \<longleftrightarrow> k < l_th s" for k using I(1) by (simp add: starts_ok_def)
  consider "j = 0" | "j = 1" | "j = 2" | "j = 3" using j by linarith
  then show ?thesis
  proof cases
    case 1
    with I S a sv j(1) show ?thesis
      by (simp add: life_inv_def starts_ok_def table_ok_def starter_body_def PacketHandler_start_def)
  next
    case 2
    with I S a sv j(1) show ?thesis
      by (simp add: life_inv_def starts_ok_def table_ok_def starter_body_def DPIEngine_start_def)
  next
    case 3
    then have "l_ft s = FlowTable_new (int dpi_instances)" using I(2) a by (simp add: table_ok_def)
    with 3 I S a sv j(1) tab_start show ?thesis
      by (simp add: life_inv_def starts_ok_def table_ok_def starter_body_def FlowTable_starter_def)
  next
    case 4
    with I S a sv j(1) show ?thesis
      by (simp add: life_inv_def starts_ok_def table_ok_def starter_body_def DataPathUpdate_start_def)
  qed
qed

lemma life_inv_step:
  assumes inv: "life_inv s" and st: "life_step False s s'" and ok: "l_fault s' = None"
  shows "life_inv s'"
proof -
  have sv: "l_stop s = Serving" if "\<exists>j < 4. l_starter s j \<noteq> Dead"
    using that inv pastD(1) [of "pcn (l_stop s)" s] by (cases "l_stop s") (auto simp: life_inv_def)
  have S: "l_starter s j \<noteq> Unborn \<longleftrightarrow> j < l_th s" "l_th s \<le> 4" for j
    using inv by (simp_all add: life_inv_def starts_ok_def)
  from st show ?thesis
  proof cases
    case main_creates
    have "past (pcn (l_stop s)) (s\<lparr>l_objects := True\<rparr>)"
      by (rule past_mono [of _ s]) (use inv in \<open>simp_all add: life_inv_def exits_due_def\<close>)
    with inv main_creates(1) show ?thesis by (simp add: life_inv_def starts_ok_def table_ok_def)
  next
    case main_spawns
    have "l_starter s (l_th s) = Unborn" using S(1) by blast
    then have "l_stop s = Serving" using main_spawns by (intro sv) auto
    moreover have "((l_starter s)(l_th s := Alive)) k = Dead \<longleftrightarrow> l_starter s k = Dead"
      "((l_starter s)(l_th s := Alive)) k \<noteq> Unborn \<longleftrightarrow> k < l_th s + 1" for k
      using S(1) [of k] \<open>l_starter s (l_th s) = Unborn\<close> by (auto simp: less_Suc_eq)
    ultimately show ?thesis using main_spawns inv
      by (simp add: life_inv_def starts_ok_def table_ok_def del: fun_upd_apply)
  next
    case main_returns
    with inv show ?thesis by (simp add: life_inv_def)
  next
    case (starter_runs j)
    have "j < 4" using S(1) [of j] S(2) starter_runs(2) by simp
    then have "l_stop s = Serving" using starter_runs(2) by (intro sv exI [of _ j]) simp
    with life_inv_starter [OF inv starter_runs(2)] starter_runs(1) show ?thesis by simp
  next
    case (stop_runs now)
    with inv ok life_inv_stop show ?thesis by blast
  next
    case worker
    with inv ok life_inv_work show ?thesis by blast
  qed
qed

lemma life_reachable_inv:
  "life_reachable False s \<Longrightarrow> l_fault s = None \<Longrightarrow> life_inv s"
proof (induction rule: life_reachable.induct)
  case init
  show ?case by (rule life_inv_init)
next
  case (step s s')
  then show ?case using life_inv_step by blast
qed

end
