(* ===== verification/Life_Progress.thy ===== *)
theory Life_Progress
  imports Life_Props
begin

text \<open>
  Shutting the process down, step by step: that it goes on until it ends or the thread it waits for is \<open>blocked\<close>
  (\<open>progress\<close>), and that after the packet threads have ended every step brings the end nearer (\<open>late_step\<close>).
\<close>

section \<open>Progress\<close>

text \<open>\<open>stop\<close> waits for a thread that need not see the request: the service thread that enters its loop
  late or spins on a full queue, or the consumer that is past its test of \<open>notify\<close> (it waits although \<open>notify\<close> is
  set, or it clears \<open>notify\<close> after \<open>stop\<close> has set it).\<close>

definition blocked :: "life \<Rightarrow> bool" where
  "blocked s \<longleftrightarrow>
     (l_stop s = JoinNetx \<and> l_netx s = Alive \<and>
        (l_service s \<or> \<not> l_loop s \<or> l_held s \<noteq> None \<and> pktq_cap \<le> length (l_pktq s))) \<or>
     (l_stop s = JoinConsumer \<and> l_consumer s = Alive \<and> (l_phase s \<noteq> Checking \<or> \<not> l_notify s))"

text \<open>What the thread \<open>stop\<close> waits for still has to do.\<close>

fun pending :: "stop_pc \<Rightarrow> life \<Rightarrow> nat" where
  "pending JoinNetx s = of_bool (l_netx s = Alive) + of_bool (l_held s \<noteq> None)"
| "pending JoinConsumer s = of_bool (l_consumer s = Alive)"
| "pending JoinCleanup s = of_bool (l_cleanup s = Alive)"
| "pending (JoinDpi i) s = (if l_dpi s i = Alive then Suc (length (dpiQueues (l_ft s) ! i)) else 0)"
| "pending JoinDataPath s = (if l_datapath s = Alive then Suc (length (dpQueue (l_ft s))) else 0)"
| "pending _ s = 0"

definition rank :: "life \<Rightarrow> nat \<times> nat" where
  "rank s = (16 - pcn (l_stop s), pending (l_stop s) s)"

definition closer :: "life \<Rightarrow> life \<Rightarrow> bool" where
  "closer s' s \<longleftrightarrow> (rank s', rank s) \<in> less_than <*lex*> less_than"

lemma closer_pc: "l_stop s' = c \<Longrightarrow> pcn (l_stop s) < pcn c \<Longrightarrow> pcn c \<le> 16 \<Longrightarrow> closer s' s"
  by (auto simp: closer_def rank_def intro: diff_less_mono2)

lemma closer_pending: "l_stop s' = l_stop s \<Longrightarrow> pending (l_stop s) s' < pending (l_stop s) s \<Longrightarrow> closer s' s"
  by (simp add: closer_def rank_def)

lemma wf_closer: "wfP closer"
proof -
  have "wf (inv_image (less_than <*lex*> less_than) rank)" by (intro wf_inv_image wf_lex_prod wf_less_than)
  moreover have "{(s', s). closer s' s} = inv_image (less_than <*lex*> less_than) rank"
    by (auto simp: closer_def inv_image_def)
  ultimately show ?thesis by (simp add: wfp_def)
qed

text \<open>A thread or the handler makes a step on the way to the end.\<close>

definition goes_on :: "life \<Rightarrow> bool" where
  "goes_on s \<longleftrightarrow> (\<exists>s'. life_step False s s' \<and> (l_fault s' = None \<and> closer s' s \<or> l_fault s' = Some UseAfterFree))"

lemma goes_on_stop:
  assumes "stop_next (l_stop s) now s = Some s'" and "l_stop s \<noteq> Serving" and "l_fault s' = None" and "closer s' s"
  shows "goes_on s"
  using assms stop_runs [of False s now s'] by (auto simp: goes_on_def)

lemma goes_on_pc:
  assumes "stop_next (l_stop s) 0 s = Some (s'\<lparr>l_stop := c\<rparr>)" and "l_stop s \<noteq> Serving" and "l_fault s' = None"
    and "pcn (l_stop s) < pcn c" and "pcn c \<le> 16"
  shows "goes_on s"
  using assms goes_on_stop [OF assms(1,2)] closer_pc [of "s'\<lparr>l_stop := c\<rparr>" c s] by simp

lemma goes_on_work:
  assumes "work_step s s'" and "l_fault s' = None" and "closer s' s"
  shows "goes_on s"
  using assms worker by (auto simp: goes_on_def)

text \<open>A DPI thread with a message in its queue.\<close>

lemma Dequeue_iter_message:
  assumes "tab ft" and "i < dpi_instances" and "dpiQueues ft ! i = m # rest"
  obtains ft' where "Dequeue_iter E now g i ft = Inr (Left ft')" "dpiQueues ft' ! i = rest"
  | ft' calls where "md_exit_flag m = 0" "Dequeue_iter E now g i ft = Inr (Again ft' calls)" "dpiQueues ft' ! i = rest"
  | "md_exit_flag m = 0" "Dequeue_iter E now g i ft = Inl UseAfterFree"
proof (cases "md_exit_flag m = 0")
  case False
  with assms that(1) show thesis by (auto simp: Dequeue_iter_def Let_def tab_def)
next
  case True
  have t: "ft_inv ft" "refs_inv ft" and l: "i < length (dpiQueues ft)" using assms(1,2) by (simp_all add: tab_def)
  have "m \<in> set (dpiQueues ft ! i)" using assms(3) by simp
  from refs_invE [OF t(2) l this True] obtain a where a: "md_info m = Some a" by metis
  show thesis
  proof (cases "a \<in> n_addr ` set (conn_table ft)")
    case True': True
    then obtain n where "n \<in> set (conn_table ft)" "md_info m = Some (n_addr n)" using a by auto
    from Dequeue_iter_live [OF t l assms(3) True this, of E now g] True l that(2) show thesis by auto
  next
    case False
    from Dequeue_iter_dangling [OF t(1) l assms(3) True a False] True that(3) show thesis by blast
  qed
qed

lemma progress_dpi:
  assumes inv: "life_inv s" and ok: "l_fault s = None" and c: "l_stop s = JoinDpi i"
  shows "goes_on s"
proof -
  have I: "starts_ok s" "i \<le> dpi_instances" "past (5 + i) s" using inv c by (simp_all add: life_inv_def)
  have "l_starter s 1 = Dead" using pastD(1) [OF I(3), of 1] by simp
  then have n: "l_dpithreads s = dpi_instances" using starts_okD(4) [OF I(1)] by simp
  consider "i = dpi_instances \<or> l_dpi s i = Dead" | "i < dpi_instances" "l_dpi s i = Alive"
    using I(2) starts_okD(3) [OF I(1), of i] n by (cases "l_dpi s i") auto
  then show ?thesis
  proof cases
    case 1
    let ?c = "if i = dpi_instances then JoinDataPath else JoinDpi (i + 1)"
    have "stop_next (l_stop s) 0 s = Some (s\<lparr>l_stop := ?c\<rparr>)" using 1 c n I(2) by (auto simp: DPIEngine_stop_join_def)
    then show ?thesis by (rule goes_on_pc) (use c ok I(2) in \<open>simp_all add: dpi_instances_def\<close>)
  next
    case 2
    have d: "l_starter s 2 = Dead" using pastD(1) [OF I(3), of 2] by simp
    note t = table_started(1) [OF inv d]
    have l: "i < length (dpiQueues (l_ft s))" using 2 t by (simp add: tab_def)
    have "exits_due s" using pastD(6) [OF I(3)] by simp
    then have "dpiQueues (l_ft s) ! i \<noteq> []" using 2(2) by (auto simp: exits_due_def)
    then obtain m rest where q: "dpiQueues (l_ft s) ! i = m # rest" by (cases "dpiQueues (l_ft s) ! i") auto
    show ?thesis
    proof (cases rule: Dequeue_iter_message [OF t 2(1) q, of undefined 0 0])
      case (1 ft')
      from dpi_ends [OF 2(2) l 1(1)] show ?thesis
        by (rule goes_on_work) (use ok c q 2 1(2) in \<open>auto intro!: closer_pending\<close>)
    next
      case (2 ft' calls)
      from dpi_goes [OF \<open>l_dpi s i = Alive\<close> l 2(2)] show ?thesis
        by (rule goes_on_work) (use ok c q 2(3) \<open>l_dpi s i = Alive\<close> in \<open>auto intro!: closer_pending\<close>)
    next
      case 3
      from worker [OF dpi_fault [OF 2(2) l 3(2)], of False] show ?thesis by (auto simp: goes_on_def)
    qed
  qed
qed

lemma progress_datapath:
  assumes inv: "life_inv s" and ok: "l_fault s = None" and c: "l_stop s = JoinDataPath"
  shows "goes_on s"
proof -
  have I: "starts_ok s" "past 10 s" using inv c by (simp_all add: life_inv_def)
  have "l_starter s 3 = Dead" using pastD(1) [OF I(2), of 3] by simp
  then consider "l_datapath s = Dead" | "l_datapath s = Alive"
    using starts_okD(6) [OF I(1)] by (cases "l_datapath s") auto
  then show ?thesis
  proof cases
    case 1
    then show ?thesis using c ok by (intro goes_on_pc [where c = "JoinStarter 0" and s' = s]) simp_all
  next
    case 2
    have "exits_due s" using pastD(6) [OF I(2)] by simp
    then obtain x xs where q: "dpQueue (l_ft s) = x # xs" using 2 by (cases "dpQueue (l_ft s)") (auto simp: exits_due_def)
    then have "wq_pop (dpQueue (l_ft s)) = Some (x, xs)" by simp
    from datapath_takes [OF 2 this] show ?thesis
      by (rule goes_on_work) (use ok c q 2 in \<open>auto intro!: closer_pending\<close>)
  qed
qed

lemma progress:
  assumes inv: "life_inv s" and ok: "l_fault s = None" and "l_stop s \<noteq> Serving" and "l_stop s \<noteq> Stopped" and "\<not> blocked s"
  shows "goes_on s"
proof -
  have I: "starts_ok s" "past (pcn (l_stop s)) s" "pc_ok (l_stop s)" using inv by (simp_all add: life_inv_def)
  have p: "past 1 s" using past_le [OF I(2), of 1] assms(3) by (cases "l_stop s") auto
  have d: "l_starter s j = Dead" if "j < 4" for j using pastD(1) [OF p] that by simp
  show ?thesis
  proof (cases "l_stop s")
    case JoinNetx
    have "l_netx s \<noteq> Unborn" using starts_okD(7) [OF I(1)] d by simp
    then consider "l_netx s = Dead" | "l_netx s = Alive" by (cases "l_netx s") auto
    then show ?thesis
    proof cases
      case 1
      then show ?thesis using JoinNetx ok by (intro goes_on_pc [where c = JoinConsumer and s' = s]) simp_all
    next
      case 2
      with assms(5) JoinNetx have a: "l_loop s" "\<not> l_service s" "l_held s = None \<or> length (l_pktq s) < pktq_cap"
        by (auto simp: blocked_def)
      show ?thesis
      proof (cases "l_held s")
        case None
        from service_ends [OF 2 a(1) None a(2)] show ?thesis
          by (rule goes_on_work) (use JoinNetx ok 2 None in \<open>auto intro!: closer_pending\<close>)
      next
        case (Some q)
        with a(3) have "length (l_pktq s) < pktq_cap" by simp
        from service_writes [OF 2 Some this] show ?thesis
          by (rule goes_on_work) (use JoinNetx ok 2 Some in \<open>auto simp: wake_def intro!: closer_pending\<close>)
      qed
    qed
  next
    case JoinConsumer
    have "l_consumer s \<noteq> Unborn" using starts_okD(8) [OF I(1)] d by simp
    then consider "l_consumer s = Dead" | "l_consumer s = Alive" by (cases "l_consumer s") auto
    then show ?thesis
    proof cases
      case 1
      then show ?thesis using JoinConsumer ok by (intro goes_on_pc [where c = StopFlows and s' = s]) simp_all
    next
      case 2
      with assms(5) JoinConsumer have a: "l_phase s = Checking" "l_notify s" by (auto simp: blocked_def)
      have "\<not> l_running s" using pastD(2) [OF p] by simp
      from consumer_ends [OF 2 a this] show ?thesis
        by (rule goes_on_work) (use JoinConsumer ok 2 in \<open>auto intro!: closer_pending\<close>)
    qed
  next
    case StopFlows
    then show ?thesis using ok
      by (intro goes_on_pc [where c = JoinCleanup and s' = "s\<lparr>l_ft := (l_ft s)\<lparr>ft_running := False\<rparr>\<rparr>"]) simp_all
  next
    case JoinCleanup
    have r: "\<not> ft_running (l_ft s)" using pastD(5) [OF I(2)] JoinCleanup by simp
    have "l_cleanup s \<noteq> Unborn" using starts_okD(5) [OF I(1)] d by simp
    then consider "l_cleanup s = Dead" | "l_cleanup s = Alive" by (cases "l_cleanup s") auto
    then show ?thesis
    proof cases
      case 1
      have "tab (l_ft s)" using table_started(1) [OF inv d] by simp
      from tab_stop [OF this r, of 0] obtain ft' where "FlowTable_stop 0 (l_ft s) = Inr ft'" by blast
      with 1 show ?thesis using JoinCleanup ok
        by (intro goes_on_pc [where c = "JoinDpi 0" and s' = "s\<lparr>l_ft := ft'\<rparr>"]) (simp_all add: on_table_def)
    next
      case 2
      have "FlowTableCleanup_round 0 (l_ft s) = Inr None" using r by (simp add: FlowTableCleanup_round_def)
      from cleanup_ends [OF 2 this] show ?thesis
        by (rule goes_on_work) (use JoinCleanup ok 2 in \<open>auto intro!: closer_pending\<close>)
    qed
  next
    case (JoinStarter j)
    have "l_th s = 4" using starts_okD(1) [OF I(1)] starts_okD(2) [OF I(1), of 3] d [of 3] by simp
    then have "stop_next (l_stop s) 0 s = Some (s\<lparr>l_stop := if j = 4 then Stopped else JoinStarter (j + 1)\<rparr>)"
      using JoinStarter I(3) d by (auto simp: join_starter_def)
    then show ?thesis by (rule goes_on_pc) (use JoinStarter I(3) ok in simp_all)
  qed (use assms progress_dpi progress_datapath in auto)
qed

section \<open>Every step brings the end nearer\<close>

definition dpi_left :: "life \<Rightarrow> nat" where
  "dpi_left s = (\<Sum>i<dpi_instances. length (dpiQueues (l_ft s) ! i) + of_bool (l_dpi s i = Alive))"

definition other_left :: "life \<Rightarrow> nat" where
  "other_left s = length (dpQueue (l_ft s)) + of_bool (l_datapath s = Alive) + of_bool (l_cleanup s = Alive)"

definition work_left :: "life \<Rightarrow> nat \<times> nat \<times> nat" where
  "work_left s = (16 - pcn (l_stop s) + of_bool (\<not> l_main s), dpi_left s, other_left s)"

definition nearer :: "life \<Rightarrow> life \<Rightarrow> bool" where
  "nearer s' s \<longleftrightarrow> (work_left s', work_left s) \<in> less_than <*lex*> less_than <*lex*> less_than"

lemma wf_nearer: "wfP nearer"
proof -
  have "wf (inv_image (less_than <*lex*> less_than <*lex*> less_than) work_left)"
    by (intro wf_inv_image wf_lex_prod wf_less_than)
  moreover have "{(s', s). nearer s' s} = inv_image (less_than <*lex*> less_than <*lex*> less_than) work_left"
    by (auto simp: nearer_def inv_image_def)
  ultimately show ?thesis by (simp add: wfp_def)
qed

lemma nearer_pc: "l_main s' = l_main s \<Longrightarrow> pcn (l_stop s) < pcn (l_stop s') \<Longrightarrow> pcn (l_stop s') \<le> 16 \<Longrightarrow> nearer s' s"
  by (auto simp: nearer_def work_left_def)

lemma nearer_other:
  "l_main s' = l_main s \<Longrightarrow> l_stop s' = l_stop s \<Longrightarrow> dpi_left s' = dpi_left s \<Longrightarrow> other_left s' < other_left s \<Longrightarrow> nearer s' s"
  by (simp add: nearer_def work_left_def)

lemma nearer_dpi:
  assumes "l_main s' = l_main s" and "l_stop s' = l_stop s" and "i < dpi_instances"
    and "i < length (dpiQueues (l_ft s))" and "dpiQueues (l_ft s) ! i = m # rest"
    and "dpiQueues (l_ft s') = (dpiQueues (l_ft s))[i := rest]"
    and "\<And>k. l_dpi s' k = Alive \<Longrightarrow> l_dpi s k = Alive"
  shows "nearer s' s"
proof -
  have "dpi_left s' < dpi_left s"
    unfolding dpi_left_def
  proof (rule sum_strict_mono_ex1)
    show "\<forall>k \<in> {..<dpi_instances}. length (dpiQueues (l_ft s') ! k) + of_bool (l_dpi s' k = Alive)
        \<le> length (dpiQueues (l_ft s) ! k) + of_bool (l_dpi s k = Alive)"
      using assms(4-7) by (auto simp: nth_list_update)
    show "\<exists>k \<in> {..<dpi_instances}. length (dpiQueues (l_ft s') ! k) + of_bool (l_dpi s' k = Alive)
        < length (dpiQueues (l_ft s) ! k) + of_bool (l_dpi s k = Alive)"
      using assms(3-7) by (intro bexI [of _ i]) auto
  qed simp
  with assms(1,2) show ?thesis by (simp add: nearer_def work_left_def)
qed

text \<open>No message that refers to a flow is left in the queues of the DPI threads.\<close>

definition drained :: "life \<Rightarrow> bool" where
  "drained s \<longleftrightarrow> (\<forall>q \<in> set (dpiQueues (l_ft s)). \<forall>m \<in> set q. md_exit_flag m \<noteq> 0)"

text \<open>What a step may do once \<open>stop\<close> waits for the cleanup thread or is past it.\<close>

definition nears :: "life \<Rightarrow> life \<Rightarrow> bool" where
  "nears s s' \<longleftrightarrow> l_fault s' = None \<and> nearer s' s \<and> (drained s \<longrightarrow> drained s') \<or>
     l_fault s' = Some UseAfterFree \<and> \<not> drained s"

lemma late_facts:
  assumes "life_inv s" and "4 \<le> pcn (l_stop s)"
  shows "\<forall>j. l_starter s j \<noteq> Alive" "l_th s = 4" "l_objects s" "l_netx s = Dead" "l_consumer s = Dead"
    "\<not> ft_running (l_ft s)" "tab (l_ft s)" "l_starter s 2 = Dead"
proof -
  have I: "starts_ok s" "past (pcn (l_stop s)) s" using assms(1) by (simp_all add: life_inv_def)
  have d: "l_starter s j = Dead" if "j < 4" for j using pastD(1) [OF I(2)] assms(2) that by simp
  show n: "l_th s = 4" using starts_okD(1) [OF I(1)] starts_okD(2) [OF I(1), of 3] d [of 3] by simp
  show "\<forall>j. l_starter s j \<noteq> Alive"
    using starts_okD(2) [OF I(1)] n d by (metis tstate.distinct(1,5))
  show "l_objects s" using I(1) n by (simp add: starts_ok_def)
  show "l_netx s = Dead" "l_consumer s = Dead" "\<not> ft_running (l_ft s)"
    using pastD(3,4,5) [OF I(2)] assms(2) by simp_all
  show "tab (l_ft s)" "l_starter s 2 = Dead" using table_started(1) [OF assms(1)] d by simp_all
qed

lemma late_dpi:
  assumes inv: "life_inv s" and l: "4 \<le> pcn (l_stop s)" and ok: "l_fault s = None"
    and a: "l_dpi s i = Alive"
  shows "Dequeue_iter E now g i (l_ft s) = Inr (Again ft' calls) \<Longrightarrow> nears s (s\<lparr>l_ft := ft'\<rparr>)"
    and "Dequeue_iter E now g i (l_ft s) = Inr (Left ft') \<Longrightarrow> nears s (s\<lparr>l_ft := ft', l_dpi := (l_dpi s)(i := Dead)\<rparr>)"
    and "Dequeue_iter E now g i (l_ft s) = Inl e \<Longrightarrow> nears s (fail e s)"
proof -
  note t = late_facts(7) [OF inv l]
  have i: "i < dpi_instances" using dpi_alive_index [OF _ a] inv by (simp add: life_inv_def)
  then have i': "i < length (dpiQueues (l_ft s))" using t by (simp add: tab_def)
  have pop: "drained s \<Longrightarrow> drained s'" if "dpiQueues (l_ft s) ! i = m # rest"
    "dpiQueues (l_ft s') = (dpiQueues (l_ft s))[i := rest]" for m rest s'
    using that i' unfolding drained_def
    by (metis in_set_conv_nth length_list_update list.set_intros(2) nth_list_update nth_list_update_neq nth_mem)
  show "nears s (s\<lparr>l_ft := ft'\<rparr>)" if it: "Dequeue_iter E now g i (l_ft s) = Inr (Again ft' calls)"
  proof -
    from tab_dpi [OF t it] obtain m rest where q: "dpiQueues (l_ft s) ! i = m # rest"
      "dpiQueues ft' = (dpiQueues (l_ft s))[i := rest]" by auto
    then have "nearer (s\<lparr>l_ft := ft'\<rparr>) s" by (intro nearer_dpi [OF _ _ i i' q(1)]) simp_all
    with pop [OF q(1), of "s\<lparr>l_ft := ft'\<rparr>"] q ok show ?thesis by (simp add: nears_def)
  qed
  show "nears s (s\<lparr>l_ft := ft', l_dpi := (l_dpi s)(i := Dead)\<rparr>)" (is "nears s ?s")
    if it: "Dequeue_iter E now g i (l_ft s) = Inr (Left ft')"
  proof -
    from tab_dpi_left [OF t it] obtain m rest where q: "dpiQueues (l_ft s) ! i = m # rest"
      "dpiQueues ft' = (dpiQueues (l_ft s))[i := rest]" by auto
    then have "nearer ?s s" by (intro nearer_dpi [OF _ _ i i' q(1)]) (simp_all split: if_splits)
    with pop [OF q(1), of ?s] q ok show ?thesis by (simp add: nears_def)
  qed
  show "nears s (fail e s)" if it: "Dequeue_iter E now g i (l_ft s) = Inl e"
  proof -
    have "dpiQueues (l_ft s) ! i \<noteq> []" using it i' by (auto simp: Dequeue_iter_def)
    then obtain m rest where q: "dpiQueues (l_ft s) ! i = m # rest" by (cases "dpiQueues (l_ft s) ! i") auto
    then have "m \<in> set (dpiQueues (l_ft s) ! i)" "dpiQueues (l_ft s) ! i \<in> set (dpiQueues (l_ft s))"
      using nth_mem [OF i'] by simp_all
    moreover have "e = UseAfterFree \<and> md_exit_flag m = 0"
      by (rule Dequeue_iter_message [OF t i q, of E now g]) (use it in simp_all)
    ultimately show ?thesis by (auto simp: nears_def drained_def)
  qed
qed

lemma late_stop:
  assumes inv: "life_inv s" and l: "4 \<le> pcn (l_stop s)" and ok: "l_fault s = None"
    and st: "stop_next (l_stop s) now s = Some s'"
  shows "nears s s'"
proof -
  have I: "starts_ok s" "pc_ok (l_stop s)" "past (pcn (l_stop s)) s" using inv by (simp_all add: life_inv_def)
  note L = late_facts [OF inv l]
  have d: "l_starter s j = Dead" if "j < 4" for j using pastD(1) [OF I(3)] l that by simp
  have pc: "nears s (s\<lparr>l_stop := c\<rparr>)" if "pcn (l_stop s) < pcn c" "pcn c \<le> 16" for c
    using that ok nearer_pc [of "s\<lparr>l_stop := c\<rparr>" s] by (simp add: nears_def drained_def)
  show ?thesis
  proof (cases "l_stop s")
    case JoinCleanup
    from tab_stop [OF L(7,6), of now] obtain ft' where ft: "FlowTable_stop now (l_ft s) = Inr ft'"
      "dpiQueues ft' = map (\<lambda>q. q @ [exit_metadata]) (dpiQueues (l_ft s))" by blast
    have c: "l_cleanup s \<noteq> Unborn" using starts_okD(5) [OF I(1)] d by simp
    then have s': "s' = s\<lparr>l_stop := JoinDpi 0, l_ft := ft'\<rparr>"
      using st JoinCleanup ft(1) by (auto simp: on_table_def split: if_splits)
    have "nearer s' s" unfolding s' by (rule nearer_pc) (use JoinCleanup in simp_all)
    with ok ft(2) show ?thesis by (auto simp: s' nears_def drained_def exit_metadata_def)
  next
    case (JoinDpi i)
    have "l_dpithreads s = dpi_instances" using starts_okD(4) [OF I(1)] d by simp
    with st JoinDpi I(2) pc [of JoinDataPath] pc [of "JoinDpi (i + 1)"] show ?thesis
      by (auto simp: DPIEngine_stop_join_def dpi_instances_def split: if_splits)
  next
    case JoinDataPath
    have "l_datapath s \<noteq> Unborn" using starts_okD(6) [OF I(1)] d by simp
    with st JoinDataPath pc [of "JoinStarter 0"] show ?thesis by (simp split: if_splits)
  next
    case (JoinStarter j)
    with st L(2) I(2) pc [of Stopped] pc [of "JoinStarter (j + 1)"] show ?thesis
      by (auto simp: join_starter_def split: if_splits)
  qed (use l st in simp_all)
qed

lemma late_step:
  assumes inv: "life_inv s" and l: "4 \<le> pcn (l_stop s)" and ok: "l_fault s = None" and st: "life_step False s s'"
  shows "nears s s'"
proof -
  note L = late_facts [OF inv l]
  have round: "FlowTableCleanup_round now (l_ft s) = Inr None" for now using L(6) by (simp add: FlowTableCleanup_round_def)
  from st show ?thesis
  proof cases
    case main_returns
    with ok show ?thesis by (simp add: nears_def nearer_def work_left_def drained_def)
  next
    case (stop_runs now)
    then show ?thesis using late_stop [OF inv l ok] by blast
  next
    case worker
    then show ?thesis
    proof cases
      case (cleanup_ends now)
      have "nearer s' s" unfolding cleanup_ends(1)
        by (rule nearer_other) (use cleanup_ends(2) in \<open>simp_all add: dpi_left_def other_left_def\<close>)
      with ok cleanup_ends(1) show ?thesis by (simp add: nears_def drained_def)
    next
      case (datapath_takes x xs)
      have "dpQueue (l_ft s) = x # xs" using datapath_takes(3) by (cases "dpQueue (l_ft s)") auto
      then have "nearer s' s" unfolding datapath_takes(1)
        by (intro nearer_other) (use datapath_takes(2) in \<open>simp_all add: dpi_left_def other_left_def\<close>)
      with ok datapath_takes(1) show ?thesis by (simp add: nears_def drained_def)
    qed (use L round late_dpi [OF inv l ok] in simp_all)
  qed (use L in simp_all)
qed

end
