(* ===== verification/Life_Claims.thy ===== *)
theory Life_Claims
  imports Life_Progress
begin

text \<open>
  What the process promises from start to end: that shutting down goes on and completes, what holds at the
  end, and the interleavings in which \<open>stop\<close> never returns or the process fails.
\<close>

section \<open>Runs\<close>

text \<open>A process that has failed makes no further step.\<close>

definition run_step :: "life \<Rightarrow> life \<Rightarrow> bool" where
  "run_step s s' \<longleftrightarrow> l_fault s = None \<and> life_step False s s'"

text \<open>However the threads are scheduled, a state that satisfies \<open>P\<close> comes.\<close>

inductive comes_to :: "(life \<Rightarrow> bool) \<Rightarrow> life \<Rightarrow> bool" for P where
  now: "P s \<Longrightarrow> comes_to P s"
| later: "\<exists>s'. run_step s s' \<Longrightarrow> (\<And>s'. run_step s s' \<Longrightarrow> comes_to P s') \<Longrightarrow> comes_to P s"

definition clean_end :: "life \<Rightarrow> bool" where
  "clean_end s \<longleftrightarrow> l_main s \<and> l_netx s = Dead \<and> l_consumer s = Dead \<and> l_cleanup s = Dead \<and> l_datapath s = Dead \<and>
     (\<forall>i < dpi_instances. l_dpi s i = Dead) \<and> (\<forall>j < 4. l_starter s j = Dead) \<and> conn_table (l_ft s) = []"

lemma main_clean:
  assumes "life_inv s" and "l_main s"
  shows "clean_end s"
proof -
  have p: "past 16 s" using assms by (auto simp: life_inv_def)
  from pastD(1,3,4,7,8) [OF p] pastD(6) [OF p] assms(2) show ?thesis
    by (simp add: clean_end_def exits_due_def dpi_instances_def)
qed

lemma late_not_blocked: "4 \<le> pcn (l_stop s) \<Longrightarrow> \<not> blocked s"
  by (auto simp: blocked_def)

lemma late_moves:
  assumes inv: "life_inv s" and l: "4 \<le> pcn (l_stop s)" and ok: "l_fault s = None" and m: "\<not> l_main s"
  shows "\<exists>s'. run_step s s'"
proof (cases "l_stop s = Stopped")
  case True
  from main_returns [OF True m, of False] ok show ?thesis by (auto simp: run_step_def)
next
  case False
  moreover have "l_stop s \<noteq> Serving" using l by auto
  ultimately have "goes_on s" using progress [OF inv ok] late_not_blocked [OF l] by blast
  then show ?thesis using ok by (auto simp: goes_on_def run_step_def)
qed

lemma late_pc:
  assumes "life_step False s s'" and "4 \<le> pcn (l_stop s)" and "life_inv s" and "nears s s'" and "l_fault s' = None"
  shows "4 \<le> pcn (l_stop s')"
proof -
  have "16 - pcn (l_stop s') + of_bool (\<not> l_main s') \<le> 16 - pcn (l_stop s) + of_bool (\<not> l_main s)"
    using assms(4,5) by (auto simp: nears_def nearer_def work_left_def)
  moreover have "l_main s' \<Longrightarrow> l_stop s' = Stopped"
    using life_inv_step [OF assms(3,1,5)] by (simp add: life_inv_def)
  ultimately show ?thesis using assms(2) by (cases "l_main s'"; cases "l_main s") auto
qed

lemma late_comes_to:
  assumes "life_inv s" and "4 \<le> pcn (l_stop s)" and "l_fault s = None" and "b \<or> drained s"
  shows "comes_to (\<lambda>t. clean_end t \<or> b \<and> l_fault t = Some UseAfterFree) s"
  using assms
proof (induction s rule: wfp_induct_rule [OF wf_nearer])
  case (1 s)
  show ?case
  proof (cases "l_main s")
    case True
    with main_clean [OF 1(2)] show ?thesis by (intro comes_to.now) simp
  next
    case False
    from late_moves [OF 1(2-4) False] show ?thesis
    proof (rule comes_to.later)
      fix s'
      assume "run_step s s'"
      then have st: "life_step False s s'" by (simp add: run_step_def)
      note n = late_step [OF 1(2-4) st]
      show "comes_to (\<lambda>t. clean_end t \<or> b \<and> l_fault t = Some UseAfterFree) s'"
      proof (cases "l_fault s' = None")
        case True
        with n 1(5) have "nearer s' s" "b \<or> drained s'" by (auto simp: nears_def)
        from 1(1) [OF this(1) life_inv_step [OF 1(2) st True] late_pc [OF st 1(3,2) n True] True this(2)] show ?thesis .
      next
        case False
        with n 1(5) show ?thesis by (intro comes_to.now) (auto simp: nears_def)
      qed
    qed
  qed
qed

section \<open>A run of the process\<close>

text \<open>The states of a run in which all threads start, the service enters its loop, and a signal arrives.\<close>

definition spawn :: "life \<Rightarrow> life" where
  "spawn s = s\<lparr>l_th := l_th s + 1, l_starter := (l_starter s)(l_th s := Alive)\<rparr>"

definition run_starter :: "nat \<Rightarrow> life \<Rightarrow> life" where
  "run_starter j s = starter_body j s\<lparr>l_starter := (l_starter s)(j := Dead)\<rparr>"

definition started :: life where
  "started = run_starter 3 (run_starter 2 (run_starter 1 (run_starter 0
     (spawn (spawn (spawn (spawn (life_init\<lparr>l_objects := True\<rparr>))))))))"

lemma reach_spawn:
  "life_reachable late s \<Longrightarrow> l_fault s = None \<Longrightarrow> l_objects s \<Longrightarrow> l_th s < 4 \<Longrightarrow> life_reachable late (spawn s)"
  unfolding spawn_def by (rule life_reachable.step [OF _ _ main_spawns])

lemma reach_starter:
  "life_reachable late s \<Longrightarrow> l_fault s = None \<Longrightarrow> l_starter s j = Alive \<Longrightarrow> life_reachable late (run_starter j s)"
  unfolding run_starter_def by (rule life_reachable.step [OF _ _ starter_runs])

lemmas start_defs = spawn_def run_starter_def starter_body_def PacketHandler_start_def DPIEngine_start_def
  FlowTable_starter_def DataPathUpdate_start_def

lemma reach_started: "life_reachable late started"
proof -
  have "life_reachable late (life_init\<lparr>l_objects := True\<rparr>)"
    by (rule life_reachable.step [OF life_reachable.init _ main_creates]) (simp_all add: life_init_def)
  then have "life_reachable late (spawn (spawn (spawn (spawn (life_init\<lparr>l_objects := True\<rparr>)))))"
    by (intro reach_spawn) (simp_all add: spawn_def life_init_def)
  then show ?thesis unfolding started_def by (intro reach_starter) (simp_all add: start_defs life_init_def)
qed

lemma started_facts:
  "l_fault started = None" "l_netx started = Alive" "l_loop started = False" "l_held started = None"
  "l_consumer started = Alive" "l_phase started = Checking" "l_notify started = False" "l_running started = True"
  "l_stop started = Serving" "l_objects started" "l_pktq started = []" "l_service started = False"
  "\<forall>j < 4. l_starter started j = Dead" "drained started"
proof -
  have "dpiQueues (l_ft started) = replicate 4 []"
    by (simp add: started_def start_defs life_init_def FlowTable_new_def FlowTable_start_def DPIEngine_new_def dpi_instances_def)
  then show "drained started" by (simp add: drained_def)
  have "\<forall>j < (4::nat). j = 0 \<or> j = 1 \<or> j = 2 \<or> j = 3" by auto
  then show "\<forall>j < 4. l_starter started j = Dead" by (auto simp: started_def start_defs life_init_def)
qed (simp_all add: started_def start_defs life_init_def)

text \<open>Steps of a worker and of \<open>stop\<close>; a signal and the end of the service thread.\<close>

lemma reach_work: "life_reachable late s \<Longrightarrow> l_fault s = None \<Longrightarrow> work_step s s' \<Longrightarrow> life_reachable late s'"
  by (rule life_reachable.step [OF _ _ worker])

lemma reach_stop:
  "life_reachable late s \<Longrightarrow> l_fault s = None \<Longrightarrow> l_stop s \<noteq> Serving \<Longrightarrow> stop_next (l_stop s) 0 s = Some s' \<Longrightarrow>
   life_reachable late s'"
  by (rule life_reachable.step [OF _ _ stop_runs]) simp_all

lemma reach_signal:
  assumes "life_reachable late s" and "l_fault s = None" and "l_stop s = Serving" and "\<forall>j < 4. l_starter s j = Dead"
  shows "life_reachable late (PacketHandler_stop s)"
proof -
  have "stop_next (l_stop s) 0 s = Some (PacketHandler_stop s)" using assms(3) by simp
  from life_reachable.step [OF assms(1,2) stop_runs [OF _ this]] assms(4) show ?thesis by simp
qed

definition at_consumer :: "life \<Rightarrow> life" where
  "at_consumer s = (PacketHandler_stop s)\<lparr>l_netx := Dead, l_stop := JoinConsumer\<rparr>"

lemma reach_at_consumer:
  assumes "life_reachable late s" and "l_fault s = None" and "l_stop s = Serving" and "\<forall>j < 4. l_starter s j = Dead"
    and "l_objects s" and "l_netx s = Alive" and "l_loop s" and "l_held s = None"
  shows "life_reachable late (at_consumer s)"
proof -
  have "l_netx s \<noteq> Unborn" using assms by simp
  note [simp] = PacketHandler_stop_def wake_def
  have "life_reachable late ((PacketHandler_stop s)\<lparr>l_netx := Dead\<rparr>)"
    by (rule reach_work [OF reach_signal [OF assms(1-4)] _ service_ends]) (use assms in simp_all)
  from reach_stop [OF this] show ?thesis using assms by (simp add: at_consumer_def)
qed

definition serving :: life where
  "serving = started\<lparr>l_loop := True, l_service := True\<rparr>"

lemma reach_serving: "life_reachable late serving"
  unfolding serving_def by (rule reach_work [OF reach_started _ service_enters]) (simp_all add: started_facts)

lemma serving_facts:
  "l_fault serving = None" "l_netx serving = Alive" "l_loop serving" "l_held serving = None"
  "l_consumer serving = Alive" "l_phase serving = Checking" "l_running serving"
  "l_stop serving = Serving" "l_objects serving" "l_pktq serving = []"
  "\<forall>j < 4. l_starter serving j = Dead" "drained serving"
  using started_facts by (simp_all add: serving_def drained_def)

definition at_flows :: life where
  "at_flows = (at_consumer serving)\<lparr>l_consumer := Dead, l_stop := StopFlows\<rparr>"

definition at_cleanup :: life where
  "at_cleanup = at_flows\<lparr>l_ft := (l_ft at_flows)\<lparr>ft_running := False\<rparr>, l_stop := JoinCleanup\<rparr>"

lemma reach_at_cleanup:
  "life_reachable late at_cleanup \<and> l_fault at_cleanup = None \<and> l_stop at_cleanup = JoinCleanup \<and> drained at_cleanup"
proof -
  have a: "life_reachable late (at_consumer serving)" by (rule reach_at_consumer [OF reach_serving]) (simp_all add: serving_facts)
  note [simp] = at_consumer_def PacketHandler_stop_def wake_def serving_facts
  have "life_reachable late ((at_consumer serving)\<lparr>l_consumer := Dead\<rparr>)"
    by (rule reach_work [OF a _ consumer_ends]) simp_all
  from reach_stop [OF this] have f: "life_reachable late at_flows" by (simp add: at_flows_def)
  moreover have "l_fault at_flows = None" "l_stop at_flows = StopFlows" "l_ft at_flows = l_ft serving"
    by (simp_all add: at_flows_def)
  ultimately show ?thesis using reach_stop [OF f] serving_facts(12) by (simp add: at_cleanup_def drained_def)
qed

section \<open>A shutdown that never ends\<close>

definition hangs :: "life \<Rightarrow> bool" where
  "hangs s \<longleftrightarrow> l_stop s = JoinConsumer \<and> \<not> l_main s \<and>
     (l_fault s = None \<longrightarrow> life_inv s \<and> l_consumer s = Alive \<and> (l_phase s \<in> {Draining, Clearing} \<or> \<not> l_notify s))"

lemma on_table_frame [simp]:
  "l_stop (on_table r s) = l_stop s" "l_main (on_table r s) = l_main s" "l_consumer (on_table r s) = l_consumer s"
  "l_phase (on_table r s) = l_phase s" "l_notify (on_table r s) = l_notify s"
  by (simp_all add: on_table_def fail_def split: sum.splits)

lemma hangs_step:
  assumes h: "hangs s" and r: "run_step s s'"
  shows "hangs s'"
proof -
  have st: "life_step False s s'" and ok: "l_fault s = None" using r by (simp_all add: run_step_def)
  have H: "l_stop s = JoinConsumer" "\<not> l_main s" "life_inv s" "l_consumer s = Alive"
    "l_phase s \<in> {Draining, Clearing} \<or> \<not> l_notify s" using h ok by (simp_all add: hangs_def)
  have p: "past 2 s" "starts_ok s" using H(1,3) by (simp_all add: life_inv_def)
  have n: "l_netx s = Dead" using pastD(3) [OF p(1)] by simp
  have d: "l_starter s j = Dead" if "j < 4" for j using pastD(1) [OF p(1)] that by simp
  have a: "l_starter s j \<noteq> Alive" for j
    using d [of j] starts_okD(1) [OF p(2)] starts_okD(2) [OF p(2), of j] by (cases "j < 4") auto
  note i = life_inv_step [OF H(3) st]
  have "l_stop s' = JoinConsumer \<and> \<not> l_main s' \<and>
      l_consumer s' = Alive \<and> (l_phase s' \<in> {Draining, Clearing} \<or> \<not> l_notify s')"
    using st
  proof cases
    case worker
    then show ?thesis by cases (use H n in \<open>simp_all add: fail_def\<close>)
  qed (use H a in simp_all)
  with i show ?thesis by (simp add: hangs_def)
qed

lemma hangs_run: "run_step\<^sup>*\<^sup>* s t \<Longrightarrow> hangs s \<Longrightarrow> hangs t"
  by (induction rule: rtranclp_induct) (use hangs_step in blast)+

definition busy :: life where
  "busy = serving\<lparr>l_pktq := [\<lparr>pk_filter = None, pk_pkt = replicate 14 0, pk_dir = 0\<rparr>], l_notify := True,
     l_held := None, l_phase := Draining\<rparr>"

section \<open>Signals and packets that come too early\<close>

text \<open>A signal before the objects are made.\<close>

lemma signal_before_objects: "life_reachable True (fail NullDeref life_init)"
  using life_reachable.step [OF life_reachable.init _ stop_runs [of True life_init 0 "fail NullDeref life_init"]]
  by (simp add: life_init_def PacketHandler_stop_def)

text \<open>A signal before the starting threads have run: \<open>FlowTable::stop\<close> joins a thread that was never started.\<close>

lemma signal_before_threads: "\<exists>s. life_reachable True s \<and> l_fault s = Some NotJoinable"
proof -
  let ?s = "life_init\<lparr>l_objects := True\<rparr>"
  have s: "life_reachable True ?s"
    by (rule life_reachable.step [OF life_reachable.init _ main_creates]) (simp_all add: life_init_def)
  have f: "l_fault ?s = None" "l_fault (PacketHandler_stop ?s) = None" "l_stop (PacketHandler_stop ?s) = StopFlows"
    by (simp_all add: life_init_def PacketHandler_stop_def wake_def)
  from life_reachable.step [OF s f(1) stop_runs [of True ?s 0 "PacketHandler_stop ?s"]]
  have p: "life_reachable True (PacketHandler_stop ?s)" by (simp add: life_init_def)
  let ?t = "(PacketHandler_stop ?s)\<lparr>l_ft := (l_ft (PacketHandler_stop ?s))\<lparr>ft_running := False\<rparr>, l_stop := JoinCleanup\<rparr>"
  have t: "life_reachable True ?t" using reach_stop [OF p f(2), of ?t] f(3) by simp
  have "l_cleanup ?t = Unborn" by (simp add: life_init_def PacketHandler_stop_def wake_def)
  then have "life_reachable True (fail NotJoinable ?t)" using reach_stop [OF t, of "fail NotJoinable ?t"] f(2) by simp
  then show ?thesis using fail_fault by blast
qed

text \<open>A packet of a new flow before \<open>FlowTable::start\<close>: \<open>dpiEngine_\<close> is not set.\<close>

lemma packet_before_start:
  "InsertOrUpdateFlows now (FlowTable_new (int dpi_instances)) key d flt dir = Inl OutOfBounds"
  by (auto simp: InsertOrUpdateFlows_def insert_flow_def ct_insert_def ct_find_def FlowTable_new_def dpi_push_def
      Let_def dpi_instances_def)

section \<open>Properties\<close>





text \<open>C10 (liveness).  Once the packet threads have ended and the flow table has been told to stop, the process ends
  however its threads are scheduled: \<open>DistDpi::start\<close> returns with every thread finished and no flow left in the
  table, or a DPI thread uses a freed flow, which needs a message about a flow in its queue.\<close>

theorem shutdown_completes:
  assumes "life_reachable False s" and "l_fault s = None" and "4 \<le> pcn (l_stop s)"
  shows "comes_to (\<lambda>t. clean_end t \<or> \<not> drained s \<and> l_fault t = Some UseAfterFree) s"
  using late_comes_to [OF life_reachable_inv [OF assms(1,2)] assms(3,2)] by blast

theorem shutdown_completes_witness:
  "comes_to (\<lambda>t. clean_end t \<or> \<not> drained at_cleanup \<and> l_fault t = Some UseAfterFree) at_cleanup \<and> drained at_cleanup"
  using shutdown_completes [of at_cleanup] reach_at_cleanup [of False] by simp

text \<open>C11 (safety).  \<open>stop\<close> can wait for ever: when it joins the packet consumer while that thread is
  between its test of \<open>notify\<close> and the reset of \<open>notify\<close>, or after the reset, no run leaves the \<open>join\<close>.\<close>

theorem stop_hangs:
  assumes "life_reachable False s" and "l_fault s = None" and "l_stop s = JoinConsumer" and "l_consumer s = Alive"
    and "l_phase s \<in> {Draining, Clearing} \<or> \<not> l_notify s" and "run_step\<^sup>*\<^sup>* s t"
  shows "l_stop t = JoinConsumer \<and> \<not> l_main t"
proof -
  have i: "life_inv s" by (rule life_reachable_inv [OF assms(1,2)])
  then have "\<not> l_main s" using assms(3) by (auto simp: life_inv_def)
  with i assms have "hangs s" by (simp add: hangs_def)
  from hangs_run [OF assms(6) this] show ?thesis by (simp add: hangs_def)
qed

lemma reach_busy: "life_reachable late busy"
proof -
  let ?p = "\<lparr>pk_filter = None, pk_pkt = replicate 14 0, pk_dir = 0\<rparr>"
  note [simp] = serving_facts
  have "life_reachable late (serving\<lparr>l_held := Some ?p\<rparr>)" by (rule reach_work [OF reach_serving _ service_packet]) simp_all
  from reach_work [OF this _ service_writes [of _ ?p]]
  have "life_reachable late (serving\<lparr>l_phase := Checking, l_pktq := [?p], l_notify := True, l_held := None\<rparr>)" by (simp add: wake_def pktq_cap_def)
  from reach_work [OF this _ consumer_goes] show ?thesis by (simp add: busy_def)
qed

lemma busy_facts:
  "l_fault busy = None" "l_stop busy = Serving" "\<forall>j < 4. l_starter busy j = Dead" "l_objects busy"
  "l_netx busy = Alive" "l_loop busy" "l_held busy = None" "l_consumer busy = Alive" "l_phase busy = Draining"
  "l_pktq busy = [\<lparr>pk_filter = None, pk_pkt = replicate 14 0, pk_dir = 0\<rparr>]"
  using serving_facts by (simp_all add: busy_def)

text \<open>The packet is no IP packet; the consumer takes it, finds the queue empty and clears \<open>notify\<close>.\<close>

lemma busy_run:
  "run_step\<^sup>*\<^sup>* (at_consumer busy) ((at_consumer busy)\<lparr>l_pktq := [], l_phase := Checking, l_notify := False\<rparr>)"
proof -
  let ?s = "at_consumer busy"
  note [simp] = at_consumer_def PacketHandler_stop_def wake_def busy_facts
  have "ld16 (replicate 14 0 @ [0]) 12 = Inr 0" "ntohs 0 \<noteq> ETH_P_8021Q" "ntohs 0 \<noteq> ETH_P_IP" by code_simp+
  then have c: "classifyFlows 0 \<lparr>pk_filter = None, pk_pkt = replicate 14 0, pk_dir = 0\<rparr> (l_ft ?s) = Inr (l_ft ?s)"
    by (simp add: classifyFlows_def Let_def strip_vlans.simps)
  have "run_step ?s (?s\<lparr>l_pktq := []\<rparr>)"
    using worker [OF consumer_packet [of ?s "\<lparr>pk_filter = None, pk_pkt = replicate 14 0, pk_dir = 0\<rparr>" "[]" 0], of False] c
    by (simp add: run_step_def on_table_def)
  moreover have "run_step (?s\<lparr>l_pktq := []\<rparr>) (?s\<lparr>l_pktq := [], l_phase := Clearing\<rparr>)"
    using worker [OF consumer_empty [of "?s\<lparr>l_pktq := []\<rparr>"], of False] by (simp add: run_step_def)
  moreover have "run_step (?s\<lparr>l_pktq := [], l_phase := Clearing\<rparr>) (?s\<lparr>l_pktq := [], l_phase := Checking, l_notify := False\<rparr>)"
    using worker [OF consumer_clears [of "?s\<lparr>l_pktq := [], l_phase := Clearing\<rparr>"], of False] by (simp add: run_step_def)
  ultimately show ?thesis by (meson converse_rtranclp_into_rtranclp rtranclp.rtrancl_refl)
qed

theorem stop_hangs_witness:
  "\<exists>t. run_step\<^sup>*\<^sup>* (at_consumer busy) t \<and> l_phase t = Checking \<and> \<not> l_notify t \<and> l_stop t = JoinConsumer \<and> \<not> l_main t"
proof -
  have "life_reachable False (at_consumer busy)" by (rule reach_at_consumer [OF reach_busy busy_facts(1-7)])
  from stop_hangs [OF this _ _ _ _ busy_run] busy_run show ?thesis
    by (intro exI [of _ "(at_consumer busy)\<lparr>l_pktq := [], l_phase := Checking, l_notify := False\<rparr>"])
      (simp add: at_consumer_def PacketHandler_stop_def wake_def busy_facts)
qed

end
