(* ===== verification/Signal_Handler.thy ===== *)
theory Signal_Handler
  imports Life_Claims
begin

text \<open>
  \<open>SignalHandler.cpp\<close>: which signals are caught, and what the handler does in each state of the process.  The handler is
  never reset, so that a signal also arrives while \<open>DistDpi::stop\<close> runs for an earlier one, or after it.
\<close>

section \<open>Installing the handler\<close>

datatype disposition = SigDefault | SigIgnored | SignalReceived

record signals =
  sh :: ptr
  dispositions :: "int \<Rightarrow> disposition"

definition SIGINT :: int where "SIGINT = 2"
definition SIGTERM :: int where "SIGTERM = 15"

fun install_loop :: "int list \<Rightarrow> signals \<Rightarrow> signals" where
  "install_loop [] S = S"
| "install_loop (g # gs) S = install_loop gs (S\<lparr>dispositions := (dispositions S)(g := SignalReceived)\<rparr>)"

definition install :: "ptr \<Rightarrow> int list \<Rightarrow> signals \<Rightarrow> signals" where
  "install hdl gs S = install_loop gs (S\<lparr>sh := hdl\<rparr>)"

section \<open>Receiving a signal\<close>

text \<open>What a signal leads to: the handler is entered and has run up to its first wait, or the signal's earlier disposition
  applies.  \<open>Overlaps\<close>: an earlier call of \<open>stop\<close> was interrupted before it had joined a thread, and both calls go on.\<close>

datatype signal_effect = Enters life | Earlier disposition | Overlaps

text \<open>\<open>PacketHandler::stop\<close> joins the threads of \<open>pkthdl_threads\<close> each time it is called, also those joined before.\<close>

definition signalreceived :: "signals \<Rightarrow> life \<Rightarrow> signal_effect" where
  "signalreceived S s = (case sh S of
       None \<Rightarrow> Enters (fail NullDeref s)
     | Some _ \<Rightarrow>
         if l_stop s = Serving then Enters (PacketHandler_stop s)
         else if l_stop s = JoinNetx \<or> l_netx s = Unborn then Overlaps
         else Enters (fail NotJoinable ((wake s)\<lparr>l_running := False, l_notify := True, l_service := False\<rparr>)))"

definition raise_signal :: "signals \<Rightarrow> int \<Rightarrow> life \<Rightarrow> signal_effect" where
  "raise_signal S g s = (if dispositions S g = SignalReceived then signalreceived S s else Earlier (dispositions S g))"

text \<open>The statements of \<open>DistDpi::start\<close> that install the handler.\<close>

definition DistDpi_install :: "addr \<Rightarrow> signals \<Rightarrow> signals" where
  "DistDpi_install this S = install (Some this) [SIGTERM, SIGINT] S"

section \<open>Properties\<close>

lemma install_loop_eq:
  "install_loop gs S = S\<lparr>dispositions := \<lambda>g. if g \<in> set gs then SignalReceived else dispositions S g\<rparr>"
  by (induction gs arbitrary: S) (auto simp: fun_eq_iff)

lemma install_dispositions:
  "dispositions (install hdl gs S) = (\<lambda>g. if g \<in> set gs then SignalReceived else dispositions S g)"
  "sh (install hdl gs S) = hdl"
  by (simp_all add: install_def install_loop_eq fun_eq_iff)

lemma joined_netx: "life_inv s \<Longrightarrow> l_stop s \<noteq> Serving \<Longrightarrow> l_stop s \<noteq> JoinNetx \<Longrightarrow> l_netx s = Dead"
  using pastD(3) [of "pcn (l_stop s)" s] by (cases "l_stop s") (simp_all add: life_inv_def)



end
