(* ===== verification/Socket_Server.thy ===== *)
theory Socket_Server
  imports Prelude "HOL-Library.Sublist"
begin

text \<open>
  The packet source over a UNIX socket, \<open>include/Server.h\<close> and \<open>include/UnixServer.h\<close>.  What the system calls
  return is an argument: a list of results for \<open>recv\<close> and \<open>send\<close>, one per call; the functions give \<open>None\<close> when the list
  ends while they still wait.
\<close>

section \<open>Requests\<close>

text \<open>\<open>recv\<close> returned so many bytes (none when the peer closed), failed with \<open>EINTR\<close>, or failed.\<close>

datatype recv_result = Received bytes | RecvInterrupted | RecvFailed

text \<open>\<open>string::find\<close>.\<close>

fun find_str :: "'a list \<Rightarrow> 'a list \<Rightarrow> nat option" where
  "find_str pat [] = (if pat = [] then Some 0 else None)"
| "find_str pat (c # cs) = (if take (length pat) (c # cs) = pat then Some 0 else map_option Suc (find_str pat cs))"

definition delim :: bytes where
  "delim = map of_char ''xBADA55''"

fun get_request :: "bytes \<Rightarrow> recv_result list \<Rightarrow> (bytes \<times> recv_result list) option" where
  "get_request request rs =
     (if find_str delim request \<noteq> None then Some (request, rs)
      else case rs of
             [] \<Rightarrow> None
           | RecvInterrupted # rs' \<Rightarrow> get_request request rs'
           | RecvFailed # rs' \<Rightarrow> Some ([], rs')
           | Received d # rs' \<Rightarrow> if d = [] then Some ([], rs') else get_request (request @ d) rs')"

declare get_request.simps [simp del]

lemma find_str_Nil [simp]: "find_str delim [] = None"
  by (simp add: delim_def)

lemma get_request_step [simp]:
  "find_str delim q \<noteq> None \<Longrightarrow> get_request q rs = Some (q, rs)"
  "find_str delim q = None \<Longrightarrow> get_request q [] = None"
  "find_str delim q = None \<Longrightarrow> get_request q (RecvInterrupted # rs) = get_request q rs"
  "find_str delim q = None \<Longrightarrow> get_request q (RecvFailed # rs) = Some ([], rs)"
  "find_str delim q = None \<Longrightarrow> get_request q (Received d # rs) = (if d = [] then Some ([], rs) else get_request (q @ d) rs)"
  by (subst get_request.simps, simp)+

text \<open>The results that end a connection, and the bytes received.\<close>

fun ends :: "recv_result \<Rightarrow> bool" where
  "ends (Received d) \<longleftrightarrow> d = []" | "ends RecvInterrupted \<longleftrightarrow> False" | "ends RecvFailed \<longleftrightarrow> True"

fun received :: "recv_result list \<Rightarrow> bytes" where
  "received [] = []"
| "received (Received d # rs) = d @ received rs"
| "received (_ # rs) = received rs"

lemma received_append [simp]: "received (xs @ ys) = received xs @ received ys"
  by (induction xs rule: received.induct) auto

text \<open>Read up to the first result that ends the connection.\<close>

definition unended :: "recv_result list \<Rightarrow> recv_result list" where
  "unended rs = takeWhile (\<lambda>r. \<not> ends r) rs"

definition after_end :: "recv_result list \<Rightarrow> recv_result list" where
  "after_end rs = tl (dropWhile (\<lambda>r. \<not> ends r) rs)"

text \<open>A request: it contains the delimiter, and what came before its last piece did not.\<close>

definition request_of :: "recv_result list \<Rightarrow> bytes \<Rightarrow> bool" where
  "request_of rs q \<longleftrightarrow> find_str delim q \<noteq> None \<and>
     (\<exists>p c. q = p @ c \<and> c \<noteq> [] \<and> find_str delim p = None \<and> Received c \<in> set rs)"

lemma get_request_spec:
  assumes "find_str delim q = None"
  obtains (waits) "get_request q rs = None" "\<forall>r \<in> set rs. \<not> ends r"
  | (ended) "get_request q rs = Some ([], after_end rs)" "\<exists>r \<in> set rs. ends r"
      "find_str delim (q @ received (unended rs)) = None"
  | (request) used rest p c where "get_request q rs = Some (q @ received used, rest)" "rs = used @ rest"
      "used \<noteq> []" "\<forall>r \<in> set used. \<not> ends r" "find_str delim (q @ received used) \<noteq> None"
      "q @ received used = p @ c" "c \<noteq> []" "find_str delim p = None" "Received c \<in> set used"
  using assms
proof (induction rs arbitrary: q thesis)
  case Nil
  then show ?case by simp
next
  case (Cons r rs)
  show ?case
  proof (cases r)
    case (Received d)
    show ?thesis
    proof (cases "d = []")
      case True
      with Received Cons.prems(2,4) show ?thesis by (simp add: after_end_def unended_def)
    next
      case d: False
      show ?thesis
      proof (cases "find_str delim (q @ d) = None")
        case True
        show ?thesis
        proof (rule Cons.IH [OF _ _ _ True])
          fix used rest p c
          assume "get_request (q @ d) rs = Some ((q @ d) @ received used, rest)" "rs = used @ rest" "used \<noteq> []"
            "\<forall>r \<in> set used. \<not> ends r" "find_str delim ((q @ d) @ received used) \<noteq> None"
            "(q @ d) @ received used = p @ c" "c \<noteq> []" "find_str delim p = None" "Received c \<in> set used"
          then show thesis using Received d Cons.prems(4) by (intro Cons.prems(3) [of "r # used" rest p c]) simp_all
        qed (use Received d Cons.prems in \<open>simp_all add: after_end_def unended_def\<close>)
      next
        case False
        with Received d Cons.prems(4) show ?thesis by (intro Cons.prems(3) [of "[r]" rs q d]) simp_all
      qed
    qed
  next
    case RecvInterrupted
    show ?thesis
    proof (rule Cons.IH [OF _ _ _ Cons.prems(4)])
      fix used rest p c
      assume "get_request q rs = Some (q @ received used, rest)" "rs = used @ rest" "used \<noteq> []"
        "\<forall>r \<in> set used. \<not> ends r" "find_str delim (q @ received used) \<noteq> None"
        "q @ received used = p @ c" "c \<noteq> []" "find_str delim p = None" "Received c \<in> set used"
      then show thesis using RecvInterrupted Cons.prems(4) by (intro Cons.prems(3) [of "r # used" rest p c]) simp_all
    qed (use RecvInterrupted Cons.prems in \<open>simp_all add: after_end_def unended_def\<close>)
  next
    case RecvFailed
    with Cons.prems(2,4) show ?thesis by (simp add: after_end_def unended_def)
  qed
qed

lemma get_request_shorter:
  assumes "get_request [] rs = Some (q, rs')" and "q \<noteq> []"
  shows "length rs' < length rs"
  by (rule get_request_spec [OF find_str_Nil, of rs]) (use assms in auto)

section \<open>Connections\<close>

text \<open>\<open>handle\<close> reads requests until an empty one; it does nothing with them.  The result has the requests read and the
  results of \<open>recv\<close> not used.\<close>

function handle :: "recv_result list \<Rightarrow> (bytes list \<times> recv_result list) option" where
  "handle rs = (case get_request [] rs of
       None \<Rightarrow> None
     | Some (request, rs') \<Rightarrow>
         if request = [] then Some ([], rs')
         else map_option (\<lambda>(reqs, rest). (request # reqs, rest)) (handle rs'))"
  by pat_completeness auto
termination by (relation "measure length") (auto dest: get_request_shorter)

declare handle.simps [simp del]

datatype sys_call = Unlink string | Close int

record server =
  server_fd :: int
  sys_calls :: "sys_call list"

definition socketName :: string where
  "socketName = ''/tmp/unix-socket1''"

text \<open>The results of \<open>socket\<close>, \<open>bind\<close> and \<open>listen\<close> are arguments.\<close>

definition create :: "int \<Rightarrow> int \<Rightarrow> int \<Rightarrow> server \<Rightarrow> int \<times> server" where
  "create sock bnd lst s =
     (let s1 = s\<lparr>sys_calls := sys_calls s @ [Unlink socketName], server_fd := sock\<rparr>
      in (if sock = -1 then -1 else if bnd < 0 then -1 else if lst < 0 then -1 else 0, s1))"

definition closeSocket :: "server \<Rightarrow> server" where
  "closeSocket s = s\<lparr>sys_calls := sys_calls s @ [Close (server_fd s), Unlink socketName], server_fd := -1\<rparr>"

text \<open>\<open>accept\<close> returns a descriptor, with the results of \<open>recv\<close> on that connection.  The requests of each connection
  are part of the result.\<close>

fun serve :: "(int \<times> recv_result list) list \<Rightarrow> server \<Rightarrow> (bytes list list \<times> server) option" where
  "serve [] s = None"
| "serve ((client, rs) # cs) s =
     (if client > 0
      then case handle rs of
             None \<Rightarrow> None
           | Some (reqs, _) \<Rightarrow> map_option (map_prod ((#) reqs) id) (serve cs (s\<lparr>sys_calls := sys_calls s @ [Close client]\<rparr>))
      else Some ([], closeSocket s))"

definition run :: "int \<Rightarrow> int \<Rightarrow> int \<Rightarrow> (int \<times> recv_result list) list \<Rightarrow> server \<Rightarrow> (bytes list list \<times> server) option" where
  "run sock bnd lst cs s =
     (let (ret, s1) = create sock bnd lst s in if ret \<noteq> 0 then Some ([], s1) else serve cs s1)"

section \<open>Responses\<close>

text \<open>\<open>send\<close> accepted at most so many bytes, or failed.\<close>

datatype send_result = Sent nat | SendInterrupted | SendFailed

text \<open>\<open>off\<close> is the distance of \<open>ptr\<close> from the start of the response, \<open>nleft\<close> an \<open>int\<close>, given to \<open>send\<close> as a
  \<open>size_t\<close>.  The result has what was sent.\<close>

fun send_loop :: "bytes \<Rightarrow> nat \<Rightarrow> u32 \<Rightarrow> send_result list \<Rightarrow> (bool \<times> bytes) cres option" where
  "send_loop resp off nleft rs =
     (if nleft = 0 then Some (Inr (True, take off resp))
      else case rs of
             [] \<Rightarrow> None
           | SendInterrupted # rs' \<Rightarrow> send_loop resp off nleft rs'
           | SendFailed # rs' \<Rightarrow> Some (Inr (False, take off resp))
           | Sent n # rs' \<Rightarrow>
               (let nwritten = min n (unat (scast nleft :: u64))
                in if nwritten = 0 then Some (Inr (False, take off resp))
                   else if off + nwritten > length resp then Some (Inl OutOfBounds)
                   else send_loop resp (off + nwritten) (nleft - of_nat nwritten) rs'))"

definition send_response :: "bytes \<Rightarrow> send_result list \<Rightarrow> (bool \<times> bytes) cres option" where
  "send_response response rs = send_loop response 0 (of_nat (length response)) rs"

declare send_loop.simps [simp del]

section \<open>Properties\<close>

lemma request_of_mono: "request_of rs q \<Longrightarrow> set rs \<subseteq> set rs' \<Longrightarrow> request_of rs' q"
  by (auto simp: request_of_def)

lemma unended_append:
  assumes "\<forall>r \<in> set used. \<not> ends r"
  shows "unended (used @ rest) = used @ unended rest" "after_end (used @ rest) = after_end rest"
  using assms by (induction used) (auto simp: unended_def after_end_def)

lemma handle_spec:
  "if \<exists>r \<in> set rs. ends r
   then \<exists>reqs partial. handle rs = Some (reqs, after_end rs) \<and> received (unended rs) = concat reqs @ partial \<and>
      find_str delim partial = None \<and> (\<forall>q \<in> set reqs. request_of (unended rs) q)
   else handle rs = None"
proof (induction rs rule: handle.induct)
  case (1 rs)
  show ?case
  proof (cases rule: get_request_spec [OF find_str_Nil, of rs, case_names waits ended request])
    case waits
    then show ?thesis by (auto simp: handle.simps)
  next
    case ended
    then show ?thesis by (auto simp: handle.simps)
  next
    case (request used rest p c)
    let ?q = "received used"
    have q: "?q \<noteq> []" "request_of used ?q" using request by (auto simp: request_of_def)
    have h: "handle rs = map_option (\<lambda>(reqs, rest). (?q # reqs, rest)) (handle rest)"
      using request(1) q(1) by (subst handle.simps) simp
    note IH = 1 [OF request(1) [simplified] refl q(1)]
    note U = unended_append [OF request(4), of rest]
    have e: "(\<exists>r \<in> set rs. ends r) \<longleftrightarrow> (\<exists>r \<in> set rest. ends r)" using request(2,4) by auto
    show ?thesis
    proof (cases "\<exists>r \<in> set rest. ends r")
      case True
      then obtain reqs partial where R: "handle rest = Some (reqs, after_end rest)"
        "received (unended rest) = concat reqs @ partial" "find_str delim partial = None"
        "\<forall>q \<in> set reqs. request_of (unended rest) q" using IH by (simp, blast)
      have m: "set used \<subseteq> set (unended rs)" "set (unended rest) \<subseteq> set (unended rs)" using U(1) request(2) by auto
      have "\<forall>q \<in> set (?q # reqs). request_of (unended rs) q"
        using request_of_mono [OF q(2) m(1)] R(4) request_of_mono [OF _ m(2)] by simp
      with True e h R U request(2) show ?thesis by (auto intro!: exI [of _ partial])
    next
      case False
      with IH e h show ?thesis by auto
    qed
  qed
qed

fun accepted :: "send_result \<Rightarrow> nat" where
  "accepted (Sent n) = n" | "accepted SendInterrupted = 0" | "accepted SendFailed = 0"

lemma unat_of_nat_small: "m < 2 ^ 31 \<Longrightarrow> unat (of_nat m :: u32) = m"
  by (simp add: unat_of_nat take_bit_nat_eq_self)

lemma unat_scast_int:
  assumes "m < 2 ^ 31"
  shows "unat (scast (of_nat m :: u32) :: u64) = m"
proof -
  have "sint (of_nat m :: u32) = int m"
    using assms by (simp add: signed_of_nat signed_take_bit_int_eq_self)
  then have "(scast (of_nat m :: u32) :: u64) = of_nat m" by (metis of_int_of_nat_eq scast_eq)
  then show ?thesis using assms by (simp add: unat_of_nat take_bit_nat_eq_self)
qed

lemma send_loop_spec:
  assumes "length resp < 2 ^ 31" and "off \<le> length resp" and "nleft = of_nat (length resp - off)"
  shows "case send_loop resp off nleft rs of
      None \<Rightarrow> (\<Sum>r \<leftarrow> rs. accepted r) < length resp - off \<and> Sent 0 \<notin> set rs \<and> SendFailed \<notin> set rs
    | Some (Inl e) \<Rightarrow> False
    | Some (Inr (ok, sent)) \<Rightarrow> prefix sent resp \<and> (ok \<longleftrightarrow> sent = resp)"
  using assms(2,3)
proof (induction rs arbitrary: off nleft)
  case Nil
  have "unat nleft = length resp - off"
    unfolding Nil(2) by (rule unat_of_nat_small) (use assms(1) in simp)
  then have "nleft = 0 \<longleftrightarrow> length resp = off" using Nil(1) by (auto simp: unat_eq_0 [symmetric])
  then show ?case using Nil by (subst send_loop.simps) (auto simp: le_less)
next
  case (Cons r rs)
  have n: "unat nleft = length resp - off"
    unfolding Cons.prems(2) by (rule unat_of_nat_small) (use assms(1) in simp)
  have z: "nleft = 0 \<longleftrightarrow> length resp = off" using n Cons.prems(1) by (auto simp: unat_eq_0 [symmetric])
  have c: "unat (scast nleft :: u64) = length resp - off"
    using Cons.prems(2) unat_scast_int [of "length resp - off"] assms(1) by simp
  show ?case
  proof (cases "nleft = 0")
    case True
    with z show ?thesis by (subst send_loop.simps) simp
  next
    case nz: False
    with z Cons.prems(1) have less: "off < length resp" by simp
    show ?thesis
    proof (cases r)
      case (Sent k)
      let ?w = "min k (length resp - off)"
      show ?thesis
      proof (cases "k = 0")
        case True
        then show ?thesis using Sent nz less by (subst send_loop.simps) (auto simp: take_is_prefix)
      next
        case False
        have "nleft - of_nat ?w = of_nat (length resp - (off + ?w))" using Cons.prems by simp
        then have s: "send_loop resp off nleft (r # rs) = send_loop resp (off + ?w) (of_nat (length resp - (off + ?w))) rs"
          using Sent nz less False c by (subst send_loop.simps) (auto simp: Let_def min_def)
        have "off + ?w \<le> length resp" using less by simp
        from Cons.IH [OF this refl] Sent False show ?thesis unfolding s
          by (auto simp: min_def split: option.splits sum.splits prod.splits if_splits)
      qed
    next
      case SendInterrupted
      then have "send_loop resp off nleft (r # rs) = send_loop resp off nleft rs" using nz by (subst send_loop.simps) simp
      with Cons.IH [OF Cons.prems] SendInterrupted show ?thesis by (simp split: option.splits sum.splits prod.splits)
    next
      case SendFailed
      then show ?thesis using nz less by (subst send_loop.simps) (auto simp: take_is_prefix)
    qed
  qed
qed

text \<open>The system calls of a run of the server: every connection it accepted is closed, then the socket.\<close>

lemma serve_spec:
  assumes "\<forall>c \<in> set cs. 0 < fst c \<and> (\<exists>r \<in> set (snd c). ends r)" and "fd \<le> 0"
  shows "\<exists>reqs. serve (cs @ (fd, rs) # later) s = Some (reqs, closeSocket (s\<lparr>sys_calls := sys_calls s @ map (\<lambda>c. Close (fst c)) cs\<rparr>)) \<and>
     length reqs = length cs"
  using assms(1)
proof (induction cs arbitrary: s)
  case Nil
  with assms(2) show ?case by simp
next
  case (Cons c cs)
  obtain fd' rs' where c: "c = (fd', rs')" by (cases c)
  with Cons.prems handle_spec [of rs'] obtain reqs rest where h: "handle rs' = Some (reqs, rest)" by auto
  from Cons.IH [of "s\<lparr>sys_calls := sys_calls s @ [Close fd']\<rparr>"] Cons.prems obtain rr where
    "serve (cs @ (fd, rs) # later) (s\<lparr>sys_calls := sys_calls s @ [Close fd']\<rparr>) =
       Some (rr, closeSocket (s\<lparr>sys_calls := (sys_calls s @ [Close fd']) @ map (\<lambda>c. Close (fst c)) cs\<rparr>))" "length rr = length cs" by auto
  with h c Cons.prems show ?case by simp
qed

text \<open>What arrives on a connection up to its end is cut into requests in order and without loss: each
  contains the delimiter, which the pieces before its last did not; what follows the last request is dropped.  The
  connection is served to its end whenever it has one.\<close>

lemma requests_partition:
  assumes "\<exists>r \<in> set rs. ends r"
  shows "\<exists>reqs partial. handle rs = Some (reqs, after_end rs) \<and> received (unended rs) = concat reqs @ partial \<and>
     find_str delim partial = None \<and> (\<forall>q \<in> set reqs. request_of (unended rs) q)"
  using handle_spec [of rs] assms by simp

lemma requests_partition_witness:
  "\<exists>reqs partial. handle [Received (1 # delim), RecvInterrupted, Received [2], Received []] = Some (reqs, []) \<and>
     1 # delim @ [2] = concat reqs @ partial \<and> find_str delim partial = None"
  using requests_partition [of "[Received (1 # delim), RecvInterrupted, Received [2], Received []]"]
  by (auto simp: after_end_def unended_def)

text \<open>For a response of less than \<open>2\<^sup>3\<^sup>1\<close> bytes \<open>send_response\<close> stays inside the response; it returns
  \<open>true\<close> exactly when everything was sent, else what was sent is the start of the response; and it only goes on
  waiting while \<open>send\<close> has neither failed nor accepted enough.\<close>

lemma send_response_complete:
  assumes "length resp < 2 ^ 31"
  shows "case send_response resp rs of
      None \<Rightarrow> (\<Sum>r \<leftarrow> rs. accepted r) < length resp \<and> Sent 0 \<notin> set rs \<and> SendFailed \<notin> set rs
    | Some (Inl e) \<Rightarrow> False
    | Some (Inr (ok, sent)) \<Rightarrow> prefix sent resp \<and> (ok \<longleftrightarrow> sent = resp)"
  using send_loop_spec [OF assms, of 0 "of_nat (length resp)" rs] unfolding send_response_def diff_zero by simp

lemma send_response_complete_witness:
  "case send_response [1, 2, 3] [Sent 2, SendInterrupted, Sent 5] of
      None \<Rightarrow> False | Some (Inl e) \<Rightarrow> False | Some (Inr (ok, sent)) \<Rightarrow> prefix sent [1, 2, 3] \<and> (ok \<longleftrightarrow> sent = [1, 2, 3])"
  using send_response_complete [of "[1, 2, 3]" "[Sent 2, SendInterrupted, Sent 5]"]
  by (simp split: option.splits)

end
