(* ===== verification/Interval_Timer.thy ===== *)
theory Interval_Timer
  imports Prelude
begin

text \<open>
  \<open>include/Timer.h\<close>: the interval that \<open>addTask\<close> gives to \<open>nanosleep\<close>.  The member \<open>t\<close> is a \<open>float\<close>; its product with
  \<open>NANO_SECOND_MULTIPLIER\<close> is a \<open>float\<close> again, rounded to 24 bits, and is converted to \<open>uint64_t\<close>.  One round of the
  endless loop is a sleep and a call of \<open>executeCb\<close>; \<open>addTask_rounds\<close> has the first rounds, with the value \<open>t\<close> has
  in each.
\<close>

section \<open>Single precision\<close>

text \<open>A finite \<open>float\<close>: the sign, an integer significand below \<open>2 ^ 24\<close> and an exponent.\<close>

record float32 =
  f_neg :: bool
  f_mant :: nat
  f_exp :: int

fun bit_length :: "nat \<Rightarrow> nat" where
  "bit_length n = (if n = 0 then 0 else Suc (bit_length (n div 2)))"

declare bit_length.simps [simp del]

lemma bit_length_0 [simp]: "bit_length 0 = 0"
  by (simp add: bit_length.simps)

text \<open>Rounding to the nearest number with 24 bits, to the even one of two equally near: \<open>(q, k)\<close> for \<open>q * 2 ^ k\<close>.\<close>

definition round24 :: "nat \<Rightarrow> nat \<times> nat" where
  "round24 n =
     (let k = bit_length n - 24; q = n div 2 ^ k; r = n mod 2 ^ k
      in (if 2 ^ k < 2 * r \<or> (2 ^ k = 2 * r \<and> odd q) then q + 1 else q, k))"

text \<open>\<open>NANO_SECOND_MULTIPLIER\<close> is an \<open>int\<close>; it has 21 significant bits, so that its conversion to \<open>float\<close> is exact.\<close>

definition NANO_SECOND_MULTIPLIER :: nat where "NANO_SECOND_MULTIPLIER = 1000000000"

definition times_nano :: "float32 \<Rightarrow> float32" where
  "times_nano x = (let (q, k) = round24 (f_mant x * NANO_SECOND_MULTIPLIER)
     in \<lparr>f_neg = f_neg x, f_mant = q, f_exp = f_exp x + int k\<rparr>)"

text \<open>The conversion drops the fraction; a value that does not fit is undefined behaviour.\<close>

definition trunc_float :: "float32 \<Rightarrow> nat" where
  "trunc_float x = (if 0 \<le> f_exp x then f_mant x * 2 ^ nat (f_exp x) else f_mant x div 2 ^ nat (- f_exp x))"

definition to_uint64 :: "float32 \<Rightarrow> u64 cres" where
  "to_uint64 x = (if (f_neg x \<and> 0 < trunc_float x) \<or> 2 ^ 64 \<le> trunc_float x then Inl BadConversion
     else Inr (of_nat (trunc_float x)))"

section \<open>The timer\<close>

record Timer =
  timer_t :: float32

definition Timer_new :: "float32 \<Rightarrow> Timer" where
  "Timer_new time = \<lparr>timer_t = time\<rparr>"

definition updateTimer :: "float32 \<Rightarrow> Timer \<Rightarrow> Timer" where
  "updateTimer time tm = tm\<lparr>timer_t := time\<rparr>"

record timespec =
  tv_sec :: u64
  tv_nsec :: u64

definition addTask_sleep :: "u64 \<Rightarrow> timespec" where
  "addTask_sleep interval =
     (let sleepValue = \<lparr>tv_sec = 0, tv_nsec = interval\<rparr>
      in if 1000000000 \<le> interval
         then \<lparr>tv_sec = tv_sec sleepValue + interval div 1000000000, tv_nsec = interval mod 1000000000\<rparr>
         else sleepValue)"

text \<open>A round: the value for \<open>nanosleep\<close>, then the callback, which may update the timer.\<close>

definition addTask_round ::
  "(timespec \<Rightarrow> 's \<Rightarrow> 's) \<Rightarrow> (Timer \<Rightarrow> 's \<Rightarrow> Timer \<times> 's) \<Rightarrow> Timer \<Rightarrow> 's \<Rightarrow> (Timer \<times> 's) cres" where
  "addTask_round nanosleep executeCb tm s =
     bindR (to_uint64 (times_nano (timer_t tm))) (\<lambda>i. Inr (executeCb tm (nanosleep (addTask_sleep i) s)))"

primrec addTask_rounds ::
  "nat \<Rightarrow> (timespec \<Rightarrow> 's \<Rightarrow> 's) \<Rightarrow> (Timer \<Rightarrow> 's \<Rightarrow> Timer \<times> 's) \<Rightarrow> Timer \<Rightarrow> 's \<Rightarrow> (Timer \<times> 's) cres" where
  "addTask_rounds 0 nanosleep executeCb tm s = Inr (tm, s)"
| "addTask_rounds (Suc n) nanosleep executeCb tm s =
     bindR (addTask_round nanosleep executeCb tm s) (\<lambda>(tm', s'). addTask_rounds n nanosleep executeCb tm' s')"

section \<open>Rounding\<close>

lemma bit_length_bounds: "n < 2 ^ bit_length n \<and> (0 < n \<longrightarrow> 2 ^ (bit_length n - 1) \<le> n)"
proof (induction n rule: bit_length.induct)
  case (1 n)
  show ?case
  proof (cases "n = 0")
    case False
    with 1 have IH: "n div 2 < 2 ^ bit_length (n div 2)" "0 < n div 2 \<longrightarrow> 2 ^ (bit_length (n div 2) - 1) \<le> n div 2" by auto
    have b: "bit_length n = Suc (bit_length (n div 2))" using False by (simp add: bit_length.simps [of n])
    have "n < 2 * 2 ^ bit_length (n div 2)" using IH(1) by linarith
    moreover have "2 ^ bit_length (n div 2) \<le> n"
    proof (cases "n div 2 = 0")
      case True
      with False show ?thesis by (simp add: bit_length.simps)
    next
      case n2: False
      then obtain m where m: "bit_length (n div 2) = Suc m" by (simp add: bit_length.simps [of "n div 2"])
      with IH(2) n2 have "2 ^ m \<le> n div 2" by simp
      with m show ?thesis by simp
    qed
    ultimately show ?thesis by (simp add: b)
  qed (simp add: bit_length.simps)
qed

lemma nearest:
  fixes n a r p y :: nat
  assumes "n = a + r" and "r < p" and "y = a + (if p < 2 * r \<or> (p = 2 * r \<and> b) then p else 0)"
  shows "2 * y \<le> 2 * n + p" and "2 * n \<le> 2 * y + p"
  using assms by (auto split: if_splits)

text \<open>The rounding error is at most half a unit in the last place, a relative error of \<open>2 ^ - 24\<close>.\<close>

lemma round24_error:
  assumes "round24 n = (q, k)"
  shows "2 ^ 24 * (q * 2 ^ k) \<le> (2 ^ 24 + 1) * n" and "(2 ^ 24 - 1) * n \<le> 2 ^ 24 * (q * 2 ^ k)"
proof -
  let ?q = "n div 2 ^ k" and ?r = "n mod 2 ^ k"
  have k: "k = bit_length n - 24" and q: "q = (if 2 ^ k < 2 * ?r \<or> (2 ^ k = 2 * ?r \<and> odd ?q) then ?q + 1 else ?q)"
    using assms by (auto simp: round24_def Let_def)
  have n: "n = ?q * 2 ^ k + ?r" by (rule div_mult_mod_eq [symmetric])
  have r: "?r < 2 ^ k" by simp
  have "q * 2 ^ k = ?q * 2 ^ k + (if 2 ^ k < 2 * ?r \<or> (2 ^ k = 2 * ?r \<and> odd ?q) then 2 ^ k else 0)"
    unfolding q by simp
  note half = nearest [OF n r this]
  have exact: "q * 2 ^ k = n" if "k = 0" using q that by simp
  have small: "2 ^ 23 * 2 ^ k \<le> n" if "k \<noteq> 0"
  proof -
    have "bit_length n - 1 = 23 + k" using that k by simp
    moreover have "0 < n" using that k by (cases n) simp_all
    ultimately show ?thesis using bit_length_bounds [of n] by (simp add: power_add)
  qed
  show "2 ^ 24 * (q * 2 ^ k) \<le> (2 ^ 24 + 1) * n"
    using half(1) exact small by (cases "k = 0") simp_all
  show "(2 ^ 24 - 1) * n \<le> 2 ^ 24 * (q * 2 ^ k)"
    using half(2) exact small by (cases "k = 0") simp_all
qed

section \<open>Properties\<close>

text \<open>\<open>nanosleep\<close> accepts the value, and it is the whole interval.\<close>

lemma addTask_sleep_exact:
  "unat (tv_nsec (addTask_sleep t)) < 10 ^ 9 \<and>
   unat (tv_sec (addTask_sleep t)) * 10 ^ 9 + unat (tv_nsec (addTask_sleep t)) = unat t"
  by (auto simp: addTask_sleep_def Let_def unat_div_distrib unat_mod_distrib word_le_nat_alt)

definition slept :: "timespec \<Rightarrow> nat" where
  "slept v = unat (tv_sec v) * 10 ^ 9 + unat (tv_nsec v)"

lemma unat_of_nat_u64: "n < 2 ^ 64 \<Longrightarrow> unat (of_nat n :: u64) = n"
  by (simp add: unsigned_of_nat take_bit_nat_eq_self_iff)

text \<open>C40 (bounds).  For an interval \<open>m * 2 ^ - j\<close> of at least two nanoseconds the timer sleeps a number of nanoseconds that \<open>nanosleep\<close> accepts,
  which is off the interval by at most one part in \<open>2 ^ 24\<close> and less than a nanosecond, and calls its callback; the
  conversion of the negative interval is undefined.\<close>

theorem timer_interval:
  assumes m: "m < 2 ^ 24" and big: "2 ^ j \<le> m * 500000000"
  shows "\<exists>v. addTask_round nanosleep executeCb (Timer_new \<lparr>f_neg = False, f_mant = m, f_exp = - int j\<rparr>) s =
      Inr (executeCb (Timer_new \<lparr>f_neg = False, f_mant = m, f_exp = - int j\<rparr>) (nanosleep v s)) \<and>
    unat (tv_nsec v) < 10 ^ 9 \<and>
    2 ^ 24 * (slept v * 2 ^ j) \<le> (2 ^ 24 + 1) * (m * 10 ^ 9) \<and>
    (2 ^ 24 - 1) * (m * 10 ^ 9) < 2 ^ 24 * ((slept v + 1) * 2 ^ j) \<and>
    addTask_round nanosleep executeCb (Timer_new \<lparr>f_neg = True, f_mant = m, f_exp = - int j\<rparr>) s = Inl BadConversion"
proof -
  obtain q k where qk: "round24 (m * 10 ^ 9) = (q, k)" by (cases "round24 (m * 10 ^ 9)")
  note err = round24_error [OF qk]
  let ?x = "\<lambda>b. \<lparr>f_neg = b, f_mant = q, f_exp = int k - int j\<rparr>"
  have x: "times_nano (timer_t (Timer_new \<lparr>f_neg = b, f_mant = m, f_exp = - int j\<rparr>)) = ?x b" for b
    using qk by (simp add: times_nano_def Timer_new_def NANO_SECOND_MULTIPLIER_def)
  define t where "t = trunc_float (?x False)"
  have tb: "trunc_float (?x b) = t" for b by (simp add: t_def trunc_float_def)
  have t: "t = q * 2 ^ k div 2 ^ j"
  proof (cases "j \<le> k")
    case True
    then have "nat (int k - int j) = k - j" "2 ^ k = 2 ^ (k - j) * (2 ^ j :: nat)" by (simp_all flip: power_add)
    with True show ?thesis by (simp add: t_def trunc_float_def)
  next
    case False
    then have "nat (- (int k - int j)) = j - k" "2 ^ j = 2 ^ k * (2 ^ (j - k) :: nat)" by (simp_all flip: power_add)
    with False show ?thesis by (simp add: t_def trunc_float_def mult.commute)
  qed
  have lo: "t * 2 ^ j \<le> q * 2 ^ k" and hi: "q * 2 ^ k < (t + 1) * 2 ^ j"
    using t div_times_less_eq_dividend [of "q * 2 ^ k" "2 ^ j"] dividend_less_div_times [of "2 ^ j" "q * 2 ^ k"]
    by (simp_all add: mult.commute)
  have "t \<le> q * 2 ^ k" using t by (simp add: div_le_dividend)
  moreover have "q * 2 ^ k < 2 ^ 63" using err(1) m by simp
  ultimately have fits: "t < 2 ^ 64" by simp
  have "2 ^ j \<le> q * 2 ^ k" using err(2) big by simp
  then have pos: "0 < t" using t by (simp add: div_greater_zero_iff)
  let ?v = "addTask_sleep (of_nat t)"
  have "slept ?v = t" "unat (tv_nsec ?v) < 10 ^ 9"
    using addTask_sleep_exact [of "of_nat t"] unat_of_nat_u64 [OF fits] by (simp_all add: slept_def)
  moreover have "to_uint64 (?x False) = Inr (of_nat t)" "to_uint64 (?x True) = Inl BadConversion"
    using fits pos by (simp_all add: to_uint64_def tb)
  moreover have "2 ^ 24 * (t * 2 ^ j) \<le> (2 ^ 24 + 1) * (m * 10 ^ 9)" using lo err(1) by simp
  moreover have "(2 ^ 24 - 1) * (m * 10 ^ 9) < 2 ^ 24 * ((t + 1) * 2 ^ j)" using hi err(2) by simp
  ultimately show ?thesis unfolding addTask_round_def x by (intro exI [of _ ?v]) simp
qed

theorem timer_interval_witness:
  "\<exists>n. addTask_round (\<lambda>v s. s + slept v) Pair (Timer_new \<lparr>f_neg = False, f_mant = 3, f_exp = - int 1\<rparr>) 0 =
      Inr (Timer_new \<lparr>f_neg = False, f_mant = 3, f_exp = - int 1\<rparr>, n) \<and> 1499999900 \<le> n \<and> n \<le> 1500000100"
proof -
  from timer_interval [of 3 1 "\<lambda>v s. s + slept v" Pair 0] obtain v where
    "addTask_round (\<lambda>v s. s + slept v) Pair (Timer_new \<lparr>f_neg = False, f_mant = 3, f_exp = - int 1\<rparr>) 0 =
      Inr (Timer_new \<lparr>f_neg = False, f_mant = 3, f_exp = - int 1\<rparr>, 0 + slept v)"
    "2 ^ 24 * (slept v * 2 ^ 1) \<le> (2 ^ 24 + 1) * (3 * 10 ^ 9 :: nat)"
    "(2 ^ 24 - 1) * (3 * 10 ^ 9) < 2 ^ 24 * ((slept v + 1) * 2 ^ 1)" by auto
  then show ?thesis by (intro exI [of _ "slept v"]) simp
qed

text \<open>Whole seconds are slept exactly up to eight of them; a new interval takes effect in the next round.\<close>

lemma seconds_exact:
  assumes "n \<le> 8"
  shows "trunc_float (times_nano \<lparr>f_neg = False, f_mant = n, f_exp = 0\<rparr>) = n * 10 ^ 9"
proof -
  let ?N = "n * 10 ^ 9" and ?k = "bit_length (n * 10 ^ 9) - 24"
  have k: "?k \<le> 9"
  proof (rule ccontr)
    assume "\<not> ?k \<le> 9"
    then have b: "33 \<le> bit_length ?N - 1" and "0 < ?N" by (cases n; simp)+
    then have "2 ^ (bit_length ?N - 1) \<le> ?N" using bit_length_bounds [of ?N] by blast
    moreover have "2 ^ 33 \<le> (2 ^ (bit_length ?N - 1) :: nat)" using b by (intro power_increasing) auto
    ultimately have "2 ^ 33 \<le> ?N" by (rule order_trans [rotated])
    with assms show False by simp
  qed
  have "(2 :: nat) ^ ?k dvd 2 ^ 9" by (rule le_imp_power_dvd [OF k])
  moreover have "(2 :: nat) ^ 9 dvd ?N" by (rule dvd_mult) simp
  ultimately have d: "2 ^ ?k dvd ?N" by (rule dvd_trans)
  then have "round24 ?N = (?N div 2 ^ ?k, ?k)" by (simp add: round24_def Let_def)
  moreover have "?N div 2 ^ ?k * 2 ^ ?k = ?N" using d by (rule dvd_div_mult_self)
  ultimately show ?thesis by (simp add: times_nano_def NANO_SECOND_MULTIPLIER_def trunc_float_def)
qed

lemma updateTimer_new: "updateTimer x tm = Timer_new x"
  by (cases tm) (simp add: updateTimer_def Timer_new_def)

lemma addTask_rounds_update:
  "addTask_round nanosleep (\<lambda>tm s. (updateTimer x tm, s)) tm s = Inr (tm', s') \<Longrightarrow>
   addTask_rounds (Suc n) nanosleep (\<lambda>tm s. (updateTimer x tm, s)) tm s =
   addTask_rounds n nanosleep (\<lambda>tm s. (updateTimer x tm, s)) (Timer_new x) s'"
  by (auto simp: addTask_round_def bindR_eq_Inr updateTimer_new)

end
