(* ===== verification/Flow_Life.thy ===== *)
theory Flow_Life
  imports Packet_Path
begin

text \<open>
  The life of a flow, with its DPI thread keeping up with its packets: \<open>serve\<close> is one packet through the flow table and the
  iteration of the DPI thread that follows.  On the information of the flow it is the automaton \<open>flow_step\<close>: the first
  packet opens the library's connection, later ones are classified until the library's answer is final.
\<close>

section \<open>One packet\<close>

record packet =
  p_key :: ConnKey
  p_data :: bytes
  p_filter :: ptr
  p_dir :: u8
  p_now :: int
  p_engine :: navl_engine

definition serve :: "int \<Rightarrow> packet \<Rightarrow> flow_table \<Rightarrow> (flow_table \<times> navl_call list) cres" where
  "serve g p ft =
     bindR (InsertOrUpdateFlows (p_now p) ft (p_key p) (p_data p) (p_filter p) (p_dir p)) (\<lambda>ft1.
     bindR (Dequeue_iter (p_engine p) (p_now p) g (flow_queue ft (p_key p)) ft1) (\<lambda>r.
       Inr (case r of Waiting \<Rightarrow> (ft1, []) | Left ft2 \<Rightarrow> (ft2, []) | Again ft2 calls \<Rightarrow> (ft2, calls))))"

fun serve_all :: "int \<Rightarrow> packet list \<Rightarrow> flow_table \<Rightarrow> (flow_table \<times> navl_call list) cres" where
  "serve_all g [] ft = Inr (ft, [])"
| "serve_all g (p # ps) ft = bindR (serve g p ft) (\<lambda>(ft1, cs). bindR (serve_all g ps ft1) (\<lambda>(ft2, cs').
     Inr (ft2, cs @ cs')))"

section \<open>The automaton of a flow\<close>

text \<open>What a packet does to a flow, absent before its first one: its information afterwards, the calls of the library, and
  the library's answer.\<close>

fun flow_step :: "int \<Rightarrow> int \<Rightarrow> packet \<Rightarrow> ConnInfo option \<Rightarrow> ConnInfo \<times> navl_call list \<times> navl_callback option" where
  "flow_step g nq p None = (let k = p_key p in
     (opened (p_engine p) g k (new_info (p_now p) nq k (p_filter p) (p_dir p)),
      [NavlConnCreate g (host_of (srcaddr k) (srcport k)) (host_of (dstaddr k) (dstport k)) (ipproto k)], None))"
| "flow_step g nq p (Some ci) =
     (if forwards ci \<and> ci_error ci = 0 \<and> p_data p \<noteq> []
      then let len = of_nat (length (p_data p)); d = flow_dir (p_key p) ci;
               r = snd (navl_classify (p_engine p) g NAVL_ENCAP_NONE (p_data p) len (dpi_state ci) d)
           in (answered (p_engine p) (p_now p) r (seen_info (p_now p) ci),
               [NavlClassify g NAVL_ENCAP_NONE (p_data p) len (dpi_state ci) d], r)
      else (seen_info (p_now p) ci, [], None))"

section \<open>The table follows the automaton\<close>

definition results :: "navl_engine \<Rightarrow> string \<Rightarrow> ConnInfo \<Rightarrow> navl_callback option \<Rightarrow> DPIFlowData list" where
  "results E buf ci r = (case r of None \<Rightarrow> []
     | Some c \<Rightarrow> if is_done (cb_state c)
         then [flow_result (ci_key ci) ci (result_name (ne_lib E) (cb_handle c) (cb_result c) buf)] else [])"

lemma reported_results:
  "ci_key (n_info n) = n_key n \<Longrightarrow> reported E now buf n r = results E buf (answered E now r (n_info n)) r"
  by (cases r) (simp_all add: reported_def results_def answered_def classified_info_def)

lemma serve_quiet:
  assumes inv: "ft_inv ft" "refs_inv ft" "0 < numQueues ft" and empty: "dpiQueues ft ! flow_queue ft (p_key p) = []"
    and map: "flow_map ft (p_key p) = Some ci" "\<not> forwards ci"
  shows "\<exists>ft'. serve g p ft = Inr (ft', []) \<and> dpQueue ft' = dpQueue ft \<and> dpiQueues ft' = dpiQueues ft \<and>
    InsertOrUpdateFlows (p_now p) ft (p_key p) (p_data p) (p_filter p) (p_dir p) = Inr ft'"
proof -
  from map(1) obtain n where n: "ct_find (conn_table ft) (p_key p) = Some n" "n_info n = ci" by (auto simp: flow_map_def)
  then have "n \<in> set (conn_table ft)" using ct_find_Some [OF table_of_inv [OF inv(1)]] by blast
  then have i: "flow_queue ft (p_key p) < length (dpiQueues ft)"
    using nodes_ok [OF inv(1)] n by (fastforce simp: flow_queue_def node_ok_def)
  from InsertOrUpdateFlows_known [OF inv(1,3) n(1)] n(2) map(2) obtain ft' where
    "InsertOrUpdateFlows (p_now p) ft (p_key p) (p_data p) (p_filter p) (p_dir p) = Inr ft'"
    "dpiQueues ft' = dpiQueues ft" "dpQueue ft' = dpQueue ft"
    by (simp add: packet_msg_def n(1) send_def)
  with empty i show ?thesis by (simp add: serve_def Dequeue_iter_def)
qed

lemma serve_loud:
  assumes inv: "ft_inv ft" "refs_inv ft" "0 < numQueues ft" and empty: "dpiQueues ft ! flow_queue ft (p_key p) = []"
    and sends: "case flow_map ft (p_key p) of None \<Rightarrow> True | Some ci \<Rightarrow> forwards ci"
    and ins: "InsertOrUpdateFlows (p_now p) ft (p_key p) (p_data p) (p_filter p) (p_dir p) = Inr ft1"
    and step: "flow_step g (numQueues ft) p (flow_map ft (p_key p)) = (ci, cs, r)"
  shows "\<exists>ft'. serve g p ft = Inr (ft', cs) \<and>
    (\<forall>k. flow_map ft' k = (if ConnKeyEqual k (p_key p) then Some ci else flow_map ft1 k)) \<and>
    dpQueue ft' = dpQueue ft @ results (p_engine p) (ft_name ft) ci r \<and> dpiQueues ft' = dpiQueues ft \<and>
    numQueues ft' = numQueues ft \<and> ft_inv ft' \<and> refs_inv ft'"
proof -
  let ?key = "p_key p" and ?i = "flow_queue ft (p_key p)" and ?E = "p_engine p" and ?now = "p_now p"
  have inv1: "ft_inv ft1" "refs_inv ft1"
    using InsertOrUpdateFlows_inv [OF inv(1,3) ins] InsertOrUpdateFlows_refs [OF inv ins] by simp_all
  have same: "dpQueue ft1 = dpQueue ft" "numQueues ft1 = numQueues ft" "ft_name ft1 = ft_name ft"
    using ins InsertOrUpdateFlows_new [OF inv(1,3)] InsertOrUpdateFlows_known [OF inv(1,3)]
    by (cases "ct_find (conn_table ft) ?key"; auto)+
  from packet_queued [OF inv(1,3) empty ins sends] obtain n m where
    n: "n \<in> set (conn_table ft1)" "ConnKeyEqual ?key (n_key n)"
      "n_info n = packet_info ?now ft ?key (p_filter p) (p_dir p)"
      "n_key n = (case flow_map ft ?key of None \<Rightarrow> ?key | Some ci \<Rightarrow> ci_key ci)" and
    q: "?i < length (dpiQueues ft1)" "dpiQueues ft1 = (dpiQueues ft)[?i := [m]]" and
    m: "md_info m = Some (n_addr n)" "md_exit_flag m = 0" "md_data m = p_data p"
      "sint (md_dir m) = (case flow_map ft ?key of None \<Rightarrow> 0 | Some ci \<Rightarrow> flow_dir ?key ci)" by blast
  have qi: "dpiQueues ft1 ! ?i = [m]" using q by simp
  from Dequeue_iter_live [OF inv1 q(1) qi m(2) n(1) m(1), of ?E ?now g] obtain ft' f where
    d: "Dequeue_iter ?E ?now g ?i ft1 = Inr (Again ft' (dequeued_calls g n m))"
      "conn_table ft' = ct_update (n_addr n) f (conn_table ft1)" "f (n_info n) = dequeued_info ?E ?now g n m"
      "dpiQueues ft' = (dpiQueues ft1)[?i := []]" "numQueues ft' = numQueues ft1"
      "dpQueue ft' = dpQueue ft1 @ reported ?E ?now (ft_name ft1) n (lib_answer ?E g (n_info n) m)"
      "ft_inv ft'" "refs_inv ft'" by blast
  have key: "ci_key (n_info n) = n_key n" using nodes_ok [OF inv1(1) n(1)] by (simp add: node_ok_def)
  have spec: "dequeued_calls g n m = cs \<and> dequeued_info ?E ?now g n m = ci \<and> lib_answer ?E g (n_info n) m = r \<and>
      (r \<noteq> None \<longrightarrow> ci = answered ?E ?now r (n_info n))"
  proof (cases "flow_map ft ?key")
    case None
    with n(3,4) step show ?thesis
      by (auto simp: packet_info_def dequeued_calls_def dequeued_info_def lib_answer_def takes_classify_def forwards_def
          new_info_def ConnInfo_new_def Let_def)
  next
    case (Some ci0)
    with sends have "forwards ci0" by simp
    then show ?thesis using Some n(3,4) step m(3,4)
      by (auto simp: packet_info_def dequeued_calls_def dequeued_info_def lib_answer_def takes_classify_def forwards_def
          seen_info_def answered_def Let_def split: if_splits)
  qed
  have "reported ?E ?now (ft_name ft1) n r = results ?E (ft_name ft) ci r"
    using spec reported_results [OF key, of ?E ?now "ft_name ft1" r] same(3) by (cases r) (auto simp: results_def)
  moreover have "ConnKeyEqual k (n_key n) \<longleftrightarrow> ConnKeyEqual k ?key" for k
    using n(2) ConnKeyEqual_trans ConnKeyEqual_sym by blast
  then have "flow_map ft' k = (if ConnKeyEqual k ?key then Some ci else flow_map ft1 k)" for k
    using flow_map_update_node [OF inv1(1) n(1) d(2), of k] d(3) spec by simp
  moreover have "dpiQueues ft' = dpiQueues ft" using d(4) q empty by (simp add: list_update_same_conv)
  ultimately show ?thesis using d spec same ins by (simp add: serve_def)
qed

text \<open>The two together: \<open>serve\<close> does to the packet's flow what \<open>flow_step\<close> says, and nothing to any other.\<close>

lemma serve_steps:
  assumes inv: "ft_inv ft" "refs_inv ft" "0 < numQueues ft" and empty: "dpiQueues ft ! flow_queue ft (p_key p) = []"
    and step: "flow_step g (numQueues ft) p (flow_map ft (p_key p)) = (ci, cs, r)"
  shows "\<exists>ft'. serve g p ft = Inr (ft', cs) \<and>
    (\<forall>k. flow_map ft' k = (if ConnKeyEqual k (p_key p) then Some ci else flow_map ft k)) \<and>
    dpQueue ft' = dpQueue ft @ results (p_engine p) (ft_name ft) ci r \<and> dpiQueues ft' = dpiQueues ft \<and>
    numQueues ft' = numQueues ft \<and> ft_inv ft' \<and> refs_inv ft'"
proof -
  obtain ft1 where ins: "InsertOrUpdateFlows (p_now p) ft (p_key p) (p_data p) (p_filter p) (p_dir p) = Inr ft1"
    using InsertOrUpdateFlows_total [OF inv(1,3)] by blast
  note map = InsertOrUpdateFlows_flow_map [OF inv(1,3) ins]
  show ?thesis
  proof (cases "case flow_map ft (p_key p) of None \<Rightarrow> True | Some ci \<Rightarrow> forwards ci")
    case True
    from serve_loud [OF inv empty this ins step] map show ?thesis by auto
  next
    case False
    then obtain ci0 where ci0: "flow_map ft (p_key p) = Some ci0" "\<not> forwards ci0" by (auto split: option.splits)
    with step have "ci = seen_info (p_now p) ci0" "cs = []" "r = None" by (auto split: if_splits)
    moreover have "numQueues ft1 = numQueues ft"
      using ins InsertOrUpdateFlows_new [OF inv(1,3)] InsertOrUpdateFlows_known [OF inv(1,3)]
      by (cases "ct_find (conn_table ft) (p_key p)") auto
    ultimately show ?thesis
      using serve_quiet [OF inv empty ci0, of g] ins map ci0(1) InsertOrUpdateFlows_inv [OF inv(1,3) ins]
        InsertOrUpdateFlows_refs [OF inv ins] by (auto simp: packet_info_def results_def)
  qed
qed

section \<open>Runs of the automaton\<close>

text \<open>A finished flow has no packet outstanding.\<close>

definition settled :: "ConnInfo \<Rightarrow> bool" where
  "settled ci \<longleftrightarrow> (is_done (class_state ci) \<longrightarrow> pkt_ref_cnt ci = 0)"

fun is_classify :: "navl_call \<Rightarrow> bool" where
  "is_classify (NavlClassify _ _ _ _ _ _) = True"
| "is_classify (NavlConnCreate _ _ _ _) = False"

lemma flow_step_known:
  assumes "flow_step g nq p (Some ci) = (ci', cs, r)" and "settled ci"
  shows "ci_queue ci' = ci_queue ci" "settled ci'" "list_all is_classify cs" "length cs \<le> 1"
    "is_done (class_state ci) \<Longrightarrow> is_done (class_state ci') \<and> cs = []"
    "length (results E buf ci' r) = (if is_done (class_state ci') \<and> \<not> is_done (class_state ci) then 1 else 0)"
  using assms
  by (auto simp: settled_def seen_info_def forwards_def is_done_def answered_def classified_info_def results_def Let_def
      split: if_splits option.splits)

lemma flow_step_new:
  assumes "flow_step g nq p None = (ci, cs, r)"
  shows "ci_queue ci = uint (ConnKeyHasher (p_key p)) mod nq" "settled ci" "\<not> is_done (class_state ci)" "r = None"
  using assms by (auto simp: settled_def opened_def new_info_def ConnInfo_new_def is_done_def Let_def)

lemma flow_queue_map:
  "flow_queue ft key = (case flow_map ft key of None \<Rightarrow> nat (uint (ConnKeyHasher key) mod numQueues ft)
     | Some ci \<Rightarrow> nat (ci_queue ci))"
  by (simp add: flow_queue_def flow_map_def split: option.splits)

lemma serve_all_known:
  assumes "ft_inv ft" and "refs_inv ft" and "0 < numQueues ft" and "flow_map ft key = Some ci" and "settled ci"
    and "dpiQueues ft ! nat (ci_queue ci) = []" and "\<forall>p \<in> set ps. ConnKeyEqual (p_key p) key"
  shows "\<exists>ft' ci' cs rs. serve_all g ps ft = Inr (ft', cs) \<and>
    (\<forall>k. flow_map ft' k = (if ConnKeyEqual k key then Some ci' else flow_map ft k)) \<and> settled ci' \<and>
    dpQueue ft' = dpQueue ft @ rs \<and>
    length rs = (if is_done (class_state ci') \<and> \<not> is_done (class_state ci) then 1 else 0) \<and>
    (is_done (class_state ci) \<longrightarrow> is_done (class_state ci') \<and> cs = []) \<and> list_all is_classify cs \<and> length cs \<le> length ps \<and>
    dpiQueues ft' = dpiQueues ft \<and> ft_inv ft' \<and> refs_inv ft' \<and> ci_queue ci' = ci_queue ci \<and> numQueues ft' = numQueues ft"
  using assms
proof (induction ps arbitrary: ft ci)
  case Nil
  have "flow_map ft k = Some ci" if "ConnKeyEqual k key" for k
    using Nil.prems(4) ct_find_respects [OF that, of "conn_table ft"] by (simp add: flow_map_def)
  with Nil.prems show ?case by auto
next
  case (Cons p ps)
  have eq: "ConnKeyEqual (p_key p) key" using Cons.prems(7) by simp
  have map: "flow_map ft (p_key p) = Some ci"
    using Cons.prems(4) ct_find_respects [OF eq, of "conn_table ft"] by (simp add: flow_map_def)
  obtain ci1 cs r where st: "flow_step g (numQueues ft) p (Some ci) = (ci1, cs, r)" by (cases "flow_step g (numQueues ft) p (Some ci)")
  have "dpiQueues ft ! flow_queue ft (p_key p) = []" using map Cons.prems(6) by (simp add: flow_queue_map)
  from serve_steps [OF Cons.prems(1-3) this, of g ci1 cs r] map st obtain ft1 where
    s: "serve g p ft = Inr (ft1, cs)" "\<And>k. flow_map ft1 k = (if ConnKeyEqual k (p_key p) then Some ci1 else flow_map ft k)"
      "dpQueue ft1 = dpQueue ft @ results (p_engine p) (ft_name ft) ci1 r" "dpiQueues ft1 = dpiQueues ft"
      "numQueues ft1 = numQueues ft" "ft_inv ft1" "refs_inv ft1" by auto
  note known = flow_step_known [OF st Cons.prems(5)]
  have sym: "ConnKeyEqual k (p_key p) \<longleftrightarrow> ConnKeyEqual k key" for k
    using eq ConnKeyEqual_trans ConnKeyEqual_sym by blast
  have "flow_map ft1 key = Some ci1" using s(2) [of key] sym [of key] by (simp add: ConnKeyEqual_alt)
  from Cons.IH [OF s(6,7) _ this known(2)] Cons.prems(3,6,7) s(4,5) known(1) obtain ft' ci' cs' rs where
    t: "serve_all g ps ft1 = Inr (ft', cs')" "\<And>k. flow_map ft' k = (if ConnKeyEqual k key then Some ci' else flow_map ft1 k)"
      "settled ci'" "dpQueue ft' = dpQueue ft1 @ rs"
      "length rs = (if is_done (class_state ci') \<and> \<not> is_done (class_state ci1) then 1 else 0)"
      "is_done (class_state ci1) \<longrightarrow> is_done (class_state ci') \<and> cs' = []" "list_all is_classify cs'"
      "length cs' \<le> length ps" "dpiQueues ft' = dpiQueues ft1" "ft_inv ft'" "refs_inv ft'"
      "ci_queue ci' = ci_queue ci1" "numQueues ft' = numQueues ft1" by auto
  let ?rs = "results (p_engine p) (ft_name ft) ci1 r @ rs"
  have "serve_all g (p # ps) ft = Inr (ft', cs @ cs')" using s(1) t(1) by simp
  moreover have "flow_map ft' k = (if ConnKeyEqual k key then Some ci' else flow_map ft k)" for k
    using t(2) [of k] s(2) [of k] sym [of k] by simp
  moreover have "length ?rs = (if is_done (class_state ci') \<and> \<not> is_done (class_state ci) then 1 else 0)"
  proof -
    have "length ?rs = length (results (p_engine p) (ft_name ft) ci1 r) + length rs" by simp
    also have "\<dots> = (if is_done (class_state ci') \<and> \<not> is_done (class_state ci) then 1 else 0)"
      unfolding known(6) t(5) using known(5) t(6) by (cases "is_done (class_state ci1)"; cases "is_done (class_state ci)") simp_all
    finally show ?thesis .
  qed
  moreover have "is_done (class_state ci) \<longrightarrow> is_done (class_state ci') \<and> cs @ cs' = []" using known(5) t(6) by blast
  moreover have "list_all is_classify (cs @ cs')" "length (cs @ cs') \<le> length (p # ps)" using known(3,4) t(7,8) by simp_all
  moreover have "dpQueue ft' = dpQueue ft @ ?rs" "dpiQueues ft' = dpiQueues ft" using s(3,4) t(4,9) by simp_all
  moreover have "ci_queue ci' = ci_queue ci" "numQueues ft' = numQueues ft" using known(1) s(5) t(12,13) by simp_all
  ultimately show ?case using t(3,10,11) by blast
qed

lemma cleanup_removes:
  assumes inv: "ft_inv ft" and own: "flow_map ft key = Some ci" and fin: "is_done (class_state ci)" "pkt_ref_cnt ci = 0"
  shows "\<exists>ft'. cleanupFlows now False ft = Inr ft' \<and> flow_map ft' key = None"
proof -
  let ?t = "filter (\<lambda>n. \<not> reclaimable n \<and> \<not> stale now n) (conn_table ft)"
  from own obtain n where n: "ct_find (conn_table ft) key = Some n" "n_info n = ci" by (auto simp: flow_map_def)
  then have "reclaimable n" using fin by (simp add: reclaimable_def)
  moreover have "m = n" if "m \<in> set (conn_table ft)" "ConnKeyEqual key (n_key m)" for m
    using that n(1) ct_find_Some [OF table_of_inv [OF inv], of key m] by simp
  ultimately have "ct_find ?t key = None" by (auto simp: ct_find_None)
  with cleanupFlows_expire [OF inv, of now] show ?thesis by (simp add: flow_map_def)
qed

section \<open>Properties\<close>

text \<open>C7 The life of a flow whose DPI thread keeps up with its packets, in either direction: the first packet
  opens one connection in the library, every later one leads to at most one classification and to none once the
  library's answer was final; at most one result is reported, exactly when the flow is finished, and then the next
  round of the cleanup removes the flow.  No other flow is touched and no queue keeps a message.\<close>

theorem flow_life:
  assumes inv: "ft_inv ft" "refs_inv ft" "0 < numQueues ft" and new: "flow_map ft (p_key p) = None"
    and empty: "dpiQueues ft ! flow_queue ft (p_key p) = []" and ps: "\<forall>q \<in> set ps. ConnKeyEqual (p_key q) (p_key p)"
  shows "\<exists>ft' ci cs rs. serve_all g (p # ps) ft = Inr (ft', library_call g ft (p_key p) (p_data p) # cs) \<and>
    list_all is_classify cs \<and> length cs \<le> length ps \<and>
    (\<forall>k. flow_map ft' k = (if ConnKeyEqual k (p_key p) then Some ci else flow_map ft k)) \<and>
    dpQueue ft' = dpQueue ft @ rs \<and> length rs = (if is_done (class_state ci) then 1 else 0) \<and>
    dpiQueues ft' = dpiQueues ft \<and>
    (is_done (class_state ci) \<longrightarrow>
      (\<exists>ft''. cleanupFlows now False ft' = Inr ft'' \<and> flow_map ft'' (p_key p) = None) \<and>
      (\<forall>q. ConnKeyEqual (p_key q) (p_key p) \<longrightarrow> (\<exists>ft2. serve g q ft' = Inr (ft2, []) \<and> dpQueue ft2 = dpQueue ft')))"
proof -
  let ?k = "p_key p"
  obtain ci1 cs1 r where st: "flow_step g (numQueues ft) p None = (ci1, cs1, r)" by (cases "flow_step g (numQueues ft) p None")
  note first = flow_step_new [OF st]
  have "ct_find (conn_table ft) ?k = None" using new by (simp add: flow_map_def)
  then have cs1: "cs1 = [library_call g ft ?k (p_data p)]" using st by (auto simp: library_call_def Let_def)
  from serve_steps [OF inv empty, of g ci1 cs1 r] new st first(4) obtain ft1 where
    s: "serve g p ft = Inr (ft1, cs1)" "\<And>k. flow_map ft1 k = (if ConnKeyEqual k ?k then Some ci1 else flow_map ft k)"
      "dpQueue ft1 = dpQueue ft" "dpiQueues ft1 = dpiQueues ft" "numQueues ft1 = numQueues ft" "ft_inv ft1" "refs_inv ft1"
    by (auto simp: results_def)
  have "flow_map ft1 ?k = Some ci1" using s(2) [of ?k] by (simp add: ConnKeyEqual_alt)
  moreover have "dpiQueues ft1 ! nat (ci_queue ci1) = []" using empty new first(1) s(4) by (simp add: flow_queue_map)
  ultimately obtain ft' ci cs rs where
    t: "serve_all g ps ft1 = Inr (ft', cs)" "\<And>k. flow_map ft' k = (if ConnKeyEqual k ?k then Some ci else flow_map ft1 k)"
      "settled ci" "dpQueue ft' = dpQueue ft1 @ rs" "length rs = (if is_done (class_state ci) then 1 else 0)"
      "list_all is_classify cs" "length cs \<le> length ps" "dpiQueues ft' = dpiQueues ft1" "ft_inv ft'" "refs_inv ft'"
      "ci_queue ci = ci_queue ci1" "numQueues ft' = numQueues ft1"
    using serve_all_known [OF s(6,7) _ _ first(2) _ ps, of g] inv(3) s(5) first(3) by auto
  have own: "flow_map ft' ?k = Some ci" using t(2) [of ?k] by (simp add: ConnKeyEqual_alt)
  have gone: "\<exists>ft''. cleanupFlows now False ft' = Inr ft'' \<and> flow_map ft'' ?k = None" if "is_done (class_state ci)"
    using cleanup_removes [OF t(9) own] t(3) that by (auto simp: settled_def)
  have quiet: "\<exists>ft2. serve g q ft' = Inr (ft2, []) \<and> dpQueue ft2 = dpQueue ft'"
    if "is_done (class_state ci)" "ConnKeyEqual (p_key q) ?k" for q
  proof -
    have "flow_map ft' (p_key q) = Some ci" using t(2) [of "p_key q"] that(2) by simp
    note own = this
    have "\<not> forwards ci" using that(1) by (auto simp: forwards_def is_done_def)
    moreover from own have "dpiQueues ft' ! flow_queue ft' (p_key q) = []"
      using empty new first(1) s(4) t(8,11) by (simp add: flow_queue_map)
    ultimately show ?thesis using own serve_quiet [OF t(9,10)] inv(3) s(5) t(12) by metis
  qed
  show ?thesis
    using s t gone quiet cs1
    by (intro exI [of _ ft'] exI [of _ ci] exI [of _ cs] exI [of _ rs]) auto
qed

definition packet_sample :: "ConnKey \<Rightarrow> bytes \<Rightarrow> packet" where
  "packet_sample k d = \<lparr>p_key = k, p_data = d, p_filter = None, p_dir = 0, p_now = 100, p_engine = engine_sample\<rparr>"

theorem flow_life_witness:
  "\<exists>ft' c cs. serve_all 3 [packet_sample key_sample [1], packet_sample (reverse_key key_sample) [2]] ft_sample =
     Inr (ft', c # cs) \<and> length cs \<le> 1 \<and> length (dpQueue ft') \<le> length (dpQueue ft_sample) + 1"
proof -
  have "numQueues ft_sample \<le> int 2" using ft_sample_facts(1,5) by (simp add: ft_inv_def)
  from mod_less_len [OF ft_sample_facts(3) this, of "uint (ConnKeyHasher key_sample)"]
  have "flow_queue ft_sample key_sample < 2" using ft_sample_facts(4) by (simp add: flow_queue_map)
  then have q: "dpiQueues ft_sample ! flow_queue ft_sample key_sample = []"
    using ft_sample_facts(5) by (auto simp: less_2_cases_iff)
  from flow_life [OF ft_sample_facts(1-3), of "packet_sample key_sample [1]" "[packet_sample (reverse_key key_sample) [2]]" 3 100]
  show ?thesis using ft_sample_facts q by (auto simp: packet_sample_def ConnKeyEqual_alt split: if_splits)
qed

text \<open>A flow whose connection the library refused, or has not opened yet, is not inspected: its packets lead to no call, and
  opening is not tried again.\<close>

lemma unopened_ignored:
  assumes "ft_inv ft" and "refs_inv ft" and "0 < numQueues ft" and "dpiQueues ft ! flow_queue ft (p_key p) = []"
    and "flow_map ft (p_key p) = Some ci" and "dpi_state ci = None"
  shows "\<exists>ft' ci'. serve g p ft = Inr (ft', []) \<and> dpQueue ft' = dpQueue ft \<and>
    flow_map ft' (p_key p) = Some ci' \<and> dpi_state ci' = None"
proof -
  have "\<not> forwards ci" using assms(6) by (simp add: forwards_def)
  then have "flow_step g (numQueues ft) p (flow_map ft (p_key p)) = (seen_info (p_now p) ci, [], None)"
    using assms(5) by simp
  from serve_steps [OF assms(1-4) this] show ?thesis
    using assms(6) by (auto simp: results_def seen_info_def ConnKeyEqual_alt)
qed

end
