(* ===== verification/Dvf_Match.thy ===== *)
theory Dvf_Match
  imports Dvf_Props
begin

text \<open>
  Which packets the service stops, and which it translates.  A filter's state is a list of rules, and a packet that lies in one fragment is stopped
  when a rule matches its own protocol and ports.  When the headers are spread over fragments this
  fails: a transport header across a boundary is never seen, and one in a later fragment is read at the wrong place.
\<close>

section \<open>Rules\<close>

datatype rule = IcmpRule | PortRule u8 u16

definition rules_of :: "filterState \<Rightarrow> rule list" where
  "rules_of st = (if filterICMP st \<noteq> 0 then [IcmpRule] else []) @
     (if filterUDPPortNBO st \<noteq> 0 then [PortRule IPPROTO_UDP (filterUDPPortNBO st)] else []) @
     (if filterTCPPortNBO st \<noteq> 0 then [PortRule IPPROTO_TCP (filterTCPPortNBO st)] else [])"

fun rule_matches :: "rule \<Rightarrow> u8 \<Rightarrow> u16 \<Rightarrow> u16 \<Rightarrow> bool" where
  "rule_matches IcmpRule proto sp dp \<longleftrightarrow> proto = IPPROTO_ICMP \<or> proto = IPPROTO_ICMPV6"
| "rule_matches (PortRule pr port) proto sp dp \<longleftrightarrow> proto = pr \<and> (sp = port \<or> dp = port)"

definition blocks :: "rule list \<Rightarrow> u8 \<Rightarrow> u16 \<Rightarrow> u16 \<Rightarrow> bool" where
  "blocks rs proto sp dp \<longleftrightarrow> list_ex (\<lambda>r. rule_matches r proto sp dp) rs"

lemmas ipproto_defs = IPPROTO_ICMP_def IPPROTO_ICMPV6_def IPPROTO_UDP_def IPPROTO_TCP_def

lemma FilterPacket_blocks:
  "FilterPacket info d st = (if (pi_ethtype info = ETH_TYPE_IPV4_NBO \<or> pi_ethtype info = ETH_TYPE_IPV6_NBO) \<and>
     blocks (rules_of st) (pi_protocol info) (pi_srcPort info) (pi_dstPort info) then MATCH else NO_MATCH)"
  by (auto simp: FilterPacket_def blocks_def rules_of_def ipproto_defs ETH_TYPE_ARP_NBO_def ETH_TYPE_IPV4_NBO_def
      ETH_TYPE_IPV6_NBO_def Let_def)

text \<open>No rule of a filter matches the ports 0, which \<open>ParsePacket\<close> leaves when it does not see them.\<close>

lemma blocks_zero: "proto = IPPROTO_UDP \<or> proto = IPPROTO_TCP \<Longrightarrow> \<not> blocks (rules_of st) proto 0 0"
  by (auto simp: blocks_def rules_of_def ipproto_defs)

section \<open>The callback\<close>

definition enabled :: "filterState \<Rightarrow> DVFilterDirection \<Rightarrow> bool" where
  "enabled st d \<longleftrightarrow> (d = DVFILTER_TO_SWITCH \<and> filterToSwitch st \<noteq> 0) \<or> (d = DVFILTER_FROM_SWITCH \<and> filterFromSwitch st \<noteq> 0)"

text \<open>A filter that only stops packets.\<close>

definition drops_only :: "filterState \<Rightarrow> bool" where
  "drops_only st \<longleftrightarrow> reorderPackets st = 0 \<and> delayPacketsMs st = 0 \<and> copyPackets st = 0 \<and> dnaptPortNBO st = 0"

definition disposal :: "filter \<Rightarrow> 'p \<Rightarrow> DVFilterDirection \<Rightarrow> bool \<Rightarrow> 'p pkt_event" where
  "disposal f pkt d stop = (if stop then FreePkt pkt else SendPkt (f_handle f) pkt d)"

lemma ProcessPacket_punt:
  fixes lib :: "('s, 'p) dvlib"
  assumes "magic f = FILTER_MAGIC" and "drops_only (f_state f)"
    and parse: "ParsePacket lib s m pkt cbuf pktInfo_zero = Inr (info, m)"
    and ip: "pi_ethtype info = ETH_TYPE_IPV4_NBO"
  shows "\<exists>md. ProcessPacket fuel lib ACTION_PUNT s m fptr buf cbuf f pkt d = Some (Inr \<lparr>pr_lib = s, pr_mem = m,
    pr_events = [PacketCb md (ucast (ucast (DVFilter_GetPktLen lib s pkt) :: u16)),
      disposal f pkt d (enabled (f_state f) d \<and>
        blocks (rules_of (f_state f)) (pi_protocol info) (pi_srcPort info) (pi_dstPort info))]\<rparr>)"
proof -
  obtain b dc where "PktDirectRef lib s m pkt 0 (of_nat sizeof_Eth_Header) (DirectContextInit buf 128) = Inr (b, dc, m)"
    using PktDirectRef_fresh [OF ctx_fresh_init [of buf], of 26 lib s m pkt 0] by (auto simp: eth_sizes)
  with assms show ?thesis
    by (auto simp: ProcessPacket_def FilterPacket_blocks dispose_matched_def drops_only_def disposal_def enabled_def Let_def)
qed

section \<open>Headers in the first fragment\<close>

lemma direct_hit:
  assumes "ctx_at a n dc" and "n < 2 ^ 32" and "unat off + unat len < n"
  shows "PktDirectRef lib s m p off len dc = Inr (Some (a + unat off), dc, m)"
proof -
  have n: "unat (of_nat n :: u32) = n" using assms(2) by (simp add: unsigned_of_nat take_bit_nat_eq_self_iff)
  have "unat (off + len) = unat off + unat len"
    using assms(2,3) by (subst unat_add_lem [THEN iffD1]) simp_all
  then have "off + len < dirOffset dc + dirLen dc"
    using assms(1,3) n by (simp add: ctx_at_def word_less_nat_alt)
  with assms(1) show ?thesis by (simp add: PktDirectRef_def ctx_at_def)
qed

text \<open>\<open>ip_head\<close>: what precedes the transport header.\<close>

definition ip_head :: "framing \<Rightarrow> bytes \<Rightarrow> IPHdr \<Rightarrow> bytes \<Rightarrow> bytes" where
  "ip_head fr macs i opts = enc_header fr macs 0x0800 @ enc_IPHdr i @ opts"

definition ip_head_ok :: "framing \<Rightarrow> bytes \<Rightarrow> IPHdr \<Rightarrow> bytes \<Rightarrow> bool" where
  "ip_head_ok fr macs i opts \<longleftrightarrow> length macs = 12 \<and> framing_ok fr 0x0800 \<and> 4 * unat (ihl i) = 20 + length opts \<and>
     (protocol i = IPPROTO_UDP \<or> protocol i = IPPROTO_TCP)"

definition head_info :: "framing \<Rightarrow> IPHdr \<Rightarrow> filterPktInfo" where
  "head_info fr i = (vlan_info fr pktInfo_zero)\<lparr>pi_ethtype := ETH_TYPE_IPV4_NBO, pi_protocol := protocol i\<rparr>"

lemma ip_head_frame: "ip_head_ok fr macs i opts \<Longrightarrow> ip_frame_ok fr macs i opts (replicate 20 0)"
  by (auto simp: ip_head_ok_def ip_frame_ok_def l4_size_def sizeof_UDPHdr_def sizeof_TCPHdr_def)

lemma first_ref:
  assumes "lib_frags lib s p ((a, n) # fs)" and "26 \<le> n"
  shows "\<exists>dc. PktDirectRef lib s m p 0 (of_nat sizeof_Eth_Header) (DirectContextInit b 128) = Inr (Some a, dc, m) \<and>
    ctx_at a n dc \<and> ctx_fresh dc"
  using assms by (simp add: PktDirectRef_def DirectContextInit_def lib_frags_def eth_sizes ctx_at_def ctx_fresh_def)

text \<open>Up to the transport header parsing succeeds when the layer 3 header can be referenced.\<close>

lemma ParsePacket_head:
  fixes lib :: "('s, 'p) dvlib"
  assumes ok: "ip_head_ok fr macs i opts" and fs: "lib_frags lib s p ((length pre, n) # fs)" and n: "26 \<le> n"
    and m: "m = pre @ enc_header fr macs 0x0800 @ r"
    and l3: "\<And>dc. ctx_at (length pre) n dc \<Longrightarrow> ctx_fresh dc \<Longrightarrow>
      parse_l3 lib s m p ETH_TYPE_IPV4_NBO (of_nat (length (enc_header fr macs 0x0800))) dc =
        Inr (Some (protocol i, ucast (ihl i) * 4), next_dc dc, m)"
  shows "\<exists>dc. ctx_at (length pre) n dc \<and> ctx_fresh dc \<and> ParsePacket lib s m p b pktInfo_zero =
    parse_ports lib s m p (of_nat (length (enc_header fr macs 0x0800)) + ucast (ihl i) * 4) (l4_size (protocol i))
      (next_dc dc) (head_info fr i)"
proof -
  from first_ref [OF fs n] obtain dc where
    r1: "PktDirectRef lib s m p 0 (of_nat sizeof_Eth_Header) (DirectContextInit b 128) = Inr (Some (length pre), dc, m)"
    and dc: "ctx_at (length pre) n dc" "ctx_fresh dc" by blast
  have okD: "length macs = 12" "framing_ok fr 0x0800" "protocol i = IPPROTO_UDP \<or> protocol i = IPPROTO_TCP"
    using ok by (simp_all add: ip_head_ok_def)
  from parse_l2 [OF okD(1,2) m] obtain ht where ht: "EthHeaderType m (length pre) = Inr ht"
    "(if ht = ETH_HEADER_TYPE_802_1PQ
      then bindR (load_tag m (length pre + dix_off)) (\<lambda>tag.
             Inr (pktInfo_zero\<lparr>pi_vlanID := EthVlanTagGetVlanID tag, pi_priority := ucast (priority tag)\<rparr>))
      else Inr pktInfo_zero) = (Inr (vlan_info fr pktInfo_zero) :: filterPktInfo cres)" by blast
  have l2: "EthEncapsulatedPktType m (length pre) = Inr (ETH_TYPE_IPV4_NBO, of_nat (length (enc_header fr macs 0x0800)))"
    unfolding m EthEncapsulated_framing [OF okD(1,2)] by (simp add: htons_ipv4)
  have "ETH_TYPE_IPV4_NBO \<noteq> ETH_TYPE_ARP_NBO" by (simp add: ETH_TYPE_IPV4_NBO_def ETH_TYPE_ARP_NBO_def)
  with r1 ht l2 l3 [OF dc] okD(3) dc show ?thesis
    by (intro exI [of _ dc]) (auto simp: ParsePacket_def head_info_def l4_size_def ipproto_defs Let_def)
qed

lemma unat_l4_size: "unat (of_nat (l4_size proto) :: u32) = l4_size proto"
  by (simp add: l4_size_def sizeof_UDPHdr_def sizeof_TCPHdr_def)

text \<open>The IPv4 header of a frame whose IP header ends before the first fragment does.\<close>

lemma ip_head_l3:
  assumes ok: "ip_head_ok fr macs i opts" and m: "m = pre @ ip_head fr macs i opts @ tail"
    and dc: "ctx_at (length pre) n dc" and n: "n < 2 ^ 32" "l4_at fr macs opts < n"
  shows "parse_l3 lib s m p ETH_TYPE_IPV4_NBO (of_nat (length (enc_header fr macs 0x0800))) dc =
    Inr (Some (protocol i, ucast (ihl i) * 4), dc, m)"
proof -
  let ?h = "length (enc_header fr macs 0x0800)" and ?e = "pre @ enc_header fr macs 0x0800"
  have "unat (of_nat ?h :: u32) = ?h" by (rule ip_frame_l4_offset(2) [OF ip_head_frame [OF ok]])
  then have "PktDirectRef lib s m p (of_nat ?h) (of_nat sizeof_IPHdr) dc = Inr (Some (length pre + ?h), dc, m)"
    using direct_hit [OF dc n(1), of "of_nat ?h" "of_nat sizeof_IPHdr"] n(2) by (simp add: l4_at_def sizeof_IPHdr_def)
  moreover have "m = ?e @ enc_IPHdr i @ (opts @ tail)" by (simp add: m ip_head_def)
  then have "rd8 m (length pre + ?h) = Inr (join4 (ip_version i) (ihl i))" "rd8 m (length pre + ?h + 9) = Inr (protocol i)"
    using rd8_IPHdr [of ?e i "opts @ tail"] by simp_all
  ultimately show ?thesis by (simp add: parse_l3_def ETH_TYPE_IPV4_NBO_def ETH_TYPE_IPV6_NBO_def)
qed

text \<open>A region across the end of the first fragment cannot be referenced: the buffer meant for such a region is
  filled only for requests of at least its own size.\<close>

lemma straddle_miss:
  assumes "lib_frags lib s p ((a, n) # fs)" and "ctx_at a n dc" and "ctx_fresh dc" and "n < 2 ^ 32"
    and "unat off < n" and "n < unat off + unat len" and "unat off + unat len < 2 ^ 32" and "len < 128"
  shows "PktDirectRef lib s m p off len dc = Inr (None, dc, m)"
proof -
  have n: "unat (of_nat n :: u32) = n" using assms(4) by (simp add: unsigned_of_nat take_bit_nat_eq_self_iff)
  have "unat (off + len) = unat off + unat len" using assms(7) by (subst unat_add_lem [THEN iffD1]) simp_all
  then have "\<not> off + len < dirOffset dc + dirLen dc" using assms(2,6) n by (simp add: ctx_at_def word_less_nat_alt)
  moreover have "DVFilter_GetPktFragDirectRange lib s p off len = None"
    using assms(1,5,6) by (simp add: lib_frags_def)
  moreover have "\<not> 128 \<le> len" using assms(8) by (simp add: not_le)
  ultimately show ?thesis using assms(2,3) by (simp add: PktDirectRef_def ctx_at_def ctx_fresh_def)
qed

lemma ParsePacket_split:
  fixes lib :: "('s, 'p) dvlib"
  assumes ok: "ip_head_ok fr macs i opts" and fs: "lib_frags lib s p ((length pre, n) # fs)" and n: "n < 2 ^ 32"
    and split: "l4_at fr macs opts < n" "n < l4_at fr macs opts + l4_size (protocol i)"
    and m: "m = pre @ ip_head fr macs i opts @ tail"
  shows "ParsePacket lib s m p b pktInfo_zero = Inr (head_info fr i, m)"
proof -
  note fok = ip_head_frame [OF ok]
  have n26: "26 \<le> n"
    using split(1) length_enc_header [OF ip_frame_okD(1,2) [OF fok]] by (simp add: l4_at_def)
  have m': "m = pre @ enc_header fr macs 0x0800 @ (enc_IPHdr i @ opts @ tail)" by (simp add: m ip_head_def)
  obtain dc where dc: "ctx_at (length pre) n dc" "ctx_fresh dc" and parse: "ParsePacket lib s m p b pktInfo_zero =
      parse_ports lib s m p (of_nat (length (enc_header fr macs 0x0800)) + ucast (ihl i) * 4) (l4_size (protocol i))
        dc (head_info fr i)"
    using ParsePacket_head [OF ok fs n26 m', of id b] ip_head_l3 [OF ok m _ n split(1), of _ lib s p] by auto
  have "l4_at fr macs opts + l4_size (protocol i) < 2 ^ 32" "of_nat (l4_size (protocol i)) < (128 :: u32)"
    using ip_frame_okD(3) [OF fok] unsigned_less [of "ihl i", where 'a = nat] length_enc_header [OF ip_frame_okD(1,2) [OF fok]]
    by (simp_all add: l4_at_def l4_size_def sizeof_UDPHdr_def sizeof_TCPHdr_def)
  with straddle_miss [OF fs dc n, of "of_nat (length (enc_header fr macs 0x0800)) + ucast (ihl i) * 4"
      "of_nat (l4_size (protocol i))" m] split show ?thesis
    by (simp add: parse parse_ports_def ip_frame_l4_offset(1) [OF fok] unat_l4_size)
qed

section \<open>Headers in the second fragment\<close>

text \<open>The Ethernet header fills the first fragment, the IP packet lies in the second at \<open>b\<close>.\<close>

lemma second_l3:
  assumes fs: "lib_frags lib s p ((a, h) # (b, n) # fs)" and "20 \<le> n" and "h < 2 ^ 31" and "ctx_at a h dc"
    and "ctx_fresh dc"
    and m: "m = x @ enc_IPHdr i @ y" and "length x = b"
  shows "parse_l3 lib s m p ETH_TYPE_IPV4_NBO (of_nat h) dc = Inr (Some (protocol i, ucast (ihl i) * 4),
    dc\<lparr>direct := Some b, dirOffset := of_nat h, dirLen := of_nat n\<rparr>, m)"
proof -
  have h: "unat (of_nat h :: u32) = h" using assms(3) by (simp add: unsigned_of_nat take_bit_nat_eq_self_iff)
  have "unat (of_nat h + 20 :: u32) = h + 20" using h assms(3) by (subst unat_add_lem [THEN iffD1]) simp_all
  then have "\<not> of_nat h + 20 < (of_nat h :: u32)" using h by (simp add: word_less_nat_alt)
  moreover have "DVFilter_GetPktFragDirectRange lib s p (of_nat h) 20 = Some (b, of_nat n)"
    using fs assms(2) h by (simp add: lib_frags_def)
  ultimately have "PktDirectRef lib s m p (of_nat h) (of_nat sizeof_IPHdr) dc =
      Inr (Some b, dc\<lparr>direct := Some b, dirOffset := of_nat h, dirLen := of_nat n\<rparr>, m)"
    using assms(4) by (simp add: PktDirectRef_def ctx_at_def sizeof_IPHdr_def)
  moreover have "rd8 m b = Inr (join4 (ip_version i) (ihl i))" "rd8 m (b + 9) = Inr (protocol i)"
    using rd8_IPHdr [of x i y] m assms(7) by simp_all
  ultimately show ?thesis by (simp add: parse_l3_def ETH_TYPE_IPV4_NBO_def ETH_TYPE_IPV6_NBO_def)
qed

lemma cached_ref:
  assumes "direct dc = Some b" and "dirOffset dc = of_nat h" and "dirLen dc = of_nat n" and "h + n < 2 ^ 32"
    and "h \<le> unat off" and "unat off + unat len < h + n"
  shows "PktDirectRef lib s m p off len dc = Inr (Some (b + unat off), dc, m)"
proof -
  have u: "unat (of_nat h :: u32) = h" "unat (of_nat (h + n) :: u32) = h + n"
    using assms(4) by (simp_all add: unsigned_of_nat take_bit_nat_eq_self_iff del: of_nat_add)
  have "unat (off + len) = unat off + unat len" using assms(4,6) by (subst unat_add_lem [THEN iffD1]) simp_all
  then have "off + len < of_nat h + of_nat n" "of_nat h \<le> off"
    using u assms(5,6) by (simp_all add: word_less_nat_alt word_le_nat_alt)
  with assms(1-3) show ?thesis by (simp add: PktDirectRef_def)
qed

section \<open>Properties\<close>


definition blocker :: "u16 \<Rightarrow> filter" where
  "blocker port = filter_sample\<lparr>f_state := filterState_zero\<lparr>filterTCPPortNBO := port, filterToSwitch := 1\<rparr>\<rparr>"

lemma blocker_ok: "magic (blocker port) = FILTER_MAGIC" "drops_only (f_state (blocker port))"
  by (simp_all add: blocker_def filter_sample_def drops_only_def filterState_zero_def)


text \<open>A filter that translates ports.\<close>

definition translates_only :: "filterState \<Rightarrow> bool" where
  "translates_only st \<longleftrightarrow> reorderPackets st = 0 \<and> delayPacketsMs st = 0 \<and> copyPackets st = 0 \<and> dnaptPortNBO st \<noteq> 0"


definition translator :: "u16 \<Rightarrow> filter" where
  "translator port = blocker port\<lparr>f_state := (f_state (blocker port))\<lparr>dnaptPortNBO := 0x901F\<rparr>\<rparr>"





definition tagged_dot3 :: framing where
  "tagged_dot3 = TaggedDot3 0x6005 84 [0xAA, 0xAA, 3, 0, 0, 0]"

definition second_sample :: bytes where
  "second_sample = enc_header tagged_dot3 (replicate 12 0) 0x0800 @ enc_IPHdr ip_sample @ le16 0x409C @ le16 0xBB01 @ replicate 60 0"


end
